(* ===== verification/Adcos_Prelude.thy ===== *)
theory Adcos_Prelude
  imports Main
    "HOL-Library.AList"
    "HOL-Library.List_Lexorder"
    "HOL-Library.Char_ord"
    "HOL-Library.Product_Lexorder"
    "HOL-Library.Multiset"
begin

text \<open>
  Vocabulary shared by every component of the development: the result type of
  fallible operations, sequencing of results, Python dictionaries as association
  lists in insertion order, and the generic lemmas on lists and sorting that the
  component proofs rely on.
\<close>

section \<open>Results of fallible operations\<close>

text \<open>
  A Python operation that may raise is a value of type \<open>'e + 'a\<close>: \<open>Inl e\<close> for
  the exception \<open>e\<close>, \<open>Inr a\<close> for the returned value.  \<open>bindE\<close> is sequencing,
  \<open>guardE\<close> is \<open>if bad: raise e\<close>, and \<open>mapE\<close> runs an operation over a list and
  stops at the first exception, as a \<open>for\<close> loop does.
\<close>

named_theorems result_simps \<open>rewriting of results of fallible operations\<close>

definition bindE :: "'e + 'a \<Rightarrow> ('a \<Rightarrow> 'e + 'b) \<Rightarrow> 'e + 'b" where
  "bindE m f = (case m of Inl e \<Rightarrow> Inl e | Inr a \<Rightarrow> f a)"

definition guardE :: "bool \<Rightarrow> 'e \<Rightarrow> 'e + unit" where
  "guardE bad e = (if bad then Inl e else Inr ())"

fun mapE :: "('a \<Rightarrow> 'e + 'b) \<Rightarrow> 'a list \<Rightarrow> 'e + 'b list" where
  "mapE f [] = Inr []"
| "mapE f (x # xs) = bindE (f x) (\<lambda>y. bindE (mapE f xs) (\<lambda>ys. Inr (y # ys)))"

definition isOk :: "'e + 'a \<Rightarrow> bool" where
  "isOk m = (case m of Inl _ \<Rightarrow> False | Inr _ \<Rightarrow> True)"

lemma bindE_Inl [simp, result_simps]: "bindE (Inl e) f = Inl e"
  and bindE_Inr [simp, result_simps]: "bindE (Inr a) f = f a"
  by (simp_all add: bindE_def)

lemma bindE_eq_Inr_iff [result_simps]:
  "bindE m f = Inr b \<longleftrightarrow> (\<exists>a. m = Inr a \<and> f a = Inr b)"
  by (cases m) simp_all

lemma bindE_eq_Inl_iff:
  "bindE m f = Inl e \<longleftrightarrow> m = Inl e \<or> (\<exists>a. m = Inr a \<and> f a = Inl e)"
  by (cases m) simp_all

lemma guardE_eq_Inr_iff [simp, result_simps]: "guardE bad e = Inr u \<longleftrightarrow> \<not> bad"
  by (simp add: guardE_def)

lemma guardE_eq_Inl_iff [simp, result_simps]: "guardE bad e = Inl e' \<longleftrightarrow> bad \<and> e' = e"
  by (auto simp: guardE_def)

lemma bindE_guardE [simp, result_simps]:
  "bindE (guardE bad e) f = (if bad then Inl e else f ())"
  by (simp add: guardE_def)

lemma if_Inl_eq_Inr [simp, result_simps]:
  "(if bad then Inl e else m) = Inr b \<longleftrightarrow> \<not> bad \<and> m = Inr b"
  by simp

lemma isOk_simps [simp]: "\<not> isOk (Inl e)" "isOk (Inr a)"
  by (simp_all add: isOk_def)

lemma isOk_iff: "isOk m \<longleftrightarrow> (\<exists>a. m = Inr a)"
  by (cases m) simp_all

lemma mapE_eq_Inr_iff:
  "mapE f xs = Inr ys \<longleftrightarrow> list_all2 (\<lambda>x y. f x = Inr y) xs ys"
proof (induction xs arbitrary: ys)
  case Nil
  then show ?case by (cases ys) simp_all
next
  case (Cons x xs)
  then show ?case by (cases ys) (auto simp: bindE_eq_Inr_iff)
qed

lemma mapE_cong [fundef_cong]:
  "xs = ys \<Longrightarrow> (\<And>x. x \<in> set ys \<Longrightarrow> f x = g x) \<Longrightarrow> mapE f xs = mapE g ys"
  by (induction ys arbitrary: xs) auto

lemma bindE_cong [fundef_cong]:
  "m = m' \<Longrightarrow> (\<And>a. m' = Inr a \<Longrightarrow> f a = g a) \<Longrightarrow> bindE m f = bindE m' g"
  by (cases m') auto

section \<open>Dictionaries\<close>

text \<open>
  A Python \<open>dict\<close> is an association list in insertion order with distinct keys:
  \<open>d.get(k)\<close> is \<open>map_of d k\<close>, \<open>d[k] = v\<close> replaces in place or appends
  (\<open>AList.update\<close>), \<open>d.pop(k, None)\<close> is \<open>AList.delete\<close>.
\<close>

type_synonym ('k, 'v) dict = "('k \<times> 'v) list"

named_theorems dict_simps \<open>lookups in updated dictionaries\<close>

abbreviation dget :: "('k, 'v) dict \<Rightarrow> 'k \<Rightarrow> 'v option" where
  "dget \<equiv> map_of"

abbreviation dset :: "('k, 'v) dict \<Rightarrow> 'k \<Rightarrow> 'v \<Rightarrow> ('k, 'v) dict" where
  "dset d k v \<equiv> AList.update k v d"

abbreviation dpop :: "('k, 'v) dict \<Rightarrow> 'k \<Rightarrow> ('k, 'v) dict" where
  "dpop d k \<equiv> AList.delete k d"

definition dgetd :: "('k, 'v) dict \<Rightarrow> 'k \<Rightarrow> 'v \<Rightarrow> 'v" where
  \<comment> \<open>\<open>d.get(k, default)\<close>\<close>
  "dgetd d k v = (case map_of d k of None \<Rightarrow> v | Some w \<Rightarrow> w)"

abbreviation dict_wf :: "('k, 'v) dict \<Rightarrow> bool" where
  "dict_wf d \<equiv> distinct (map fst d)"

lemma dget_dset [simp, dict_simps]: "dget (dset d k v) k' = (if k' = k then Some v else dget d k')"
  by (simp add: update_conv')

lemma dget_dpop [simp, dict_simps]: "dget (dpop d k) k' = (if k' = k then None else dget d k')"
  by (simp add: delete_conv')

lemma dgetd_dset [simp, dict_simps]: "dgetd (dset d k v) k' u = (if k' = k then v else dgetd d k' u)"
  by (simp add: dgetd_def)

lemma dgetd_dpop [simp, dict_simps]: "dgetd (dpop d k) k' u = (if k' = k then u else dgetd d k' u)"
  by (simp add: dgetd_def)

lemma dgetd_Nil [simp, dict_simps]: "dgetd [] k u = u"
  and dgetd_Cons [simp, dict_simps]: "dgetd ((a, b) # d) k u = (if a = k then b else dgetd d k u)"
  by (simp_all add: dgetd_def)

lemma dict_wf_dset [simp, intro]: "dict_wf d \<Longrightarrow> dict_wf (dset d k v)"
  by (rule distinct_update)

lemma dict_wf_dpop [simp, intro]: "dict_wf d \<Longrightarrow> dict_wf (dpop d k)"
  by (rule distinct_delete)

lemma dict_mem_iff: "dict_wf d \<Longrightarrow> (k, v) \<in> set d \<longleftrightarrow> dget d k = Some v"
  by (rule map_of_eq_Some_iff [symmetric])

section \<open>Lists and sorting\<close>

lemma insort_key_map:
  "insort_key f (g x) (map g xs) = map g (insort_key (\<lambda>x. f (g x)) x xs)"
  by (induction xs) simp_all

lemma sort_key_map: "sort_key f (map g xs) = map g (sort_key (\<lambda>x. f (g x)) xs)"
  by (induction xs) (simp_all add: insort_key_map)

lemma insort_key_cong:
  "(\<And>y. y \<in> set xs \<Longrightarrow> f x \<le> f y \<longleftrightarrow> g x \<le> g y) \<Longrightarrow> insort_key f x xs = insort_key g x xs"
  by (induction xs) auto

lemma sort_key_cong:
  "(\<And>x y. x \<in> set xs \<Longrightarrow> y \<in> set xs \<Longrightarrow> f x \<le> f y \<longleftrightarrow> g x \<le> g y) \<Longrightarrow>
   sort_key f xs = sort_key g xs"
proof (induction xs)
  case (Cons x xs)
  then have "sort_key f xs = sort_key g xs" by simp
  moreover have "insort_key f x (sort_key g xs) = insort_key g x (sort_key g xs)"
    using Cons.prems by (intro insort_key_cong) auto
  ultimately show ?case by simp
qed simp

lemma sort_key_ident: "sorted (map f xs) \<Longrightarrow> sort_key f xs = xs"
  by (rule sort_key_id_if_sorted)

lemma update_fresh: "dget d k = None \<Longrightarrow> dset d k v = d @ [(k, v)]"
  by (induction d) auto

lemma list_all2_insort_key:
  assumes "P x y" and "list_all2 P xs ys"
    and "\<And>x y x' y'. P x y \<Longrightarrow> P x' y' \<Longrightarrow> f x \<le> f x' \<longleftrightarrow> g y \<le> g y'"
  shows "list_all2 P (insort_key f x xs) (insort_key g y ys)"
  using assms(2) assms(1,3) by (induction rule: list_all2_induct) auto

lemma list_all2_sort_key:
  assumes "list_all2 P xs ys"
    and "\<And>x y x' y'. P x y \<Longrightarrow> P x' y' \<Longrightarrow> f x \<le> f x' \<longleftrightarrow> g y \<le> g y'"
  shows "list_all2 P (sort_key f xs) (sort_key g ys)"
  using assms(1)
proof (induction rule: list_all2_induct)
  case (Cons x xs y ys)
  then show ?case using list_all2_insort_key [of P x y _ _ f g] assms(2) by simp
qed simp

lemma dict_sorted_unique:
  fixes d e :: "('k :: linorder, 'v) dict"
  assumes "dict_wf d" "dict_wf e" "\<And>k. dget d k = dget e k"
  shows "sort_key fst d = sort_key fst e"
proof -
  have "map_of d = map_of e" using assms(3) by (rule ext)
  then have "set d = set e" using map_of_inject_set [OF assms(1,2)] by simp
  moreover have "distinct d" "distinct e" using assms(1,2) by (simp_all add: distinct_map)
  ultimately have "mset d = mset (sort_key fst e)" by (simp add: set_eq_iff_mset_eq_distinct)
  then show ?thesis
    by (rule sort_key_inj_key_eq) (use assms(1) in \<open>simp_all add: distinct_map\<close>)
qed

lemma sort_key_set_unique:
  assumes "set xs = set ys" "distinct xs" "distinct ys" "inj_on f (set xs)"
  shows "sort_key f xs = sort_key f ys"
proof -
  have "mset xs = mset (sort_key f ys)" using assms by (simp add: set_eq_iff_mset_eq_distinct)
  then show ?thesis by (rule sort_key_inj_key_eq) (use assms in simp_all)
qed

lemma mapE_map: "mapE f (map g xs) = mapE (\<lambda>x. f (g x)) xs"
  by (induction xs) simp_all

lemma sort_key_buckets:
  fixes d :: "('k \<times> 'a list) list"
  assumes "inj_on f (set (xs @ concat (map snd (filter (\<lambda>kv. P (fst kv)) d))))"
  shows "sort_key f (xs @ concat (map snd (filter (\<lambda>kv. P (fst kv)) d))) =
    sort_key f (xs @ concat (map snd (filter (\<lambda>kv. P (fst kv)) (map (\<lambda>kv. (fst kv, sort_key g (snd kv))) d))))"
proof (rule sort_key_inj_key_eq)
  have "mset (concat (map snd (filter (\<lambda>kv. P (fst kv)) d)))
      = mset (concat (map snd (filter (\<lambda>kv. P (fst kv)) (map (\<lambda>kv. (fst kv, sort_key g (snd kv))) d))))"
    by (induction d) auto
  then show "mset (xs @ concat (map snd (filter (\<lambda>kv. P (fst kv)) d)))
      = mset (sort_key f (xs @ concat (map snd (filter (\<lambda>kv. P (fst kv)) (map (\<lambda>kv. (fst kv, sort_key g (snd kv))) d)))))"
    by simp
qed (use assms in simp_all)

lemma mset_buckets:
  "mset (concat (map snd (filter (\<lambda>kv. Q (fst kv)) d))) =
     (\<Sum>kv\<in>#filter_mset (\<lambda>kv. Q (fst kv)) (mset (map (\<lambda>kv. (fst kv, sort_key g (snd kv))) d)). mset (snd kv))"
  by (induction d) simp_all

lemma mapE_mem: "mapE f xs = Inr ys \<Longrightarrow> y \<in> set ys \<Longrightarrow> \<exists>x \<in> set xs. f x = Inr y"
  by (induction xs arbitrary: ys) (auto simp: bindE_eq_Inr_iff)

lemma mapE_length: "mapE f xs = Inr ys \<Longrightarrow> length ys = length xs"
  by (induction xs arbitrary: ys) (auto simp: bindE_eq_Inr_iff)

end
