(* ===== verification/Utf8.thy ===== *)
theory Utf8
  imports Adcos_Prelude "HOL-Library.Word"
begin

text \<open>
  Text and bytes.  A Python \<open>str\<close> is a list of code points, a \<open>bytes\<close> value a
  list of 8-bit words; \<open>utf8_encode\<close> and \<open>utf8_decode\<close> are \<open>str.encode("utf-8")\<close>
  and \<open>bytes.decode("utf-8")\<close> in strict mode, with \<open>None\<close> for \<open>UnicodeEncodeError\<close>
  and \<open>UnicodeDecodeError\<close>.  Both directions of the round trip are proved, and the
  UTF-16 big-endian form used as a sort key by the canonical JSON writer.
\<close>

section \<open>Code points and bytes\<close>

type_synonym ustr = "nat list"
type_synonym byte = "8 word"
type_synonym bytes = "byte list"

definition lit :: "string \<Rightarrow> ustr" where
  \<comment> \<open>a string literal of the source as code points\<close>
  "lit s = map of_char s"

definition byte :: "nat \<Rightarrow> byte" where
  "byte n = word_of_nat n"

lemma unat_byte [simp]: "n < 256 \<Longrightarrow> unat (byte n) = n"
  by (simp add: byte_def unat_of_nat)

lemma byte_unat [simp]: "byte (unat b) = b"
  by (simp add: byte_def)

lemma unat_byte_lt [simp]: "unat (b :: byte) < 256"
proof -
  have "unat b < 2 ^ LENGTH(8)" by (rule unsigned_less)
  then show ?thesis by simp
qed

lemma byte_eq_iff: "m < 256 \<Longrightarrow> n < 256 \<Longrightarrow> byte m = byte n \<longleftrightarrow> m = n"
  by (metis unat_byte)

lemma byte_eqI: "unat b = n \<Longrightarrow> byte n = b"
  by auto

definition surrogate :: "nat \<Rightarrow> bool" where
  "surrogate c \<longleftrightarrow> 0xD800 \<le> c \<and> c \<le> 0xDFFF"

definition scalar :: "nat \<Rightarrow> bool" where
  "scalar c \<longleftrightarrow> c \<le> 0x10FFFF \<and> \<not> surrogate c"

section \<open>UTF-8\<close>

definition utf8_char :: "nat \<Rightarrow> bytes option" where
  "utf8_char c =
     (if \<not> scalar c then None
      else if c < 0x80 then Some [byte c]
      else if c < 0x800 then Some [byte (0xC0 + c div 64), byte (0x80 + c mod 64)]
      else if c < 0x10000 then
        Some [byte (0xE0 + c div 4096), byte (0x80 + c div 64 mod 64), byte (0x80 + c mod 64)]
      else Some [byte (0xF0 + c div 262144), byte (0x80 + c div 4096 mod 64),
                 byte (0x80 + c div 64 mod 64), byte (0x80 + c mod 64)])"

fun utf8_encode :: "ustr \<Rightarrow> bytes option" where
  "utf8_encode [] = Some []"
| "utf8_encode (c # cs) =
     (case (utf8_char c, utf8_encode cs) of
        (Some b, Some bs) \<Rightarrow> Some (b @ bs) | _ \<Rightarrow> None)"

definition cont :: "byte \<Rightarrow> nat option" where
  \<comment> \<open>the payload of a continuation byte\<close>
  "cont b = (if 0x80 \<le> unat b \<and> unat b < 0xC0 then Some (unat b - 0x80) else None)"

definition utf8_step :: "bytes \<Rightarrow> (nat \<times> bytes) option" where
  \<comment> \<open>one code point off the front: overlong forms, surrogates and values above
     U+10FFFF are refused\<close>
  "utf8_step bs =
     (case bs of
        [] \<Rightarrow> None
      | b # r \<Rightarrow>
          let n = unat b in
          if n < 0x80 then Some (n, r)
          else if n < 0xC0 then None
          else if n < 0xE0 then
            (case r of
               b1 # r1 \<Rightarrow>
                 (case cont b1 of
                    Some x1 \<Rightarrow>
                      let c = (n - 0xC0) * 64 + x1
                      in if 0x80 \<le> c then Some (c, r1) else None
                  | None \<Rightarrow> None)
             | _ \<Rightarrow> None)
          else if n < 0xF0 then
            (case r of
               b1 # b2 # r2 \<Rightarrow>
                 (case (cont b1, cont b2) of
                    (Some x1, Some x2) \<Rightarrow>
                      let c = (n - 0xE0) * 4096 + x1 * 64 + x2
                      in if 0x800 \<le> c \<and> \<not> surrogate c then Some (c, r2) else None
                  | _ \<Rightarrow> None)
             | _ \<Rightarrow> None)
          else
            (case r of
               b1 # b2 # b3 # r3 \<Rightarrow>
                 (case (cont b1, cont b2, cont b3) of
                    (Some x1, Some x2, Some x3) \<Rightarrow>
                      let c = (n - 0xF0) * 262144 + x1 * 4096 + x2 * 64 + x3
                      in if 0x10000 \<le> c \<and> c \<le> 0x10FFFF then Some (c, r3) else None
                  | _ \<Rightarrow> None)
             | _ \<Rightarrow> None))"

lemma utf8_step_shorter: "utf8_step bs = Some (c, r) \<Longrightarrow> length r < length bs"
  by (auto simp: utf8_step_def Let_def split: list.splits if_splits option.splits)

function utf8_decode :: "bytes \<Rightarrow> ustr option" where
  "utf8_decode bs =
     (if bs = [] then Some []
      else case utf8_step bs of
             None \<Rightarrow> None
           | Some (c, r) \<Rightarrow>
               (case utf8_decode r of None \<Rightarrow> None | Some cs \<Rightarrow> Some (c # cs)))"
  by pat_completeness auto
termination
  by (relation "measure length") (auto dest: utf8_step_shorter)

declare utf8_decode.simps [simp del]

lemma utf8_char_Some_cases:
  assumes "utf8_char c = Some b"
  obtains "c < 0x80" "b = [byte c]"
  | "0x80 \<le> c" "c < 0x800" "b = [byte (0xC0 + c div 64), byte (0x80 + c mod 64)]"
  | "0x800 \<le> c" "c < 0x10000" "\<not> surrogate c"
    "b = [byte (0xE0 + c div 4096), byte (0x80 + c div 64 mod 64), byte (0x80 + c mod 64)]"
  | "0x10000 \<le> c" "c \<le> 0x10FFFF"
    "b = [byte (0xF0 + c div 262144), byte (0x80 + c div 4096 mod 64),
          byte (0x80 + c div 64 mod 64), byte (0x80 + c mod 64)]"
  using assms by (auto simp: utf8_char_def scalar_def split: if_splits)

lemma cont_byte: "x < 64 \<Longrightarrow> cont (byte (0x80 + x)) = Some x"
  by (simp add: cont_def)

lemma cont_SomeD: "cont b = Some x \<Longrightarrow> x < 64 \<and> b = byte (0x80 + x)"
  by (auto simp: cont_def intro!: byte_eqI [symmetric] split: if_splits)

lemma split64:
  assumes "x < 64"
  shows "(a * 64 + x) div 64 = (a :: nat)" and "(a * 64 + x) mod 64 = x"
  using assms by auto

lemma base64_3: "(c::nat) div 4096 * 4096 + c div 64 mod 64 * 64 + c mod 64 = c"
proof -
  have "c div 64 div 64 = c div 4096" by (simp add: div_mult2_eq [symmetric])
  then show ?thesis
    using div_mult_mod_eq [of "c div 64" 64] div_mult_mod_eq [of c 64] by linarith
qed

lemma base64_4:
  "(c::nat) div 262144 * 262144 + c div 4096 mod 64 * 4096 + c div 64 mod 64 * 64 + c mod 64 = c"
proof -
  have "c div 4096 div 64 = c div 262144" by (simp add: div_mult2_eq [symmetric])
  then show ?thesis
    using div_mult_mod_eq [of "c div 4096" 64] base64_3 [of c] by linarith
qed

lemma utf8_step_char:
  assumes "utf8_char c = Some b"
  shows "utf8_step (b @ r) = Some (c, r)"
  using assms
proof (cases rule: utf8_char_Some_cases)
  case 1
  then show ?thesis by (simp add: utf8_step_def)
next
  case 2
  then have "c div 64 < 32" by simp
  with 2 show ?thesis
    by (simp add: utf8_step_def cont_byte Let_def)
next
  case 3
  then have "c div 4096 < 16" by simp
  with 3 show ?thesis
    using base64_3 [of c] by (simp add: utf8_step_def cont_byte Let_def)
next
  case 4
  then have "c div 262144 < 5" by simp
  with 4 show ?thesis
    using base64_4 [of c] by (simp add: utf8_step_def cont_byte Let_def)
qed

theorem utf8_decode_encode:
  "utf8_encode s = Some bs \<Longrightarrow> utf8_decode bs = Some s"
proof (induction s arbitrary: bs)
  case Nil
  then show ?case by (simp add: utf8_decode.simps)
next
  case (Cons c s)
  then obtain b bs' where b: "utf8_char c = Some b" and bs': "utf8_encode s = Some bs'"
    and bs: "bs = b @ bs'"
    by (auto split: option.splits)
  have "b \<noteq> []" using b by (auto simp: utf8_char_def split: if_splits)
  then show ?case
    using Cons.IH [OF bs'] utf8_step_char [OF b, of bs'] bs
    by (subst utf8_decode.simps) simp
qed

text \<open>The other direction: strict decoding accepts exactly the encoder's output.\<close>

lemma utf8_step_inv:
  assumes "utf8_step bs = Some (c, r)"
  shows "\<exists>b. utf8_char c = Some b \<and> bs = b @ r"
proof -
  from assms obtain b0 q where bs: "bs = b0 # q"
    by (auto simp: utf8_step_def split: list.splits)
  consider "unat b0 < 0x80" | "0xC0 \<le> unat b0" "unat b0 < 0xE0"
    | "0xE0 \<le> unat b0" "unat b0 < 0xF0" | "0xF0 \<le> unat b0"
    using assms bs by (fastforce simp: utf8_step_def split: if_splits)
  then show ?thesis
  proof cases
    case 1
    with assms bs show ?thesis
      by (auto simp: utf8_step_def utf8_char_def scalar_def surrogate_def)
  next
    case 2
    with assms bs obtain b1 x1 where q: "q = b1 # r" and x1: "cont b1 = Some x1"
      and c: "c = (unat b0 - 0xC0) * 64 + x1" "0x80 \<le> c"
      by (auto simp: utf8_step_def Let_def split: list.splits option.splits if_splits)
    from cont_SomeD [OF x1] have x: "x1 < 64" "b1 = byte (0x80 + x1)" by auto
    from 2 c x have d: "c div 64 = unat b0 - 0xC0" "c mod 64 = x1" by auto
    have "c < 0x800" using 2 c x by linarith
    moreover have "byte (0xC0 + c div 64) = b0" using 2 d by (intro byte_eqI) simp
    ultimately show ?thesis
      using c(2) d x q bs by (simp add: utf8_char_def scalar_def surrogate_def)
  next
    case 3
    with assms bs obtain b1 b2 x1 x2 where q: "q = b1 # b2 # r"
      and x1: "cont b1 = Some x1" and x2: "cont b2 = Some x2"
      and c: "c = (unat b0 - 0xE0) * 4096 + x1 * 64 + x2" "0x800 \<le> c" "\<not> surrogate c"
      by (auto simp: utf8_step_def Let_def split: list.splits option.splits if_splits)
    from cont_SomeD [OF x1] cont_SomeD [OF x2]
    have x: "x1 < 64" "b1 = byte (0x80 + x1)" "x2 < 64" "b2 = byte (0x80 + x2)" by auto
    have "c = ((unat b0 - 0xE0) * 64 + x1) * 64 + x2" using c(1) by simp
    then have e: "c div 64 = (unat b0 - 0xE0) * 64 + x1" "c mod 64 = x2"
      using split64 [OF x(3)] by metis+
    have "c div 4096 = c div 64 div 64" by (simp add: div_mult2_eq [symmetric])
    with e have d: "c div 4096 = unat b0 - 0xE0" "c div 64 mod 64 = x1"
      using split64 [OF x(1)] by metis+
    have "c < 0x10000" using 3 c x by linarith
    moreover have "byte (0xE0 + c div 4096) = b0" using 3 d by (intro byte_eqI) simp
    ultimately show ?thesis
      using c d e x q bs by (simp add: utf8_char_def scalar_def)
  next
    case 4
    with assms bs obtain b1 b2 b3 x1 x2 x3 where q: "q = b1 # b2 # b3 # r"
      and x1: "cont b1 = Some x1" and x2: "cont b2 = Some x2" and x3: "cont b3 = Some x3"
      and c: "c = (unat b0 - 0xF0) * 262144 + x1 * 4096 + x2 * 64 + x3"
        "0x10000 \<le> c" "c \<le> 0x10FFFF"
      by (auto simp: utf8_step_def Let_def split: list.splits option.splits if_splits)
    from cont_SomeD [OF x1] cont_SomeD [OF x2] cont_SomeD [OF x3]
    have x: "x1 < 64" "b1 = byte (0x80 + x1)" "x2 < 64" "b2 = byte (0x80 + x2)"
      "x3 < 64" "b3 = byte (0x80 + x3)" by auto
    have "c = (((unat b0 - 0xF0) * 64 + x1) * 64 + x2) * 64 + x3" using c(1) by simp
    then have e: "c div 64 = ((unat b0 - 0xF0) * 64 + x1) * 64 + x2" "c mod 64 = x3"
      using split64 [OF x(5)] by metis+
    have "c div 4096 = c div 64 div 64" by (simp add: div_mult2_eq [symmetric])
    with e have f: "c div 4096 = (unat b0 - 0xF0) * 64 + x1" "c div 64 mod 64 = x2"
      using split64 [OF x(3)] by metis+
    have "c div 262144 = c div 4096 div 64" by (simp add: div_mult2_eq [symmetric])
    with f have d: "c div 262144 = unat b0 - 0xF0" "c div 4096 mod 64 = x1"
      using split64 [OF x(1)] by metis+
    have "byte (0xF0 + c div 262144) = b0" using 4 d by (intro byte_eqI) simp
    then show ?thesis
      using c d e f x q bs by (simp add: utf8_char_def scalar_def surrogate_def)
  qed
qed

theorem utf8_encode_decode:
  "utf8_decode bs = Some s \<Longrightarrow> utf8_encode s = Some bs"
proof (induction bs arbitrary: s rule: utf8_decode.induct)
  case (1 bs)
  show ?case
  proof (cases "bs = []")
    case True
    with "1.prems" show ?thesis by (simp add: utf8_decode.simps)
  next
    case False
    with "1.prems" obtain c r cs where st: "utf8_step bs = Some (c, r)"
      and dr: "utf8_decode r = Some cs" and s: "s = c # cs"
      by (subst (asm) utf8_decode.simps) (auto split: option.splits)
    have "utf8_encode cs = Some r" using "1.IH" [OF False st refl dr] .
    with utf8_step_inv [OF st] s show ?thesis by auto
  qed
qed

lemma utf8_encode_inj:
  "utf8_encode s = Some bs \<Longrightarrow> utf8_encode t = Some bs \<Longrightarrow> s = t"
  by (metis utf8_decode_encode option.inject)

lemma utf8_encode_append:
  "utf8_encode (s @ t) =
     (case (utf8_encode s, utf8_encode t) of
        (Some a, Some b) \<Rightarrow> Some (a @ b) | _ \<Rightarrow> None)"
  by (induction s) (auto split: option.splits)

lemma utf8_encode_Some_iff: "(\<exists>bs. utf8_encode s = Some bs) \<longleftrightarrow> list_all scalar s"
proof (induction s)
  case (Cons c s)
  have "(\<exists>b. utf8_char c = Some b) \<longleftrightarrow> scalar c" by (simp add: utf8_char_def)
  with Cons.IH show ?case by (auto split: option.splits)
qed simp

section \<open>UTF-16 big-endian sort keys\<close>

definition be16 :: "nat \<Rightarrow> nat list" where
  "be16 x = [x div 256, x mod 256]"

definition utf16_char :: "nat \<Rightarrow> nat list option" where
  \<comment> \<open>the big-endian bytes of one code point\<close>
  "utf16_char c =
     (if \<not> scalar c then None
      else if c < 0x10000 then Some (be16 c)
      else Some (be16 (0xD800 + (c - 0x10000) div 1024) @ be16 (0xDC00 + (c - 0x10000) mod 1024)))"

fun utf16_encode :: "ustr \<Rightarrow> nat list option" where
  "utf16_encode [] = Some []"
| "utf16_encode (c # cs) =
     (case (utf16_char c, utf16_encode cs) of
        (Some b, Some bs) \<Rightarrow> Some (b @ bs) | _ \<Rightarrow> None)"

lemma utf16_encode_Some_iff: "(\<exists>bs. utf16_encode s = Some bs) \<longleftrightarrow> list_all scalar s"
proof (induction s)
  case (Cons c s)
  have "(\<exists>b. utf16_char c = Some b) \<longleftrightarrow> scalar c" by (simp add: utf16_char_def Let_def)
  with Cons.IH show ?case by (auto split: option.splits)
qed simp

lemma be16_append_eq: "be16 x @ r = be16 y @ r' \<longleftrightarrow> x = y \<and> r = r'"
  by (auto simp: be16_def) (metis div_mult_mod_eq)

lemma utf16_char_prefix_free:
  assumes b: "utf16_char c = Some b" and b': "utf16_char c' = Some b'"
    and eq: "b @ r = b' @ r'"
  shows "c = c' \<and> r = r'"
proof -
  have hi: "surrogate (0xD800 + (x - 0x10000) div 1024)" if "scalar x" "0x10000 \<le> x" for x
  proof -
    have "x \<le> 0x10FFFF" using that by (simp add: scalar_def)
    then have "x - 0x10000 < 1024 * 1024" by linarith
    then have "(x - 0x10000) div 1024 < 1024" by (rule less_mult_imp_div_less)
    then show ?thesis by (simp add: surrogate_def)
  qed
  have sc: "scalar c" "scalar c'" using b b' by (auto simp: utf16_char_def split: if_splits)
  consider "c < 0x10000" "c' < 0x10000" | "c < 0x10000" "0x10000 \<le> c'"
    | "0x10000 \<le> c" "c' < 0x10000" | "0x10000 \<le> c" "0x10000 \<le> c'"
    by linarith
  then show ?thesis
  proof cases
    case 1
    with b b' sc have "b = be16 c" "b' = be16 c'" by (simp_all add: utf16_char_def)
    with eq show ?thesis by (simp add: be16_append_eq)
  next
    case 2
    with b b' sc have "b = be16 c"
      and "b' = be16 (0xD800 + (c' - 0x10000) div 1024) @ be16 (0xDC00 + (c' - 0x10000) mod 1024)"
      by (simp_all add: utf16_char_def)
    with eq have "c = 0xD800 + (c' - 0x10000) div 1024" by (simp add: be16_append_eq)
    with hi [OF sc(2) 2(2)] sc(1) show ?thesis by (simp add: scalar_def)
  next
    case 3
    with b b' sc have "b' = be16 c'"
      and "b = be16 (0xD800 + (c - 0x10000) div 1024) @ be16 (0xDC00 + (c - 0x10000) mod 1024)"
      by (simp_all add: utf16_char_def)
    with eq have "c' = 0xD800 + (c - 0x10000) div 1024" by (simp add: be16_append_eq)
    with hi [OF sc(1) 3(1)] sc(2) show ?thesis by (simp add: scalar_def)
  next
    case 4
    with b b' sc have
      "b = be16 (0xD800 + (c - 0x10000) div 1024) @ be16 (0xDC00 + (c - 0x10000) mod 1024)"
      "b' = be16 (0xD800 + (c' - 0x10000) div 1024) @ be16 (0xDC00 + (c' - 0x10000) mod 1024)"
      by (simp_all add: utf16_char_def)
    with eq have "(c - 0x10000) div 1024 = (c' - 0x10000) div 1024"
      "(c - 0x10000) mod 1024 = (c' - 0x10000) mod 1024" and r: "r = r'"
      by (simp_all add: be16_append_eq)
    then have "c - 0x10000 = c' - 0x10000" by (metis div_mult_mod_eq)
    with 4 r show ?thesis by auto
  qed
qed

lemma utf16_char_nonempty: "utf16_char c = Some b \<Longrightarrow> b \<noteq> []"
  by (auto simp: utf16_char_def be16_def split: if_splits)

lemma utf16_encode_inj:
  "utf16_encode s = Some k \<Longrightarrow> utf16_encode t = Some k \<Longrightarrow> s = t"
proof (induction s arbitrary: t k)
  case Nil
  then show ?case by (cases t) (auto split: option.splits dest: utf16_char_nonempty)
next
  case (Cons c s)
  then obtain b q where b: "utf16_char c = Some b" "utf16_encode s = Some q" "k = b @ q"
    by (auto split: option.splits)
  with Cons.prems(2) obtain c' t' b' q' where t: "t = c' # t'"
    and b': "utf16_char c' = Some b'" "utf16_encode t' = Some q'" "k = b' @ q'"
    by (cases t) (auto split: option.splits dest: utf16_char_nonempty)
  have "b @ q = b' @ q'" using b(3) b'(3) by simp
  from utf16_char_prefix_free [OF b(1) b'(1) this] have "c = c' \<and> q = q'" .
  with Cons.IH [OF b(2)] b'(2) t show ?case by simp
qed

end
