(* ===== verification/Canonical_Json.thy ===== *)
theory Canonical_Json
  imports Utf8
begin

text \<open>
  \<open>protocol/canonicalization.py\<close>: the deterministic canonical JSON form over which
  every content-derived identifier of the system is computed.  The value type, the
  writer with its error branches, and the theorem that makes the form usable as a
  fingerprint input: two values with the same canonical bytes are the same value up
  to the order of object members.  Integers are those whose digits Python converts to
  text (its limit on their number raises \<open>ValueError\<close> above thousands of digits).
\<close>

section \<open>Values\<close>

text \<open>
  The Python values the writers see, over a type of strings.  \<open>JFloat\<close> is any
  \<open>float\<close>, \<open>JMixed\<close> a \<open>dict\<close> with a key that is not a \<open>str\<close>, \<open>JOther\<close> any other
  object; tuples and lists are both \<open>JArr\<close>, and \<open>JObj\<close> is a \<open>dict\<close> in insertion order.
\<close>

datatype 's jval =
    JNull
  | JBool bool
  | JInt int
  | JFloat
  | JStr 's
  | JArr "'s jval list"
  | JObj "('s \<times> 's jval) list"
  | JMixed
  | JOther

datatype canon_error = CanonDepth | CanonFloat | CanonKeyType | CanonType | CanonSurrogate

lemma size_JArr_mem: "x \<in> set xs \<Longrightarrow> size x < size (JArr xs)"
  by (induction xs) auto

lemma size_JObj_mem: "kv \<in> set kvs \<Longrightarrow> size (snd kv) < size (JObj kvs)"
  by (induction kvs) auto

section \<open>Numbers and strings\<close>

fun dec_nat :: "nat \<Rightarrow> ustr" where
  "dec_nat n = (if n < 10 then [48 + n] else dec_nat (n div 10) @ [48 + n mod 10])"

declare dec_nat.simps [simp del]

definition dec_int :: "int \<Rightarrow> ustr" where
  \<comment> \<open>\<open>str(value)\<close>\<close>
  "dec_int i = (if i < 0 then 45 # dec_nat (nat (- i)) else dec_nat (nat i))"

definition hexdig :: "nat \<Rightarrow> nat" where
  "hexdig d = (if d < 10 then 48 + d else 87 + d)"

definition esc :: "nat \<Rightarrow> ustr" where
  "esc c =
     (if c = 0x22 then [0x5C, 0x22]
      else if c = 0x5C then [0x5C, 0x5C]
      else if c = 0x08 then [0x5C, 0x62]
      else if c = 0x0C then [0x5C, 0x66]
      else if c = 0x0A then [0x5C, 0x6E]
      else if c = 0x0D then [0x5C, 0x72]
      else if c = 0x09 then [0x5C, 0x74]
      else if c < 0x20 then [0x5C, 0x75, 0x30, 0x30, hexdig (c div 16), hexdig (c mod 16)]
      else [c])"

definition canonical_string :: "ustr \<Rightarrow> ustr" where
  "canonical_string s = 0x22 # concat (map esc s) @ [0x22]"

definition utf16_sort_key :: "ustr \<Rightarrow> canon_error + nat list" where
  "utf16_sort_key k =
     (case utf16_encode k of None \<Rightarrow> Inl CanonSurrogate | Some b \<Rightarrow> Inr b)"

section \<open>The writer\<close>

definition MAX_CANONICAL_DEPTH :: nat where
  "MAX_CANONICAL_DEPTH = 64"

fun join :: "nat \<Rightarrow> ustr list \<Rightarrow> ustr" where
  \<comment> \<open>the texts separated by one code point\<close>
  "join c [] = []"
| "join c [t] = t"
| "join c (t # u # ts) = t @ c # join c (u # ts)"

text \<open>
  \<open>_write\<close>: the depth check comes first; an object first computes the sort key of
  every member (which may raise), then writes the members in sorted order, so the
  first failing member in that order decides the exception.
\<close>

function canonical_write :: "nat \<Rightarrow> ustr jval \<Rightarrow> canon_error + ustr" where
  "canonical_write d JNull = bindE (guardE (MAX_CANONICAL_DEPTH < d) CanonDepth) (\<lambda>_. Inr (lit ''null''))"
| "canonical_write d (JBool b) = bindE (guardE (MAX_CANONICAL_DEPTH < d) CanonDepth)
     (\<lambda>_. Inr (if b then lit ''true'' else lit ''false''))"
| "canonical_write d (JStr s) = bindE (guardE (MAX_CANONICAL_DEPTH < d) CanonDepth)
     (\<lambda>_. Inr (canonical_string s))"
| "canonical_write d (JInt i) = bindE (guardE (MAX_CANONICAL_DEPTH < d) CanonDepth) (\<lambda>_. Inr (dec_int i))"
| "canonical_write d JFloat = bindE (guardE (MAX_CANONICAL_DEPTH < d) CanonDepth) (\<lambda>_. Inl CanonFloat)"
| "canonical_write d (JArr xs) = bindE (guardE (MAX_CANONICAL_DEPTH < d) CanonDepth)
     (\<lambda>_. bindE (mapE (canonical_write (Suc d)) xs) (\<lambda>ts. Inr (0x5B # join 0x2C ts @ [0x5D])))"
| "canonical_write d JMixed = bindE (guardE (MAX_CANONICAL_DEPTH < d) CanonDepth) (\<lambda>_. Inl CanonKeyType)"
| "canonical_write d (JObj kvs) = bindE (guardE (MAX_CANONICAL_DEPTH < d) CanonDepth)
     (\<lambda>_. bindE (mapE (\<lambda>kv. bindE (utf16_sort_key (fst kv))
                   (\<lambda>u. Inr (u, fst kv, canonical_write (Suc d) (snd kv)))) kvs)
     (\<lambda>es. bindE (mapE (\<lambda>(u, k, t). bindE t (\<lambda>s. Inr (canonical_string k @ 0x3A # s)))
                   (sort_key fst es))
     (\<lambda>ms. Inr (0x7B # join 0x2C ms @ [0x7D]))))"
| "canonical_write d JOther = bindE (guardE (MAX_CANONICAL_DEPTH < d) CanonDepth) (\<lambda>_. Inl CanonType)"
  by pat_completeness auto
termination
  by (relation "measure (\<lambda>(d, v). size v)")
    (use size_JArr_mem size_JObj_mem in auto)

definition canonical_json_text :: "ustr jval \<Rightarrow> canon_error + ustr" where
  "canonical_json_text v = canonical_write 0 v"

definition canonical_json_bytes :: "ustr jval \<Rightarrow> canon_error + bytes" where
  "canonical_json_bytes v =
     bindE (canonical_json_text v)
       (\<lambda>t. case utf8_encode t of None \<Rightarrow> Inl CanonSurrogate | Some b \<Rightarrow> Inr b)"

text \<open>A quick evaluation: members come out sorted.\<close>

lemma canonical_example:
  "canonical_json_text (JObj [(lit ''b'', JInt (- 12)), (lit ''a'', JArr [JNull, JBool True])])
   = Inr (lit ''{'' @ canonical_string (lit ''a'') @ lit '':[null,true],''
          @ canonical_string (lit ''b'') @ lit '':-12}'')"
  by (simp add: canonical_json_text_def MAX_CANONICAL_DEPTH_def utf16_sort_key_def utf16_char_def
      scalar_def surrogate_def be16_def lit_def dec_int_def dec_nat.simps)

section \<open>The text determines the value\<close>

definition member_key :: "ustr \<times> 'a \<Rightarrow> nat list" where
  "member_key kv = (case utf16_encode (fst kv) of Some b \<Rightarrow> b | None \<Rightarrow> [])"

fun jnorm :: "ustr jval \<Rightarrow> ustr jval" where
  \<comment> \<open>the value with the members of every object in canonical order\<close>
  "jnorm (JArr xs) = JArr (map jnorm xs)"
| "jnorm (JObj kvs) = JObj (sort_key member_key (map (\<lambda>kv. (fst kv, jnorm (snd kv))) kvs))"
| "jnorm v = v"

lemma jnorm_JObj:
  "jnorm (JObj kvs) = JObj (map (\<lambda>kv. (fst kv, jnorm (snd kv))) (sort_key member_key kvs))"
proof -
  have "(\<lambda>kv. member_key (fst kv, jnorm (snd kv))) = member_key"
    by (simp add: fun_eq_iff member_key_def)
  then show ?thesis by (simp add: sort_key_map)
qed

subsection \<open>Tokens are self-delimiting\<close>

abbreviation digits :: "nat set" where
  "digits \<equiv> {48..57}"

definition delim :: "ustr \<Rightarrow> bool" where
  \<comment> \<open>no digit follows\<close>
  "delim r \<longleftrightarrow> r = [] \<or> hd r \<notin> digits"

lemma delim_simps [simp]: "delim []" "delim (c # r) \<longleftrightarrow> c \<notin> digits"
  by (auto simp: delim_def)

lemma dec_nat_digits: "set (dec_nat n) \<subseteq> digits" and dec_nat_nonempty: "dec_nat n \<noteq> []"
proof (induction n rule: dec_nat.induct)
  case (1 n)
  { case 1 show ?case using "1.IH" by (subst dec_nat.simps) auto }
  { case 2 show ?case by (subst dec_nat.simps) auto }
qed

definition dec_val :: "ustr \<Rightarrow> nat" where
  "dec_val ds = foldl (\<lambda>a d. 10 * a + (d - 48)) 0 ds"

lemma dec_val_dec_nat: "dec_val (dec_nat n) = n"
proof (induction n rule: dec_nat.induct)
  case (1 n)
  then show ?case by (subst dec_nat.simps) (auto simp: dec_val_def)
qed

lemma digits_split:
  assumes "set a \<subseteq> digits" "set b \<subseteq> digits" "delim r" "delim r'" "a @ r = b @ r'"
  shows "a = b \<and> r = r'"
proof -
  have tw: "takeWhile (\<lambda>c. c \<in> digits) (x @ y) = x" if "set x \<subseteq> digits" "delim y" for x y
    using that by (cases y) (auto simp: takeWhile_append subset_iff)
  from assms tw [of a r] tw [of b r'] have "a = b" by metis
  with assms(5) show ?thesis by simp
qed

lemma dec_nat_append_inj:
  assumes "dec_nat m @ r = dec_nat n @ r'" "delim r" "delim r'"
  shows "m = n \<and> r = r'"
  using digits_split [OF dec_nat_digits dec_nat_digits assms(2,3,1)]
  by (metis dec_val_dec_nat)

lemma dec_nat_hd: "hd (dec_nat n @ r) \<in> digits"
  using dec_nat_digits [of n] dec_nat_nonempty [of n] by (cases "dec_nat n") auto

lemma dec_int_append_inj:
  assumes "dec_int i @ r = dec_int j @ r'" "delim r" "delim r'"
  shows "i = j \<and> r = r'"
proof -
  have neq: "45 # x \<noteq> dec_nat n @ y" for x n y
  proof
    assume "45 # x = dec_nat n @ y"
    then have "hd (dec_nat n @ y) = 45" by (metis list.sel(1))
    with dec_nat_hd [of n y] show False by simp
  qed
  show ?thesis
  proof (cases "i < 0"; cases "j < 0")
    assume "i < 0" "j < 0"
    with assms dec_nat_append_inj [of "nat (- i)" r "nat (- j)" r'] show ?thesis
      by (auto simp: dec_int_def)
  next
    assume "\<not> i < 0" "\<not> j < 0"
    with assms dec_nat_append_inj [of "nat i" r "nat j" r'] show ?thesis
      by (auto simp: dec_int_def)
  next
    assume "i < 0" "\<not> j < 0"
    with assms(1) neq show ?thesis by (simp add: dec_int_def)
  next
    assume "\<not> i < 0" "j < 0"
    with assms(1) [symmetric] neq show ?thesis by (simp add: dec_int_def)
  qed
qed

text \<open>Reading one escaped character back.\<close>

definition unhex :: "nat \<Rightarrow> nat" where
  "unhex h = (if h < 58 then h - 48 else h - 87)"

fun unesc :: "ustr \<Rightarrow> nat \<times> ustr" where
  "unesc (a # b # r) =
     (if a \<noteq> 0x5C then (a, b # r)
      else if b = 0x75 then (unhex (r ! 2) * 16 + unhex (r ! 3), drop 4 r)
      else if b = 0x62 then (0x08, r)
      else if b = 0x66 then (0x0C, r)
      else if b = 0x6E then (0x0A, r)
      else if b = 0x72 then (0x0D, r)
      else if b = 0x74 then (0x09, r)
      else (b, r))"
| "unesc (a # []) = (a, [])"
| "unesc [] = (0, [])"

lemma unhex_hexdig: "d < 16 \<Longrightarrow> unhex (hexdig d) = d"
  by (simp add: unhex_def hexdig_def)

lemma unesc_esc: "unesc (esc c @ r) = (c, r)"
proof (cases "c < 0x20 \<or> c = 0x22 \<or> c = 0x5C")
  case True
  then have "c div 16 < 16" by auto
  with True show ?thesis by (auto simp: esc_def unhex_hexdig)
next
  case False
  then show ?thesis by (cases r) (simp_all add: esc_def)
qed

lemma esc_append_inj: "esc c @ x = esc c' @ x' \<Longrightarrow> c = c' \<and> x = x'"
  by (metis unesc_esc prod.inject)

lemma esc_hd [simp]: "esc c @ r \<noteq> 0x22 # r'" "0x22 # r' \<noteq> esc c @ r"
  by (simp_all add: esc_def)

lemma esc_string_append_inj:
  "concat (map esc s) @ 0x22 # r = concat (map esc t) @ 0x22 # r' \<Longrightarrow> s = t \<and> r = r'"
proof (induction s arbitrary: t)
  case Nil
  then show ?case by (cases t) simp_all
next
  case (Cons c s)
  show ?case
  proof (cases t)
    case Nil
    with Cons.prems show ?thesis by simp
  next
    case (Cons c' t')
    with Cons.prems have "esc c @ (concat (map esc s) @ 0x22 # r) = esc c' @ (concat (map esc t') @ 0x22 # r')"
      by simp
    from esc_append_inj [OF this] Cons.IH [of t'] Cons show ?thesis by simp
  qed
qed

lemma canonical_string_append_inj:
  "canonical_string s @ r = canonical_string t @ r' \<Longrightarrow> s = t \<and> r = r'"
  using esc_string_append_inj [of s r t r'] by (simp add: canonical_string_def)

subsection \<open>Reading the texts of arrays and objects\<close>

definition item_ok :: "nat \<Rightarrow> ustr jval \<Rightarrow> ustr \<Rightarrow> bool" where
  "item_ok d x t \<longleftrightarrow> canonical_write d x = Inr t"

definition member_ok :: "nat \<Rightarrow> ustr \<times> ustr jval \<Rightarrow> ustr \<Rightarrow> bool" where
  "member_ok d kv m \<longleftrightarrow>
     (\<exists>t. canonical_write d (snd kv) = Inr t \<and> m = canonical_string (fst kv) @ 0x3A # t)"

lemma write_JArr:
  "canonical_write d (JArr xs) = Inr s \<longleftrightarrow>
     d \<le> MAX_CANONICAL_DEPTH \<and>
     (\<exists>ts. list_all2 (item_ok (Suc d)) xs ts \<and> s = 0x5B # join 0x2C ts @ [0x5D])"
  by (auto simp: bindE_eq_Inr_iff mapE_eq_Inr_iff item_ok_def [abs_def])

lemma list_all2_eq_map: "list_all2 (\<lambda>x y. P x \<and> y = f x) xs ys \<longleftrightarrow> list_all P xs \<and> ys = map f xs"
proof (induction xs arbitrary: ys)
  case (Cons x xs)
  then show ?case by (cases ys) auto
qed auto

lemma write_JObj_entries:
  "mapE (\<lambda>kv. bindE (utf16_sort_key (fst kv)) (\<lambda>u. Inr (u, fst kv, canonical_write d (snd kv)))) kvs
     = Inr es \<longleftrightarrow>
   list_all (\<lambda>kv. utf16_encode (fst kv) \<noteq> None) kvs \<and>
   es = map (\<lambda>kv. (member_key kv, fst kv, canonical_write d (snd kv))) kvs"
proof -
  have "bindE (utf16_sort_key (fst kv)) (\<lambda>u. Inr (u, fst kv, canonical_write d (snd kv))) = Inr e
    \<longleftrightarrow> utf16_encode (fst kv) \<noteq> None \<and> e = (member_key kv, fst kv, canonical_write d (snd kv))"
    for kv e
    by (auto simp: bindE_eq_Inr_iff utf16_sort_key_def member_key_def split: option.splits)
  then show ?thesis by (simp add: mapE_eq_Inr_iff list_all2_eq_map)
qed

lemma write_JObj:
  "canonical_write d (JObj kvs) = Inr s \<longleftrightarrow>
     d \<le> MAX_CANONICAL_DEPTH \<and> list_all (\<lambda>kv. utf16_encode (fst kv) \<noteq> None) kvs \<and>
     (\<exists>ms. list_all2 (member_ok (Suc d)) (sort_key member_key kvs) ms \<and>
           s = 0x7B # join 0x2C ms @ [0x7D])"
proof -
  have sk: "sort_key fst (map (\<lambda>kv. (member_key kv, fst kv, canonical_write d (snd kv))) kvs)
    = map (\<lambda>kv. (member_key kv, fst kv, canonical_write d (snd kv))) (sort_key member_key kvs)"
    for d by (simp add: sort_key_map)
  have mo: "(\<lambda>kv m. \<exists>t. canonical_write d (snd kv) = Inr t \<and>
      canonical_string (fst kv) @ 0x3A # t = m) = member_ok d" for d
    by (auto simp: fun_eq_iff member_ok_def)
  show ?thesis
    by (auto simp: bindE_eq_Inr_iff write_JObj_entries sk mapE_eq_Inr_iff list_all2_map1 mo not_less)
qed

definition uniquely_read :: "ustr jval \<Rightarrow> bool" where
  "uniquely_read v \<longleftrightarrow>
     (\<forall>w d d' s s' r r'. canonical_write d v = Inr s \<longrightarrow> canonical_write d' w = Inr s' \<longrightarrow>
        delim r \<longrightarrow> delim r' \<longrightarrow> s @ r = s' @ r' \<longrightarrow> jnorm v = jnorm w \<and> r = r')"

lemma uniquely_readD:
  "uniquely_read v \<Longrightarrow> canonical_write d v = Inr s \<Longrightarrow> canonical_write d' w = Inr s' \<Longrightarrow>
   delim r \<Longrightarrow> delim r' \<Longrightarrow> s @ r = s' @ r' \<Longrightarrow> jnorm v = jnorm w \<and> r = r'"
  unfolding uniquely_read_def by blast

text \<open>
  A text starts with a character that tells its constructor, and never with a
  closing bracket.
\<close>

fun lead :: "ustr jval \<Rightarrow> nat set" where
  "lead JNull = {110}"
| "lead (JBool b) = (if b then {116} else {102})"
| "lead (JInt i) = insert 45 digits"
| "lead (JStr s) = {0x22}"
| "lead (JArr xs) = {0x5B}"
| "lead (JObj kvs) = {0x7B}"
| "lead _ = {}"

lemma write_lead:
  assumes "canonical_write d v = Inr s"
  obtains c q where "s = c # q" "c \<in> lead v"
proof (cases v)
  case (JInt i)
  have "dec_int i \<noteq> [] \<and> hd (dec_int i) \<in> insert 45 digits"
    using dec_nat_hd [of _ "[]"] dec_nat_nonempty by (auto simp: dec_int_def)
  with assms JInt that show ?thesis
    by (cases s) (auto simp: bindE_eq_Inr_iff split: if_splits)
next
  case (JArr xs)
  with assms that show ?thesis by (auto simp only: write_JArr lead.simps)
next
  case (JObj kvs)
  with assms that show ?thesis by (auto simp only: write_JObj lead.simps)
qed (use assms that in \<open>auto simp: bindE_eq_Inr_iff lit_def canonical_string_def split: if_splits\<close>)

lemma lead_not_close: "c \<in> lead v \<Longrightarrow> c \<noteq> 0x5D \<and> c \<noteq> 0x2C \<and> c \<noteq> 0x7D"
  by (cases v) (auto split: if_splits)

lemma join_close:
  assumes "list_all2 P xs ts" and "\<And>x t. P x t \<Longrightarrow> t \<noteq> [] \<and> hd t \<noteq> close"
  shows "xs = [] \<or> hd (join 0x2C ts @ close # r) \<noteq> close"
proof (cases xs)
  case (Cons x xs')
  with assms(1) obtain t ts' where ts: "ts = t # ts'" and t: "P x t" by (cases ts) auto
  from assms(2) [OF t] show ?thesis by (cases ts') (auto simp: ts)
qed simp

lemma join_append_inj:
  assumes "list_all2 P xs ts" and "list_all2 Q ys us"
    and P: "\<And>x t. P x t \<Longrightarrow> t \<noteq> [] \<and> hd t \<noteq> close"
    and Q: "\<And>x t. Q x t \<Longrightarrow> t \<noteq> [] \<and> hd t \<noteq> close"
    and read: "\<And>x t y u r r'. x \<in> set xs \<Longrightarrow> P x t \<Longrightarrow> Q y u \<Longrightarrow> delim r \<Longrightarrow> delim r' \<Longrightarrow>
                 t @ r = u @ r' \<Longrightarrow> R x = S y \<and> r = r'"
    and "close \<notin> digits" and "close \<noteq> 0x2C"
    and "join 0x2C ts @ close # r = join 0x2C us @ close # r'"
  shows "map R xs = map S ys \<and> r = r'"
  using assms(1,2,5,8)
proof (induction xs arbitrary: ts ys us)
  case Nil
  then have ts: "ts = []" by simp
  have "ys = []"
    using join_close [OF Nil.prems(2) Q, where r = r'] Nil.prems(4) ts by (auto dest: sym)
  with Nil ts show ?case by simp
next
  case (Cons x xs)
  from Cons.prems(1) obtain t ts' where ts: "ts = t # ts'" and t: "P x t"
    and ts': "list_all2 P xs ts'" by (cases ts) auto
  have "ys \<noteq> []"
    using join_close [OF Cons.prems(1) P, where r = r] Cons.prems(2,4) by auto
  then obtain y ys' u us' where ys: "ys = y # ys'" and us: "us = u # us'" and u: "Q y u"
    and us': "list_all2 Q ys' us'"
    using Cons.prems(2) by (cases ys; cases us) auto
  define a where "a = (if ts' = [] then close # r else 0x2C # join 0x2C ts' @ close # r)"
  define b where "b = (if us' = [] then close # r' else 0x2C # join 0x2C us' @ close # r')"
  have "t @ a = u @ b"
    using Cons.prems(4) ts us by (cases ts'; cases us') (auto simp: a_def b_def)
  moreover have "delim a" "delim b" using assms(6) by (simp_all add: a_def b_def)
  ultimately have xy: "R x = S y" and ab: "a = b"
    using Cons.prems(3) [OF _ t u] by (meson list.set_intros(1))+
  show ?case
  proof (cases "ts' = []")
    case True
    with ab assms(7) have "us' = []" "r = r'" by (auto simp: a_def b_def split: if_splits)
    with True ts' us' xy ys show ?thesis by auto
  next
    case False
    with ab assms(7) have us'': "us' \<noteq> []" and eq: "join 0x2C ts' @ close # r = join 0x2C us' @ close # r'"
      by (auto simp: a_def b_def split: if_splits)
    from Cons.IH [OF ts' us' _ eq] Cons.prems(3) have "map R xs = map S ys' \<and> r = r'"
      by (meson list.set_intros(2))
    with xy ys show ?thesis by simp
  qed
qed

lemma item_ok_start: "item_ok d x t \<Longrightarrow> t \<noteq> [] \<and> hd t \<noteq> 0x5D"
  unfolding item_ok_def by (erule write_lead) (auto dest: lead_not_close)

lemma member_ok_start: "member_ok d kv t \<Longrightarrow> t \<noteq> [] \<and> hd t \<noteq> 0x7D"
  by (auto simp: member_ok_def canonical_string_def)

lemma item_read:
  assumes "uniquely_read x" "item_ok d x t" "item_ok d' y u" "delim r" "delim r'" "t @ r = u @ r'"
  shows "jnorm x = jnorm y \<and> r = r'"
  using uniquely_readD [OF assms(1) _ _ assms(4,5,6)] assms(2,3) by (simp add: item_ok_def)

lemma member_read:
  assumes "uniquely_read (snd kv)" "member_ok d kv m" "member_ok d' kv' m'"
    and "delim r" "delim r'" "m @ r = m' @ r'"
  shows "(fst kv, jnorm (snd kv)) = (fst kv', jnorm (snd kv')) \<and> r = r'"
proof -
  from assms(2,3) obtain t t' where t: "canonical_write d (snd kv) = Inr t"
    and t': "canonical_write d' (snd kv') = Inr t'"
    and m: "m = canonical_string (fst kv) @ 0x3A # t" "m' = canonical_string (fst kv') @ 0x3A # t'"
    by (auto simp: member_ok_def)
  from assms(6) m have
    "canonical_string (fst kv) @ (0x3A # t @ r) = canonical_string (fst kv') @ (0x3A # t' @ r')"
    by simp
  from canonical_string_append_inj [OF this] have "fst kv = fst kv'" "t @ r = t' @ r'" by simp_all
  with uniquely_readD [OF assms(1) t t' assms(4,5)] show ?thesis by simp
qed

lemma uniquely_readI:
  assumes "\<And>w d d' s s' r r'. canonical_write d v = Inr s \<Longrightarrow> canonical_write d' w = Inr s' \<Longrightarrow>
     lead v \<inter> lead w \<noteq> {} \<Longrightarrow> delim r \<Longrightarrow> delim r' \<Longrightarrow> s @ r = s' @ r' \<Longrightarrow>
     jnorm v = jnorm w \<and> r = r'"
  shows "uniquely_read v"
  unfolding uniquely_read_def
proof (intro allI impI)
  fix w d d' s s' r r'
  assume a: "canonical_write d v = Inr s" "canonical_write d' w = Inr s'" "delim r" "delim r'"
    "s @ r = s' @ r'"
  obtain c q where "s = c # q" "c \<in> lead v" using write_lead [OF a(1)] .
  moreover obtain c' q' where "s' = c' # q'" "c' \<in> lead w" using write_lead [OF a(2)] .
  ultimately have "lead v \<inter> lead w \<noteq> {}" using a(5) by auto
  from assms [OF a(1,2) this a(3,4,5)] show "jnorm v = jnorm w \<and> r = r'" .
qed

lemma lead_leaf:
  "110 \<in> lead w \<Longrightarrow> w = JNull"
  "116 \<in> lead w \<Longrightarrow> w = JBool True"
  "102 \<in> lead w \<Longrightarrow> w = JBool False"
  "c \<in> insert 45 digits \<Longrightarrow> c \<in> lead w \<Longrightarrow> \<exists>i. w = JInt i"
  "0x22 \<in> lead w \<Longrightarrow> \<exists>t. w = JStr t"
  "0x5B \<in> lead w \<Longrightarrow> \<exists>xs. w = JArr xs"
  "0x7B \<in> lead w \<Longrightarrow> \<exists>kvs. w = JObj kvs"
  by (cases w; auto split: if_splits)+

lemma write_leaf:
  "canonical_write d JNull = Inr s \<Longrightarrow> s = lit ''null''"
  "canonical_write d (JBool b) = Inr s \<Longrightarrow> s = (if b then lit ''true'' else lit ''false'')"
  "canonical_write d (JInt i) = Inr s \<Longrightarrow> s = dec_int i"
  "canonical_write d (JStr t) = Inr s \<Longrightarrow> s = canonical_string t"
  by (auto simp: bindE_eq_Inr_iff)

lemma write_uniquely_read: "uniquely_read v"
proof (induction v)
  case JNull
  show ?case
    by (rule uniquely_readI) (auto dest!: lead_leaf write_leaf simp del: canonical_write.simps)
next
  case (JBool b)
  show ?case
    by (rule uniquely_readI)
      (cases b; auto dest!: lead_leaf write_leaf(2) simp del: canonical_write.simps)
next
  case (JInt i)
  show ?case
  proof (rule uniquely_readI)
    fix w d d' s s' r r'
    assume a: "canonical_write d (JInt i) = Inr s" "canonical_write d' w = Inr s'"
      "lead (JInt i) \<inter> lead w \<noteq> {}" "delim r" "delim r'" "s @ r = s' @ r'"
    from a(3) obtain c where "c \<in> insert 45 digits" "c \<in> lead w"
      by (metis disjoint_iff lead.simps(3))
    then obtain j where "w = JInt j" using lead_leaf(4) by blast
    with a write_leaf(3) have "dec_int i @ r = dec_int j @ r'" by metis
    from dec_int_append_inj [OF this a(4,5)] \<open>w = JInt j\<close>
    show "jnorm (JInt i) = jnorm w \<and> r = r'" by simp
  qed
next
  case (JStr t)
  show ?case
  proof (rule uniquely_readI)
    fix w d d' s s' r r'
    assume a: "canonical_write d (JStr t) = Inr s" "canonical_write d' w = Inr s'"
      "lead (JStr t) \<inter> lead w \<noteq> {}" "s @ r = s' @ r'"
    from a(3) obtain u where "w = JStr u" using lead_leaf(5) by auto
    with a write_leaf(4) have "canonical_string t @ r = canonical_string u @ r'" by metis
    from canonical_string_append_inj [OF this] \<open>w = JStr u\<close>
    show "jnorm (JStr t) = jnorm w \<and> r = r'" by simp
  qed
next
  case (JArr xs)
  show ?case
    unfolding uniquely_read_def
  proof (intro allI impI)
    fix w d d' s s' r r'
    assume v: "canonical_write d (JArr xs) = Inr s" and w: "canonical_write d' w = Inr s'"
      and dl: "delim r" "delim r'" and eq: "s @ r = s' @ r'"
    from v obtain ts where ts: "list_all2 (item_ok (Suc d)) xs ts"
      and s: "s = 0x5B # join 0x2C ts @ [0x5D]"
      by (auto simp only: write_JArr)
    obtain c q where "s' = c # q" "c \<in> lead w" using write_lead [OF w] .
    with eq s have "0x5B \<in> lead w" by simp
    then obtain ys where wy: "w = JArr ys" using lead_leaf(6) by blast
    from w [unfolded wy write_JArr] obtain us where us: "list_all2 (item_ok (Suc d')) ys us"
      and s': "s' = 0x5B # join 0x2C us @ [0x5D]"
      by blast
    have "join 0x2C ts @ 0x5D # r = join 0x2C us @ 0x5D # r'" using eq s s' by simp
    from join_append_inj [OF ts us item_ok_start item_ok_start item_read [OF JArr] _ _ this]
    show "jnorm (JArr xs) = jnorm w \<and> r = r'" by (simp add: wy)
  qed
next
  case (JObj kvs)
  have IH: "uniquely_read (snd kv)" if "kv \<in> set (sort_key member_key kvs)" for kv
    using JObj [of kv "snd kv"] that by (cases kv) (auto intro: snds.intros)
  show ?case
    unfolding uniquely_read_def
  proof (intro allI impI)
    fix w d d' s s' r r'
    assume v: "canonical_write d (JObj kvs) = Inr s" and w: "canonical_write d' w = Inr s'"
      and dl: "delim r" "delim r'" and eq: "s @ r = s' @ r'"
    from v obtain ts where ts: "list_all2 (member_ok (Suc d)) (sort_key member_key kvs) ts"
      and s: "s = 0x7B # join 0x2C ts @ [0x7D]"
      by (auto simp only: write_JObj)
    obtain c q where "s' = c # q" "c \<in> lead w" using write_lead [OF w] .
    with eq s have "0x7B \<in> lead w" by simp
    then obtain ys where wy: "w = JObj ys" using lead_leaf(7) by blast
    from w [unfolded wy write_JObj] obtain us where us: "list_all2 (member_ok (Suc d')) (sort_key member_key ys) us"
      and s': "s' = 0x7B # join 0x2C us @ [0x7D]"
      by blast
    have "join 0x2C ts @ 0x7D # r = join 0x2C us @ 0x7D # r'" using eq s s' by simp
    from join_append_inj [OF ts us member_ok_start member_ok_start member_read [OF IH] _ _ this]
    show "jnorm (JObj kvs) = jnorm w \<and> r = r'" by (simp add: wy jnorm_JObj del: jnorm.simps)
  qed
qed (rule uniquely_readI, simp)+

theorem canonical_json_text_inj:
  "canonical_json_text v = Inr t \<Longrightarrow> canonical_json_text w = Inr t \<Longrightarrow> jnorm v = jnorm w"
  unfolding canonical_json_text_def
  by (drule (1) uniquely_readD [OF write_uniquely_read, where r = "[]" and r' = "[]"]) simp_all

lemma canonical_json_bytes_text:
  assumes "canonical_json_bytes v = Inr b"
  obtains t where "canonical_json_text v = Inr t" "utf8_encode t = Some b"
  using assms by (auto simp: canonical_json_bytes_def bindE_eq_Inr_iff split: option.splits)

lemma canonical_json_bytes_inj:
  assumes "canonical_json_bytes v = Inr b" and "canonical_json_bytes w = Inr b"
  shows "jnorm v = jnorm w"
proof -
  obtain t where t: "canonical_json_text v = Inr t" "utf8_encode t = Some b"
    using canonical_json_bytes_text [OF assms(1)] .
  obtain u where u: "canonical_json_text w = Inr u" "utf8_encode u = Some b"
    using canonical_json_bytes_text [OF assms(2)] .
  from t(2) u(2) have "t = u" by (rule utf8_encode_inj)
  with u(1) have "canonical_json_text w = Inr t" by simp
  with t(1) show ?thesis by (rule canonical_json_text_inj)
qed

section \<open>Member order does not matter\<close>

lemma entries_mapE:
  "mapE (\<lambda>kv. bindE (utf16_sort_key (fst kv)) (\<lambda>u. Inr (u, fst kv, f kv))) kvs =
    (if list_all (\<lambda>kv. utf16_encode (fst kv) \<noteq> None) kvs
     then Inr (map (\<lambda>kv. (member_key kv, fst kv, f kv)) kvs) else Inl CanonSurrogate)"
proof (induction kvs)
  case (Cons kv kvs)
  then show ?case
    by (cases "utf16_encode (fst kv)") (auto simp: utf16_sort_key_def member_key_def)
qed simp

lemma canonical_write_jnorm: "canonical_write d (jnorm v) = canonical_write d v"
proof (induction v arbitrary: d)
  case (JArr xs)
  then have "mapE (canonical_write (Suc d)) (map jnorm xs) = mapE (canonical_write (Suc d)) xs"
    unfolding mapE_map by (intro mapE_cong) auto
  then show ?case by simp
next
  case (JObj kvs)
  let ?s = "sort_key member_key kvs"
  let ?f = "\<lambda>kv. (fst kv, jnorm (snd kv))"
  have mk: "member_key (?f kv) = member_key kv" for kv :: "ustr \<times> ustr jval" by (simp add: member_key_def)
  have IH: "canonical_write (Suc d) (jnorm (snd kv)) = canonical_write (Suc d) (snd kv)" if "kv \<in> set kvs" for kv
    using JObj [of kv "snd kv" "Suc d"] that by (cases kv) (auto intro: snds.intros)
  let ?h = "\<lambda>kv. (member_key kv, fst kv, canonical_write (Suc d) (snd kv))"
  have "sort_key fst (map ?h (map ?f ?s)) = map ?h (map ?f (sort_key member_key ?s))"
    by (simp add: sort_key_map mk del: sort_key_simps)
  also have "sort_key member_key ?s = ?s" by (rule sort_key_ident) simp
  also have "map ?h (map ?f ?s) = map ?h ?s" using IH mk by simp
  also have "\<dots> = sort_key fst (map ?h kvs)" by (simp add: sort_key_map)
  finally have srt: "sort_key fst (map ?h (map ?f ?s)) = sort_key fst (map ?h kvs)" .
  have all: "list_all (\<lambda>kv. utf16_encode (fst kv) \<noteq> None) (map ?f ?s) =
      list_all (\<lambda>kv. utf16_encode (fst kv) \<noteq> None) kvs" by (auto simp: list_all_iff)
  show ?case
    unfolding jnorm_JObj canonical_write.simps entries_mapE all
    by (cases "list_all (\<lambda>kv. utf16_encode (fst kv) \<noteq> None) kvs") (simp_all only: srt bindE_Inr bindE_Inl if_True if_False)
qed simp_all

lemma canonical_json_bytes_jnorm: "canonical_json_bytes (jnorm v) = canonical_json_bytes v"
  by (simp add: canonical_json_bytes_def canonical_json_text_def canonical_write_jnorm)

section \<open>Which values have a canonical form\<close>

fun canon_ok :: "nat \<Rightarrow> ustr jval \<Rightarrow> bool" where
  "canon_ok d (JArr xs) \<longleftrightarrow> d \<le> MAX_CANONICAL_DEPTH \<and> (\<forall>x \<in> set xs. canon_ok (Suc d) x)"
| "canon_ok d (JObj kvs) \<longleftrightarrow> d \<le> MAX_CANONICAL_DEPTH \<and>
     (\<forall>kv \<in> set kvs. list_all scalar (fst kv) \<and> canon_ok (Suc d) (snd kv))"
| "canon_ok d (JStr s) \<longleftrightarrow> d \<le> MAX_CANONICAL_DEPTH \<and> list_all scalar s"
| "canon_ok d JFloat \<longleftrightarrow> False"
| "canon_ok d JMixed \<longleftrightarrow> False"
| "canon_ok d JOther \<longleftrightarrow> False"
| "canon_ok d v \<longleftrightarrow> d \<le> MAX_CANONICAL_DEPTH"

lemma ascii_scalar: "c < 0xD800 \<Longrightarrow> scalar c"
  by (simp add: scalar_def surrogate_def)

lemma dec_nat_scalar: "list_all scalar (dec_nat n)"
  using dec_nat_digits [of n] by (auto simp: list_all_iff intro!: ascii_scalar)

lemma dec_int_scalar: "list_all scalar (dec_int i)"
  using dec_nat_scalar by (simp add: dec_int_def ascii_scalar)

lemma esc_scalar: "list_all scalar (esc c) \<longleftrightarrow> scalar c"
proof (cases "c < 0x20")
  case True
  then have "c div 16 < 2" by auto
  with True show ?thesis
    by (simp add: esc_def hexdig_def ascii_scalar)
qed (simp add: esc_def ascii_scalar)

lemma canonical_string_scalar: "list_all scalar (canonical_string s) \<longleftrightarrow> list_all scalar s"
  by (induction s) (auto simp: canonical_string_def ascii_scalar esc_scalar)

lemma join_scalar: "scalar c \<Longrightarrow> list_all scalar (join c ts) \<longleftrightarrow> list_all (list_all scalar) ts"
  by (induction c ts rule: join.induct) auto

lemma utf16_scalar: "utf16_encode s \<noteq> None \<longleftrightarrow> list_all scalar s"
  using utf16_encode_Some_iff [of s] by auto

definition writes :: "nat \<Rightarrow> ustr jval \<Rightarrow> bool" where
  "writes d v \<longleftrightarrow> (\<exists>t. canonical_write d v = Inr t \<and> list_all scalar t)"

lemma ex_list_all2_iff:
  "(\<exists>ts. list_all2 P xs ts \<and> list_all Q ts) \<longleftrightarrow> (\<forall>x \<in> set xs. \<exists>t. P x t \<and> Q t)"
proof (induction xs)
  case (Cons x xs)
  show ?case
  proof
    assume "\<exists>ts. list_all2 P (x # xs) ts \<and> list_all Q ts"
    then obtain t ts where "P x t" "Q t" "list_all2 P xs ts" "list_all Q ts" by (auto simp: list_all2_Cons1)
    with Cons show "\<forall>y \<in> set (x # xs). \<exists>t. P y t \<and> Q t" by auto
  next
    assume a: "\<forall>y \<in> set (x # xs). \<exists>t. P y t \<and> Q t"
    with Cons obtain ts where ts: "list_all2 P xs ts" "list_all Q ts" by auto
    from a obtain t where "P x t" "Q t" by auto
    with ts have "list_all2 P (x # xs) (t # ts) \<and> list_all Q (t # ts)" by simp
    then show "\<exists>ts. list_all2 P (x # xs) ts \<and> list_all Q ts" ..
  qed
qed simp

lemma writes_JArr: "writes d (JArr xs) \<longleftrightarrow> d \<le> MAX_CANONICAL_DEPTH \<and> (\<forall>x \<in> set xs. writes (Suc d) x)"
proof -
  have sc: "scalar 0x5B" "scalar 0x5D" "scalar 0x2C" by (simp_all add: ascii_scalar)
  have "writes d (JArr xs) \<longleftrightarrow> d \<le> MAX_CANONICAL_DEPTH \<and>
      (\<exists>ts. list_all2 (item_ok (Suc d)) xs ts \<and> list_all (list_all scalar) ts)"
    unfolding writes_def write_JArr using sc by (auto simp: join_scalar)
  also have "\<dots> \<longleftrightarrow> d \<le> MAX_CANONICAL_DEPTH \<and> (\<forall>x \<in> set xs. writes (Suc d) x)"
    by (simp add: ex_list_all2_iff writes_def item_ok_def)
  finally show ?thesis .
qed

lemma writes_JObj: "writes d (JObj kvs) \<longleftrightarrow> d \<le> MAX_CANONICAL_DEPTH \<and>
    (\<forall>kv \<in> set kvs. list_all scalar (fst kv) \<and> writes (Suc d) (snd kv))"
proof -
  have sc: "scalar 0x7B" "scalar 0x7D" "scalar 0x2C" "scalar 0x3A" by (simp_all add: ascii_scalar)
  have "writes d (JObj kvs) \<longleftrightarrow> d \<le> MAX_CANONICAL_DEPTH \<and> list_all (\<lambda>kv. utf16_encode (fst kv) \<noteq> None) kvs \<and>
      (\<exists>ts. list_all2 (member_ok (Suc d)) (sort_key member_key kvs) ts \<and> list_all (list_all scalar) ts)"
    unfolding writes_def write_JObj using sc by (auto simp: join_scalar)
  also have "\<dots> \<longleftrightarrow> d \<le> MAX_CANONICAL_DEPTH \<and>
      (\<forall>kv \<in> set kvs. list_all scalar (fst kv) \<and> writes (Suc d) (snd kv))"
  proof -
    have "(\<exists>t. member_ok (Suc d) kv t \<and> list_all scalar t) \<longleftrightarrow>
        list_all scalar (fst kv) \<and> writes (Suc d) (snd kv)" for kv
      using sc by (auto simp: writes_def member_ok_def canonical_string_scalar)
    then show ?thesis
      by (auto simp: ex_list_all2_iff utf16_scalar list_all_iff [of _ kvs] simp del: not_None_eq)
  qed
  finally show ?thesis .
qed

lemma writes_iff: "writes d v \<longleftrightarrow> canon_ok d v"
proof (induction v arbitrary: d)
  case (JArr xs)
  then show ?case by (auto simp: writes_JArr)
next
  case (JObj kvs)
  have "writes (Suc d) (snd kv) \<longleftrightarrow> canon_ok (Suc d) (snd kv)" if "kv \<in> set kvs" for kv
    using JObj [of kv "snd kv"] that by (cases kv) (auto intro: snds.intros)
  then show ?case by (auto simp: writes_JObj)
qed (auto simp: writes_def lit_def ascii_scalar dec_int_scalar canonical_string_scalar)

lemma canonical_json_bytes_ok: "isOk (canonical_json_bytes v) \<longleftrightarrow> canon_ok 0 v"
proof -
  have "isOk (canonical_json_bytes v) \<longleftrightarrow> (\<exists>t. canonical_write 0 v = Inr t \<and> (\<exists>b. utf8_encode t = Some b))"
    by (cases "canonical_write 0 v")
      (auto simp: canonical_json_bytes_def canonical_json_text_def isOk_def split: option.splits)
  then show ?thesis by (simp add: utf8_encode_Some_iff writes_def flip: writes_iff)
qed

section \<open>Properties\<close>

text \<open>
  Canonicalisation succeeds exactly on the values of the canonical domain: no
  float, no object with a non-string key and no foreign object anywhere, every
  string and key free of lone surrogates, and nesting of at most 64 levels.
\<close>

theorem canonical_form_exists:
  "isOk (canonical_json_bytes v) \<longleftrightarrow> canon_ok 0 v"
  by (rule canonical_json_bytes_ok)

text \<open>
  C32: The canonical bytes are a faithful fingerprint input: two values have the same
  canonical JSON bytes exactly when they are the same value up to the order in which
  the members of objects were inserted.
\<close>

theorem canonical_bytes_determine_value:
  assumes "canonical_json_bytes v = Inr b"
  shows "canonical_json_bytes w = Inr b \<longleftrightarrow> jnorm w = jnorm v"
proof
  assume "jnorm w = jnorm v"
  then have "canonical_json_bytes (jnorm w) = Inr b" using assms by (simp only: canonical_json_bytes_jnorm)
  then show "canonical_json_bytes w = Inr b" by (simp only: canonical_json_bytes_jnorm)
qed (rule canonical_json_bytes_inj [OF _ assms])

theorem canonical_bytes_determine_value_witness:
  "canonical_json_bytes (JObj [(lit ''a'', JInt 1), (lit ''b'', JNull)])
     = canonical_json_bytes (JObj [(lit ''b'', JNull), (lit ''a'', JInt 1)])"
proof -
  let ?t = "lit (CHR 0x7B # CHR 0x22 # CHR ''a'' # CHR 0x22 # '':1,'' @ CHR 0x22 # CHR ''b'' # CHR 0x22 # '':null'' @ [CHR 0x7D])"
  have "canonical_json_text (JObj [(lit ''b'', JNull), (lit ''a'', JInt 1)]) = Inr ?t"
    by (simp add: canonical_json_text_def MAX_CANONICAL_DEPTH_def utf16_sort_key_def
        utf16_char_def scalar_def surrogate_def be16_def lit_def dec_int_def dec_nat.simps
        canonical_string_def esc_def)
  moreover have "utf8_encode ?t = Some (map byte ?t)"
    by (simp add: lit_def utf8_char_def scalar_def surrogate_def)
  ultimately have "canonical_json_bytes (JObj [(lit ''b'', JNull), (lit ''a'', JInt 1)]) = Inr (map byte ?t)"
    by (simp only: canonical_json_bytes_def bindE_Inr option.case)
  moreover have "jnorm (JObj [(lit ''a'', JInt 1), (lit ''b'', JNull)]) = jnorm (JObj [(lit ''b'', JNull), (lit ''a'', JInt 1)])"
    by (simp add: member_key_def utf16_char_def scalar_def surrogate_def be16_def lit_def)
  ultimately show ?thesis
    using canonical_bytes_determine_value [of "JObj [(lit ''b'', JNull), (lit ''a'', JInt 1)]" "map byte ?t"
        "JObj [(lit ''a'', JInt 1), (lit ''b'', JNull)]"] by (simp only:)
qed

end
