(* ===== verification/Cbor.thy ===== *)
theory Cbor
  imports Canonical_Json
begin

unbundle bit_operations_syntax

text \<open>
  \<open>protocol/codec_cbor.py\<close>: the compact deterministic codec.  The encoder and the
  decoder are modelled with all their error branches; the two round trips
  (decode after encode, and encode after decode: the decoder accepts exactly the
  encoder's output) and the bounds the code enforces are proved.  The decoder's
  \<open>(data, offset)\<close> is the list of the bytes from the offset on.
\<close>

datatype codec_error =
    DepthExceeded | OutOf64BitRange | FloatRejected | NotUtf8 | KeyNotText | UnsupportedType
  | Truncated | NonMinimal | IndefiniteLength | ReservedInfo | ByteString | DuplicateKey
  | UnsortedKeys | Tag | SimpleValue | InputTooLarge | EmptyInput | TrailingBytes

section \<open>The encoder\<close>

definition MAX_CBOR_DEPTH :: nat where
  "MAX_CBOR_DEPTH = 64"

definition DEFAULT_MAX_INPUT_BYTES :: nat where
  "DEFAULT_MAX_INPUT_BYTES = 2 ^ 20"

fun to_bytes :: "nat \<Rightarrow> nat \<Rightarrow> bytes" where
  \<comment> \<open>\<open>argument.to_bytes(n, "big")\<close>\<close>
  "to_bytes 0 a = []"
| "to_bytes (Suc n) a = to_bytes n (a div 256) @ [byte (a mod 256)]"

definition initial_byte :: "nat \<Rightarrow> nat \<Rightarrow> byte" where
  \<comment> \<open>\<open>(major << 5) | info\<close>\<close>
  "initial_byte major info = push_bit 5 (byte major) OR byte info"

definition cbor_head :: "nat \<Rightarrow> nat \<Rightarrow> codec_error + bytes" where
  "cbor_head major a =
     (if a < 24 then Inr [initial_byte major a]
      else if a \<le> 0xFF then Inr [initial_byte major 24, byte a]
      else if a \<le> 0xFFFF then Inr (initial_byte major 25 # to_bytes 2 a)
      else if a \<le> 0xFFFFFFFF then Inr (initial_byte major 26 # to_bytes 4 a)
      else if a \<le> 2 ^ 64 - 1 then Inr (initial_byte major 27 # to_bytes 8 a)
      else Inl OutOf64BitRange)"

definition encode_text :: "ustr \<Rightarrow> codec_error + bytes" where
  "encode_text s =
     (case utf8_encode s of
        None \<Rightarrow> Inl NotUtf8
      | Some e \<Rightarrow> bindE (cbor_head 3 (length e)) (\<lambda>h. Inr (h @ e)))"

definition pair_key :: "bytes \<times> bytes \<Rightarrow> nat \<times> nat list" where
  \<comment> \<open>\<open>(len(pair[0]), pair[0])\<close>\<close>
  "pair_key p = (length (fst p), map unat (fst p))"

function encode_item :: "nat \<Rightarrow> ustr jval \<Rightarrow> codec_error + bytes" where
  "encode_item d JNull = bindE (guardE (MAX_CBOR_DEPTH < d) DepthExceeded) (\<lambda>_. Inr [0xF6])"
| "encode_item d (JBool b) = bindE (guardE (MAX_CBOR_DEPTH < d) DepthExceeded)
     (\<lambda>_. Inr [if b then 0xF5 else 0xF4])"
| "encode_item d (JInt i) = bindE (guardE (MAX_CBOR_DEPTH < d) DepthExceeded)
     (\<lambda>_. if 0 \<le> i then cbor_head 0 (nat i) else cbor_head 1 (nat (- 1 - i)))"
| "encode_item d JFloat = bindE (guardE (MAX_CBOR_DEPTH < d) DepthExceeded) (\<lambda>_. Inl FloatRejected)"
| "encode_item d (JStr s) = bindE (guardE (MAX_CBOR_DEPTH < d) DepthExceeded) (\<lambda>_. encode_text s)"
| "encode_item d (JArr xs) = bindE (guardE (MAX_CBOR_DEPTH < d) DepthExceeded)
     (\<lambda>_. bindE (mapE (encode_item (Suc d)) xs)
     (\<lambda>bs. bindE (cbor_head 4 (length xs)) (\<lambda>h. Inr (h @ concat bs))))"
| "encode_item d JMixed = bindE (guardE (MAX_CBOR_DEPTH < d) DepthExceeded) (\<lambda>_. Inl KeyNotText)"
| "encode_item d (JObj kvs) = bindE (guardE (MAX_CBOR_DEPTH < d) DepthExceeded)
     (\<lambda>_. bindE (mapE (\<lambda>kv. bindE (encode_item (Suc d) (JStr (fst kv)))
                       (\<lambda>k. bindE (encode_item (Suc d) (snd kv)) (\<lambda>v. Inr (k, v)))) kvs)
     (\<lambda>es. bindE (cbor_head 5 (length es))
     (\<lambda>h. Inr (h @ concat (map (\<lambda>p. fst p @ snd p) (sort_key pair_key es))))))"
| "encode_item d JOther = bindE (guardE (MAX_CBOR_DEPTH < d) DepthExceeded) (\<lambda>_. Inl UnsupportedType)"
  by pat_completeness auto
termination
proof (relation "measure (\<lambda>(d, v). size v)", goal_cases)
  case (3 d kvs u kv)
  then show ?case by (induction kvs) auto
next
  case (4 d kvs u kv k)
  then show ?case using size_JObj_mem by fastforce
qed (use size_JArr_mem in auto)

definition cbor_bytes :: "ustr jval \<Rightarrow> codec_error + bytes" where
  "cbor_bytes v = encode_item 0 v"

section \<open>The decoder\<close>

fun from_bytes :: "bytes \<Rightarrow> nat" where
  \<comment> \<open>\<open>int.from_bytes(b, "big")\<close>\<close>
  "from_bytes bs = foldl (\<lambda>a b. a * 256 + unat b) 0 bs"

definition argument_length :: "nat \<Rightarrow> nat" where
  "argument_length info = (if info = 24 then 1 else if info = 25 then 2 else if info = 26 then 4 else 8)"

definition minimal_argument_bound :: "nat \<Rightarrow> nat" where
  "minimal_argument_bound n =
     (if n = 1 then 24 else if n = 2 then 2 ^ 8 else if n = 4 then 2 ^ 16 else 2 ^ 32)"

definition decode_head :: "bytes \<Rightarrow> codec_error + (nat \<times> nat \<times> nat \<times> bytes)" where
  \<comment> \<open>major type, additional info, argument, remaining bytes\<close>
  "decode_head bs =
     (case bs of
        [] \<Rightarrow> Inl Truncated
      | b # r \<Rightarrow>
          let major = unat (drop_bit 5 b); info = unat (b AND 0x1F) in
          if info < 24 then Inr (major, info, info, r)
          else if info \<in> {24, 25, 26, 27} then
            (let n = argument_length info; a = from_bytes (take n r) in
             if length r < n then Inl Truncated
             else if a < minimal_argument_bound n then Inl NonMinimal
             else Inr (major, info, a, drop n r))
          else if info = 31 then Inl IndefiniteLength
          else Inl ReservedInfo)"

definition sort_key_of :: "bytes \<Rightarrow> nat \<times> nat list" where
  \<comment> \<open>\<open>(len(encoded), encoded)\<close>\<close>
  "sort_key_of e = (length e, map unat e)"

text \<open>
  \<open>_decode_item\<close> and its two loops: \<open>decode_items d n\<close> is the loop of an array with \<open>n\<close>
  rounds left, \<open>decode_pairs d n prev seen\<close> that of a map, with the sort key of the
  previous key and the mapping read so far.
\<close>

function (sequential) decode_item :: "nat \<Rightarrow> bytes \<Rightarrow> codec_error + (ustr jval \<times> bytes)"
  and decode_items :: "nat \<Rightarrow> nat \<Rightarrow> bytes \<Rightarrow> codec_error + (ustr jval list \<times> bytes)"
  and decode_pairs :: "nat \<Rightarrow> nat \<Rightarrow> (nat \<times> nat list) option \<Rightarrow> (ustr, ustr jval) dict \<Rightarrow>
        bytes \<Rightarrow> codec_error + ((ustr, ustr jval) dict \<times> bytes)" where
  "decode_item d bs =
     (if MAX_CBOR_DEPTH < d then Inl DepthExceeded
      else bindE (decode_head bs) (\<lambda>(major, info, a, r).
        if major = 0 then Inr (JInt (int a), r)
        else if major = 1 then Inr (JInt (- 1 - int a), r)
        else if major = 2 then Inl ByteString
        else if major = 3 then
          (if length r < a then Inl Truncated
           else case utf8_decode (take a r) of
                  None \<Rightarrow> Inl NotUtf8
                | Some s \<Rightarrow> Inr (JStr s, drop a r))
        else if major = 4 then bindE (decode_items (Suc d) a r) (\<lambda>(xs, r'). Inr (JArr xs, r'))
        else if major = 5 then bindE (decode_pairs (Suc d) a None [] r) (\<lambda>(m, r'). Inr (JObj m, r'))
        else if major = 6 then Inl Tag
        else if info = 20 then Inr (JBool False, r)
        else if info = 21 then Inr (JBool True, r)
        else if info = 22 then Inr (JNull, r)
        else Inl SimpleValue))"
| "decode_items d 0 bs = Inr ([], bs)"
| "decode_items d (Suc n) bs =
     bindE (decode_item d bs) (\<lambda>(x, r).
     bindE (decode_items d n r) (\<lambda>(xs, r'). Inr (x # xs, r')))"
| "decode_pairs d 0 prev m bs = Inr (m, bs)"
| "decode_pairs d (Suc n) prev m bs =
     bindE (decode_item d bs) (\<lambda>(k, r).
       case k of
         JStr s \<Rightarrow>
           if dget m s \<noteq> None then Inl DuplicateKey
           else (case utf8_encode s of
                   None \<Rightarrow> Inl NotUtf8
                 | Some e \<Rightarrow>
                     if (case prev of None \<Rightarrow> False | Some p \<Rightarrow> sort_key_of e \<le> p) then Inl UnsortedKeys
                     else bindE (decode_item d r) (\<lambda>(v, r').
                            decode_pairs d n (Some (sort_key_of e)) (dset m s v) r'))
       | _ \<Rightarrow> Inl KeyNotText)"
  by pat_completeness auto
termination
  by (relation "measures [\<lambda>x. case x of Inl (d, bs) \<Rightarrow> 65 - d
                              | Inr (Inl (d, n, bs)) \<Rightarrow> 65 - d
                              | Inr (Inr (d, n, prev, m, bs)) \<Rightarrow> 65 - d,
                          \<lambda>x. case x of Inl (d, bs) \<Rightarrow> 0
                              | Inr (Inl (d, n, bs)) \<Rightarrow> Suc n
                              | Inr (Inr (d, n, prev, m, bs)) \<Rightarrow> Suc n]")
    (auto simp: MAX_CBOR_DEPTH_def)

definition cbor_value :: "bytes \<Rightarrow> nat \<Rightarrow> codec_error + ustr jval" where
  "cbor_value data max_input_bytes =
     (if max_input_bytes < length data then Inl InputTooLarge
      else if data = [] then Inl EmptyInput
      else bindE (decode_item 0 data) (\<lambda>(v, r). if r \<noteq> [] then Inl TrailingBytes else Inr v))"

declare decode_item.simps [simp del]

section \<open>Heads\<close>

lemma initial_byte_unat:
  "initial_byte (unat (drop_bit 5 b)) (unat (b AND 0x1F)) = b"
proof -
  have "push_bit 5 (drop_bit 5 b) OR (b AND mask 5) = b"
    by (rule bit_word_eqI) (auto simp: bit_simps)
  then show ?thesis by (simp add: initial_byte_def mask_eq_exp_minus_1)
qed

lemma initial_byte_parts:
  assumes "major < 8" and "info < 32"
  shows "unat (drop_bit 5 (initial_byte major info)) = major"
    and "unat (initial_byte major info AND 0x1F) = info"
proof -
  have "\<forall>major \<in> set [0..<8]. \<forall>info \<in> set [0..<32].
      unat (drop_bit 5 (initial_byte major info)) = major \<and>
      unat (initial_byte major info AND 0x1F) = info"
    by (simp add: upt_rec initial_byte_def byte_def)
  with assms show "unat (drop_bit 5 (initial_byte major info)) = major"
    and "unat (initial_byte major info AND 0x1F) = info" by auto
qed

lemma length_to_bytes [simp]: "length (to_bytes n a) = n"
  by (induction n arbitrary: a) auto

lemma from_bytes_snoc: "from_bytes (bs @ [b]) = from_bytes bs * 256 + unat b"
  by simp

lemma from_bytes_Nil [simp]: "from_bytes [] = 0"
  by simp

declare from_bytes.simps [simp del]

lemma from_to_bytes: "a < 256 ^ n \<Longrightarrow> from_bytes (to_bytes n a) = a"
proof (induction n arbitrary: a)
  case (Suc n)
  then have "a div 256 < 256 ^ n" by (simp add: less_mult_imp_div_less mult.commute)
  with Suc.IH show ?case by (simp add: from_bytes_snoc)
qed simp

lemma to_from_bytes: "to_bytes (length bs) (from_bytes bs) = bs"
  by (induction bs rule: rev_induct) (simp_all add: from_bytes_snoc)

lemma from_bytes_less: "from_bytes bs < 256 ^ length bs"
proof (induction bs rule: rev_induct)
  case (snoc b bs)
  have "from_bytes bs * 256 + unat b < (from_bytes bs + 1) * 256" by simp
  also have "\<dots> \<le> 256 ^ length bs * 256" using snoc by (intro mult_right_mono) auto
  finally show ?case by (simp add: from_bytes_snoc mult.commute)
qed simp

definition info_of :: "nat \<Rightarrow> nat" where
  "info_of a = (if a < 24 then a else if a \<le> 0xFF then 24 else if a \<le> 0xFFFF then 25
                else if a \<le> 0xFFFFFFFF then 26 else 27)"

lemma decode_head_head:
  assumes "cbor_head major a = Inr h" and "major < 8"
  shows "decode_head (h @ r) = Inr (major, info_of a, a, r)"
proof -
  consider "a < 24" | "24 \<le> a" "a \<le> 0xFF" | "0xFF < a" "a \<le> 0xFFFF"
    | "0xFFFF < a" "a \<le> 0xFFFFFFFF" | "0xFFFFFFFF < a" "a \<le> 2 ^ 64 - 1"
    using assms(1) by (auto simp: cbor_head_def split: if_splits)
  then show ?thesis
  proof cases
    case 1
    with assms show ?thesis
      by (auto simp: cbor_head_def decode_head_def initial_byte_parts info_of_def Let_def)
  next
    case 2
    with assms show ?thesis
      by (auto simp: cbor_head_def decode_head_def initial_byte_parts info_of_def Let_def
          argument_length_def minimal_argument_bound_def from_bytes.simps)
  next
    case 3
    then have "from_bytes (to_bytes 2 a) = a" by (intro from_to_bytes) simp
    with 3 assms show ?thesis
      by (auto simp: cbor_head_def decode_head_def initial_byte_parts info_of_def Let_def
          argument_length_def minimal_argument_bound_def)
  next
    case 4
    then have "from_bytes (to_bytes 4 a) = a" by (intro from_to_bytes) simp
    with 4 assms show ?thesis
      by (auto simp: cbor_head_def decode_head_def initial_byte_parts info_of_def Let_def
          argument_length_def minimal_argument_bound_def)
  next
    case 5
    then have "from_bytes (to_bytes 8 a) = a" by (intro from_to_bytes) simp
    with 5 assms show ?thesis
      by (auto simp: cbor_head_def decode_head_def initial_byte_parts info_of_def Let_def
          argument_length_def minimal_argument_bound_def)
  qed
qed

lemma decode_head_inv:
  assumes "decode_head bs = Inr (major, info, a, r)"
  shows "major < 8 \<and> info = info_of a \<and> (\<exists>h. cbor_head major a = Inr h \<and> bs = h @ r)"
proof -
  from assms obtain b q where bs: "bs = b # q" by (auto simp: decode_head_def split: list.splits)
  have mj: "major = unat (drop_bit 5 b)" and inf: "info = unat (b AND 0x1F)"
    using assms bs by (auto simp: decode_head_def Let_def split: if_splits)
  have b: "initial_byte major info = b" using initial_byte_unat [of b] mj inf by simp
  have "unat (drop_bit 5 b) = unat b div 2 ^ 5" by (simp add: unat_drop_bit_eq drop_bit_eq_div unat_div)
  also have "\<dots> < 8" by (rule less_mult_imp_div_less) simp
  finally have m8: "major < 8" using mj by simp
  have long: ?thesis
    if n: "info = i" "argument_length i = n" "i \<in> {24,25,26,27}"
      and hd: "\<And>x. minimal_argument_bound n \<le> x \<Longrightarrow> x < 256 ^ n \<Longrightarrow>
        cbor_head major x = Inr (initial_byte major i # to_bytes n x) \<and> info_of x = i" for i n
  proof -
    from assms bs n mj inf have a: "a = from_bytes (take n q)" "n \<le> length q"
      "minimal_argument_bound n \<le> a" "r = drop n q"
      by (auto simp: decode_head_def Let_def split: if_splits)
    have len: "length (take n q) = n" using a(2) by simp
    have "a < 256 ^ n" using from_bytes_less [of "take n q"] len a(1) by simp
    from hd [OF a(3) this] have "cbor_head major a = Inr (initial_byte major i # to_bytes n a)"
      "info_of a = i" by auto
    moreover have "to_bytes n a = take n q" using to_from_bytes [of "take n q"] len a(1) by simp
    ultimately show ?thesis using m8 n b a bs by auto
  qed
  have "info < 24 \<or> info = 24 \<or> info = 25 \<or> info = 26 \<or> info = 27"
    using assms bs mj inf by (auto simp: decode_head_def Let_def split: if_splits)
  then show ?thesis
  proof (elim disjE)
    assume "info < 24"
    with assms bs mj inf m8 b show ?thesis
      by (auto simp: decode_head_def Let_def cbor_head_def info_of_def)
  next
    assume i: "info = 24"
    show ?thesis
      by (rule long [OF i, where n = 1])
        (auto simp: argument_length_def minimal_argument_bound_def cbor_head_def info_of_def)
  next
    assume i: "info = 25"
    show ?thesis
      by (rule long [OF i, where n = 2])
        (auto simp: argument_length_def minimal_argument_bound_def cbor_head_def info_of_def)
  next
    assume i: "info = 26"
    show ?thesis
      by (rule long [OF i, where n = 4])
        (auto simp: argument_length_def minimal_argument_bound_def cbor_head_def info_of_def)
  next
    assume i: "info = 27"
    show ?thesis
      by (rule long [OF i, where n = 8])
        (auto simp: argument_length_def minimal_argument_bound_def cbor_head_def info_of_def)
  qed
qed

section \<open>Decoding accepts exactly the encoder's output\<close>

lemma cbor_head_mono:
  "cbor_head major a = Inr h \<Longrightarrow> cbor_head major b = Inr h' \<Longrightarrow> a < b \<Longrightarrow> length h \<le> length h'"
  by (auto simp: cbor_head_def split: if_splits)

lemma encode_text_Inr:
  "encode_text s = Inr u \<longleftrightarrow>
     (\<exists>e h. utf8_encode s = Some e \<and> cbor_head 3 (length e) = Inr h \<and> u = h @ e)"
  by (auto simp: encode_text_def bindE_eq_Inr_iff split: option.splits)

definition text_key :: "ustr \<Rightarrow> nat \<times> nat list" where
  "text_key s = (case utf8_encode s of None \<Rightarrow> (0, []) | Some e \<Rightarrow> sort_key_of e)"

text \<open>
  The encoder sorts by the encoded key with its head, the decoder checks the order
  of the keys without it; the two orders agree.
\<close>

lemma sort_key_of_eq: "sort_key_of e \<le> sort_key_of e' \<longleftrightarrow>
   length e < length e' \<or> (length e = length e' \<and> map unat e \<le> map unat e')"
  by (auto simp: sort_key_of_def less_eq_prod_def)

lemma pair_key_eq: "pair_key p = sort_key_of (fst p)"
  by (simp add: pair_key_def sort_key_of_def)

lemma prefix_le: "(h @ xs) \<le> (h @ (ys :: nat list)) \<longleftrightarrow> xs \<le> ys"
  by (induction h) auto

lemma pair_key_le:
  assumes "encode_text s = Inr u" and "encode_text t = Inr v"
  shows "pair_key (u, x) \<le> pair_key (v, y) \<longleftrightarrow> text_key s \<le> text_key t"
proof -
  from assms obtain e h e' h' where e: "utf8_encode s = Some e" "cbor_head 3 (length e) = Inr h" "u = h @ e"
    and e': "utf8_encode t = Some e'" "cbor_head 3 (length e') = Inr h'" "v = h' @ e'"
    unfolding encode_text_Inr by blast
  consider "length e < length e'" | "length e = length e'" | "length e' < length e" by linarith
  then show ?thesis
  proof cases
    case 1
    with cbor_head_mono [OF e(2) e'(2)] show ?thesis
      using e e' by (simp add: pair_key_eq text_key_def sort_key_of_eq)
  next
    case 2
    with e e' have "h = h'" by simp
    with 2 show ?thesis
      using e e' by (simp add: pair_key_eq text_key_def sort_key_of_eq prefix_le)
  next
    case 3
    with cbor_head_mono [OF e'(2) e(2)] show ?thesis
      using e e' by (simp add: pair_key_eq text_key_def sort_key_of_eq)
  qed
qed

definition enc_pair :: "nat \<Rightarrow> ustr \<times> ustr jval \<Rightarrow> bytes \<times> bytes \<Rightarrow> bool" where
  "enc_pair d kv p \<longleftrightarrow> encode_text (fst kv) = Inr (fst p) \<and> encode_item d (snd kv) = Inr (snd p)"

lemma encode_JArr:
  "encode_item d (JArr xs) = Inr u \<longleftrightarrow>
     d \<le> MAX_CBOR_DEPTH \<and>
     (\<exists>us h. list_all2 (\<lambda>x u. encode_item (Suc d) x = Inr u) xs us \<and>
            cbor_head 4 (length xs) = Inr h \<and> u = h @ concat us)"
  by (auto simp: bindE_eq_Inr_iff mapE_eq_Inr_iff)

lemma encode_JObj:
  assumes "Suc d \<le> MAX_CBOR_DEPTH \<or> kvs = []"
  shows "encode_item d (JObj kvs) = Inr u \<longleftrightarrow>
     d \<le> MAX_CBOR_DEPTH \<and>
     (\<exists>es h. list_all2 (enc_pair (Suc d)) kvs es \<and> cbor_head 5 (length kvs) = Inr h \<and>
            u = h @ concat (map (\<lambda>p. fst p @ snd p) (sort_key pair_key es)))"
proof -
  let ?f = "\<lambda>kv. bindE (encode_item (Suc d) (JStr (fst kv)))
                (\<lambda>k. bindE (encode_item (Suc d) (snd kv)) (\<lambda>v. Inr (k, v)))"
  have "?f kv = Inr p \<longleftrightarrow> enc_pair (Suc d) kv p" if "kv \<in> set kvs" for kv p
    using assms that by (cases p) (auto simp: bindE_eq_Inr_iff enc_pair_def)
  then have f: "mapE ?f kvs = Inr es \<longleftrightarrow> list_all2 (enc_pair (Suc d)) kvs es" for es
    unfolding mapE_eq_Inr_iff by (intro list.rel_cong refl) auto
  have "encode_item d (JObj kvs) = Inr u \<longleftrightarrow> d \<le> MAX_CBOR_DEPTH \<and>
    (\<exists>es. mapE ?f kvs = Inr es \<and> (\<exists>h. cbor_head 5 (length es) = Inr h \<and>
       h @ concat (map (\<lambda>p. fst p @ snd p) (sort_key pair_key es)) = u))"
    by (simp only: encode_item.simps(8) bindE_guardE if_Inl_eq_Inr bindE_eq_Inr_iff not_less
        sum.inject)
  also have "\<dots> \<longleftrightarrow> d \<le> MAX_CBOR_DEPTH \<and>
    (\<exists>es h. list_all2 (enc_pair (Suc d)) kvs es \<and> cbor_head 5 (length kvs) = Inr h \<and>
       u = h @ concat (map (\<lambda>p. fst p @ snd p) (sort_key pair_key es)))"
    unfolding f using list_all2_lengthD [of "enc_pair (Suc d)" kvs] by fastforce
  finally show ?thesis .
qed

lemma enc_pair_sorted:
  assumes "list_all2 (enc_pair d) kvs es" and "sorted (map (\<lambda>kv. text_key (fst kv)) kvs)"
  shows "sort_key pair_key es = es"
proof (rule sort_key_ident, unfold sorted_iff_nth_mono length_map, intro allI impI)
  fix i j assume ij: "i \<le> j" "j < length es"
  with assms(1) have len: "length kvs = length es" by (simp add: list_all2_lengthD)
  have i: "enc_pair d (kvs ! i) (es ! i)" and j: "enc_pair d (kvs ! j) (es ! j)"
    using assms(1) ij by (auto simp: list_all2_conv_all_nth)
  from assms(2) ij len have "text_key (fst (kvs ! i)) \<le> text_key (fst (kvs ! j))"
    by (auto simp: sorted_iff_nth_mono)
  then show "map pair_key es ! i \<le> map pair_key es ! j"
    using i j ij pair_key_le [of "fst (kvs ! i)" "fst (es ! i)" "fst (kvs ! j)" "fst (es ! j)"
      "snd (es ! i)" "snd (es ! j)"]
    by (simp add: enc_pair_def)
qed

definition after :: "(nat \<times> nat list) option \<Rightarrow> nat \<times> nat list \<Rightarrow> bool" where
  "after prev k \<longleftrightarrow> (case prev of None \<Rightarrow> True | Some p \<Rightarrow> p < k)"

lemma after_simps [simp]: "after None k" "after (Some p) k \<longleftrightarrow> p < k"
  by (simp_all add: after_def)

lemma decode_item_cases:
  assumes "decode_item d bs = Inr (v, r)"
  obtains major info a q where "d \<le> MAX_CBOR_DEPTH" "decode_head bs = Inr (major, info, a, q)"
    "major \<noteq> 2" "major \<noteq> 6"
  using assms by (subst (asm) decode_item.simps)
    (auto simp: bindE_eq_Inr_iff split: if_splits)

definition reads_back :: "nat \<Rightarrow> ustr jval \<Rightarrow> bytes \<Rightarrow> bytes \<Rightarrow> bool" where
  \<comment> \<open>\<open>bs\<close> is the encoding of \<open>v\<close> followed by \<open>r\<close>\<close>
  "reads_back d v bs r \<longleftrightarrow> (\<exists>u. encode_item d v = Inr u \<and> bs = u @ r)"

lemma reads_back_scalar:
  assumes "decode_head bs = Inr (major, info, a, q)" and "d \<le> MAX_CBOR_DEPTH"
  shows "major = 0 \<Longrightarrow> reads_back d (JInt (int a)) bs q"
    and "major = 1 \<Longrightarrow> reads_back d (JInt (- 1 - int a)) bs q"
    and "major = 7 \<Longrightarrow> info = 20 \<Longrightarrow> reads_back d (JBool False) bs q"
    and "major = 7 \<Longrightarrow> info = 21 \<Longrightarrow> reads_back d (JBool True) bs q"
    and "major = 7 \<Longrightarrow> info = 22 \<Longrightarrow> reads_back d JNull bs q"
proof -
  from decode_head_inv [OF assms(1)] obtain h where h: "cbor_head major a = Inr h" "bs = h @ q"
    and inf: "info = info_of a" by blast
  show "major = 0 \<Longrightarrow> reads_back d (JInt (int a)) bs q"
    and "major = 1 \<Longrightarrow> reads_back d (JInt (- 1 - int a)) bs q"
    using h assms(2) by (simp_all add: reads_back_def)
  have "h = [initial_byte major info]" if "info < 24"
    using that h(1) inf by (auto simp: info_of_def cbor_head_def split: if_splits)
  moreover have "initial_byte 7 20 = 0xF4" "initial_byte 7 21 = 0xF5" "initial_byte 7 22 = 0xF6"
    by (simp_all add: initial_byte_def byte_def)
  ultimately show "major = 7 \<Longrightarrow> info = 20 \<Longrightarrow> reads_back d (JBool False) bs q"
    and "major = 7 \<Longrightarrow> info = 21 \<Longrightarrow> reads_back d (JBool True) bs q"
    and "major = 7 \<Longrightarrow> info = 22 \<Longrightarrow> reads_back d JNull bs q"
    using h(2) assms(2) by (simp_all add: reads_back_def)
qed

lemma decode_item_Inr:
  "decode_item d bs = Inr (v, r) \<longleftrightarrow> d \<le> MAX_CBOR_DEPTH \<and>
     (\<exists>major info a q. decode_head bs = Inr (major, info, a, q) \<and>
       (major = 0 \<and> v = JInt (int a) \<and> r = q
      \<or> major = 1 \<and> v = JInt (- 1 - int a) \<and> r = q
      \<or> major = 3 \<and> a \<le> length q \<and> r = drop a q \<and> (\<exists>s. utf8_decode (take a q) = Some s \<and> v = JStr s)
      \<or> major = 4 \<and> (\<exists>xs. decode_items (Suc d) a q = Inr (xs, r) \<and> v = JArr xs)
      \<or> major = 5 \<and> (\<exists>m. decode_pairs (Suc d) a None [] q = Inr (m, r) \<and> v = JObj m)
      \<or> major = 7 \<and> r = q \<and> (info = 20 \<and> v = JBool False \<or> info = 21 \<and> v = JBool True
                            \<or> info = 22 \<and> v = JNull)))"
  (is "?L \<longleftrightarrow> ?D \<and> (\<exists>major info a q. ?H major info a q \<and> ?B major info a q)")
proof (cases "decode_head bs")
  case (Inl e)
  then show ?thesis by (subst decode_item.simps) auto
next
  case (Inr t)
  obtain major info a q where t: "t = (major, info, a, q)" by (cases t)
  have m8: "major < 8" using decode_head_inv Inr t by blast
  have "?L \<longleftrightarrow> ?D \<and> ?B major info a q"
    using m8 by (subst decode_item.simps)
      (auto simp: Inr t bindE_eq_Inr_iff split: option.splits)
  then show ?thesis by (auto simp: Inr t)
qed

lemma decode_items_inv:
  assumes item: "\<And>bs v r. decode_item d bs = Inr (v, r) \<Longrightarrow> reads_back d v bs r"
  shows "decode_items d n bs = Inr (xs, r) \<Longrightarrow>
    length xs = n \<and>
    (\<exists>us. list_all2 (\<lambda>x u. encode_item d x = Inr u) xs us \<and> bs = concat us @ r)"
proof (induction n arbitrary: bs xs)
  case 0
  then show ?case by simp
next
  case (Suc n)
  then obtain x q ys where x: "decode_item d bs = Inr (x, q)"
    and ys: "decode_items d n q = Inr (ys, r)" and xs: "xs = x # ys"
    by (auto simp: bindE_eq_Inr_iff)
  from Suc.IH [OF ys] obtain us where us: "length ys = n"
    "list_all2 (\<lambda>x u. encode_item d x = Inr u) ys us" "q = concat us @ r" by blast
  from item [OF x] obtain u where "encode_item d x = Inr u" "bs = u @ q"
    by (auto simp: reads_back_def)
  then have "list_all2 (\<lambda>x u. encode_item d x = Inr u) xs (u # us)" "bs = concat (u # us) @ r"
    using us xs by auto
  with us xs show ?case by auto
qed

lemma decode_pairs_inv:
  assumes item: "\<And>bs v r. decode_item d bs = Inr (v, r) \<Longrightarrow> reads_back d v bs r"
  shows "decode_pairs d n prev m bs = Inr (m', r) \<Longrightarrow>
    \<exists>kvs es. m' = m @ kvs \<and> length kvs = n \<and> list_all2 (enc_pair d) kvs es \<and>
      bs = concat (map (\<lambda>p. fst p @ snd p) es) @ r \<and>
      sorted_wrt (<) (map (\<lambda>kv. text_key (fst kv)) kvs) \<and>
      (\<forall>kv \<in> set kvs. after prev (text_key (fst kv)))"
proof (induction n arbitrary: prev m bs)
  case 0
  then show ?case by simp
next
  case (Suc n)
  from Suc.prems obtain k q where k: "decode_item d bs = Inr (k, q)"
    by (auto simp: bindE_eq_Inr_iff)
  from Suc.prems k obtain s where s: "k = JStr s" by (cases k) auto
  from Suc.prems k s obtain e v q' where fresh: "dget m s = None"
    and e: "utf8_encode s = Some e" and aft: "after prev (sort_key_of e)"
    and v: "decode_item d q = Inr (v, q')"
    and rest: "decode_pairs d n (Some (sort_key_of e)) (m @ [(s, v)]) q' = Inr (m', r)"
    by (auto simp: bindE_eq_Inr_iff update_fresh after_def not_le split: if_splits option.splits)
  from Suc.IH [OF rest] obtain kvs es where IH: "m' = (m @ [(s, v)]) @ kvs" "length kvs = n"
    "list_all2 (enc_pair d) kvs es" "q' = concat (map (\<lambda>p. fst p @ snd p) es) @ r"
    "sorted_wrt (<) (map (\<lambda>kv. text_key (fst kv)) kvs)"
    "\<forall>kv \<in> set kvs. after (Some (sort_key_of e)) (text_key (fst kv))" by blast
  from item [OF k] s obtain ek where ek: "encode_text s = Inr ek" "bs = ek @ q"
    by (auto simp: reads_back_def)
  from item [OF v] obtain ev where ev: "encode_item d v = Inr ev" "q = ev @ q'"
    by (auto simp: reads_back_def)
  have tk: "text_key s = sort_key_of e" using e by (simp add: text_key_def)
  have "list_all2 (enc_pair d) ((s, v) # kvs) ((ek, ev) # es)"
    using IH(3) ek(1) ev(1) by (simp add: enc_pair_def)
  moreover have "bs = concat (map (\<lambda>p. fst p @ snd p) ((ek, ev) # es)) @ r"
    using IH(4) ek(2) ev(2) by simp
  moreover have "sorted_wrt (<) (map (\<lambda>kv. text_key (fst kv)) ((s, v) # kvs))"
    using IH(5,6) tk by simp
  moreover have "\<forall>kv \<in> set ((s, v) # kvs). after prev (text_key (fst kv))"
    using IH(6) tk aft by (auto simp: after_def split: option.splits)
  moreover have "m' = m @ ((s, v) # kvs)" "length ((s, v) # kvs) = Suc n" using IH(1,2) by simp_all
  ultimately show ?case by blast
qed

lemma decode_item_reads_back: "decode_item d bs = Inr (v, r) \<Longrightarrow> reads_back d v bs r"
proof (induction "65 - d" arbitrary: d bs v r rule: less_induct)
  case less
  from less.prems obtain major info a q where d: "d \<le> MAX_CBOR_DEPTH"
    and hd: "decode_head bs = Inr (major, info, a, q)"
    and br: "major = 0 \<and> v = JInt (int a) \<and> r = q
      \<or> major = 1 \<and> v = JInt (- 1 - int a) \<and> r = q
      \<or> major = 3 \<and> a \<le> length q \<and> r = drop a q \<and> (\<exists>s. utf8_decode (take a q) = Some s \<and> v = JStr s)
      \<or> major = 4 \<and> (\<exists>xs. decode_items (Suc d) a q = Inr (xs, r) \<and> v = JArr xs)
      \<or> major = 5 \<and> (\<exists>m. decode_pairs (Suc d) a None [] q = Inr (m, r) \<and> v = JObj m)
      \<or> major = 7 \<and> r = q \<and> (info = 20 \<and> v = JBool False \<or> info = 21 \<and> v = JBool True
                            \<or> info = 22 \<and> v = JNull)"
    unfolding decode_item_Inr by blast
  have IH: "decode_item (Suc d) bs' = Inr (v', r') \<Longrightarrow> reads_back (Suc d) v' bs' r'" for bs' v' r'
    using less.hyps [of "Suc d"] d by (simp add: MAX_CBOR_DEPTH_def)
  from decode_head_inv [OF hd] obtain h where h: "cbor_head major a = Inr h" "bs = h @ q" by blast
  from br consider (scalar) "major = 0 \<and> v = JInt (int a) \<and> r = q \<or> major = 1 \<and> v = JInt (- 1 - int a) \<and> r = q
      \<or> major = 7 \<and> r = q \<and> (info = 20 \<and> v = JBool False \<or> info = 21 \<and> v = JBool True \<or> info = 22 \<and> v = JNull)"
    | (txtstr) s where "major = 3" "a \<le> length q" "r = drop a q" "utf8_decode (take a q) = Some s" "v = JStr s"
    | (array) xs where "major = 4" "decode_items (Suc d) a q = Inr (xs, r)" "v = JArr xs"
    | (mapping) m where "major = 5" "decode_pairs (Suc d) a None [] q = Inr (m, r)" "v = JObj m"
    by blast
  then show ?case
  proof cases
    case scalar
    with reads_back_scalar [OF hd d] show ?thesis by blast
  next
    case txtstr
    then have "utf8_encode s = Some (take a q)" by (simp add: utf8_encode_decode)
    with txtstr h d show ?thesis
      by (auto simp: reads_back_def encode_text_def)
  next
    case array
    from decode_items_inv [OF IH array(2)] obtain us where us: "length xs = a"
      "list_all2 (\<lambda>x u. encode_item (Suc d) x = Inr u) xs us" "q = concat us @ r" by blast
    with h d array have "encode_item d v = Inr (h @ concat us)"
      by (auto simp only: encode_JArr)
    with us h show ?thesis by (simp add: reads_back_def)
  next
    case mapping
    from decode_pairs_inv [OF IH mapping(2)] obtain es where es: "length m = a"
      "list_all2 (enc_pair (Suc d)) m es" "q = concat (map (\<lambda>p. fst p @ snd p) es) @ r"
      "sorted_wrt (<) (map (\<lambda>kv. text_key (fst kv)) m)" by auto
    have "sorted (map (\<lambda>kv. text_key (fst kv)) m)"
      using es(4) by (rule strict_sorted_imp_sorted)
    then have srt: "sort_key pair_key es = es" using enc_pair_sorted [OF es(2)] by simp
    have dd: "Suc d \<le> MAX_CBOR_DEPTH \<or> m = []"
    proof (cases m)
      case (Cons kv m')
      with es(1) mapping(2) obtain n k r' where "a = Suc n" "decode_item (Suc d) q = Inr (k, r')"
        by (cases a) (auto simp: bindE_eq_Inr_iff)
      then show ?thesis unfolding decode_item_Inr by blast
    qed simp
    have "encode_item d (JObj m) = Inr (h @ concat (map (\<lambda>p. fst p @ snd p) es))"
    proof (subst encode_JObj [OF dd], intro conjI exI)
      show "d \<le> MAX_CBOR_DEPTH" by (rule d)
      show "list_all2 (enc_pair (Suc d)) m es" by (rule es(2))
      show "cbor_head 5 (length m) = Inr h" using h(1) mapping(1) es(1) by simp
      show "h @ concat (map (\<lambda>p. fst p @ snd p) es) =
        h @ concat (map (\<lambda>p. fst p @ snd p) (sort_key pair_key es))" by (simp only: srt)
    qed
    with es(3) h mapping show ?thesis by (simp add: reads_back_def)
  qed
qed

lemma cbor_decode_encode:
  "cbor_value data limit = Inr v \<Longrightarrow> cbor_bytes v = Inr data"
  using decode_item_reads_back [of 0 data v "[]"]
  by (auto simp: cbor_value_def cbor_bytes_def reads_back_def bindE_eq_Inr_iff split: if_splits)

section \<open>Decoding what was encoded\<close>

text \<open>
  The decoder returns the value with the members of every object in the codec's
  order.  A Python \<open>dict\<close> has distinct keys; \<open>dict_keys_ok\<close> says so at every level.
\<close>

fun dict_keys_ok :: "ustr jval \<Rightarrow> bool" where
  "dict_keys_ok (JArr xs) \<longleftrightarrow> (\<forall>x \<in> set xs. dict_keys_ok x)"
| "dict_keys_ok (JObj kvs) \<longleftrightarrow> distinct (map fst kvs) \<and> (\<forall>kv \<in> set kvs. dict_keys_ok (snd kv))"
| "dict_keys_ok v \<longleftrightarrow> True"

fun cnorm :: "ustr jval \<Rightarrow> ustr jval" where
  "cnorm (JArr xs) = JArr (map cnorm xs)"
| "cnorm (JObj kvs) = JObj (map (\<lambda>kv. (fst kv, cnorm (snd kv))) (sort_key (\<lambda>kv. text_key (fst kv)) kvs))"
| "cnorm v = v"

lemma decode_encode_text:
  assumes "encode_text s = Inr u" and "d \<le> MAX_CBOR_DEPTH"
  shows "decode_item d (u @ r) = Inr (JStr s, r)"
proof -
  from assms(1) obtain e h where e: "utf8_encode s = Some e" "cbor_head 3 (length e) = Inr h" "u = h @ e"
    unfolding encode_text_Inr by blast
  then have "decode_head (u @ r) = Inr (3, info_of (length e), length e, e @ r)"
    using decode_head_head [OF e(2), of "e @ r"] by simp
  with utf8_decode_encode [OF e(1)] assms(2) show ?thesis
    unfolding decode_item_Inr by auto
qed

lemma decode_items_encoded:
  assumes "list_all2 (\<lambda>x u. encode_item d x = Inr u) xs us"
    and "\<And>x u r. x \<in> set xs \<Longrightarrow> encode_item d x = Inr u \<Longrightarrow> decode_item d (u @ r) = Inr (cnorm x, r)"
  shows "decode_items d (length xs) (concat us @ r) = Inr (map cnorm xs, r)"
  using assms
proof (induction rule: list_all2_induct)
  case (Cons x xs u us)
  have 1: "decode_item d (u @ concat us @ r) = Inr (cnorm x, concat us @ r)"
    by (rule Cons.prems) (use Cons.hyps in simp_all)
  have 2: "decode_items d (length xs) (concat us @ r) = Inr (map cnorm xs, r)"
    by (rule Cons.IH) (rule Cons.prems, simp_all)
  show ?case by (simp add: 1 2)
qed simp

lemma decode_pairs_encoded:
  assumes "list_all2 (enc_pair d) kvs es" and "d \<le> MAX_CBOR_DEPTH \<or> kvs = []"
    and "\<And>kv u r. kv \<in> set kvs \<Longrightarrow> encode_item d (snd kv) = Inr u \<Longrightarrow>
           decode_item d (u @ r) = Inr (cnorm (snd kv), r)"
    and "sorted_wrt (<) (map (\<lambda>kv. text_key (fst kv)) kvs)"
    and "\<forall>kv \<in> set kvs. after prev (text_key (fst kv)) \<and> dget m (fst kv) = None"
    and "distinct (map fst kvs)"
  shows "decode_pairs d (length kvs) prev m (concat (map (\<lambda>p. fst p @ snd p) es) @ r)
    = Inr (m @ map (\<lambda>kv. (fst kv, cnorm (snd kv))) kvs, r)"
  using assms
proof (induction arbitrary: prev m rule: list_all2_induct)
  case (Cons kv kvs p es)
  from Cons.hyps(1) have k: "encode_text (fst kv) = Inr (fst p)" and v: "encode_item d (snd kv) = Inr (snd p)"
    by (auto simp: enc_pair_def)
  from k obtain e where e: "utf8_encode (fst kv) = Some e" by (auto simp: encode_text_Inr)
  then have tk: "text_key (fst kv) = sort_key_of e" by (simp add: text_key_def)
  have d: "d \<le> MAX_CBOR_DEPTH" using Cons.prems(1) by simp
  have 1: "decode_item d (fst p @ x) = Inr (JStr (fst kv), x)" for x
    using decode_encode_text [OF k d] .
  have 2: "decode_item d (snd p @ x) = Inr (cnorm (snd kv), x)" for x
    using Cons.prems(2) v by simp
  have 3: "decode_pairs d (length kvs) (Some (sort_key_of e)) (m @ [(fst kv, cnorm (snd kv))])
      (concat (map (\<lambda>p. fst p @ snd p) es) @ r)
    = Inr ((m @ [(fst kv, cnorm (snd kv))]) @ map (\<lambda>kv. (fst kv, cnorm (snd kv))) kvs, r)"
  proof (rule Cons.IH)
    show "d \<le> MAX_CBOR_DEPTH \<or> kvs = []" using d by simp
    show "\<And>kv u r. kv \<in> set kvs \<Longrightarrow> encode_item d (snd kv) = Inr u \<Longrightarrow>
       decode_item d (u @ r) = Inr (cnorm (snd kv), r)" using Cons.prems(2) by simp
    show "sorted_wrt (<) (map (\<lambda>kv. text_key (fst kv)) kvs)" using Cons.prems(3) by simp
    show "\<forall>kv' \<in> set kvs. after (Some (sort_key_of e)) (text_key (fst kv')) \<and>
        dget (m @ [(fst kv, cnorm (snd kv))]) (fst kv') = None"
      using Cons.prems(3,4,5) by (force simp: tk map_add_def image_iff split: option.splits)
    show "distinct (map fst kvs)" using Cons.prems(5) by simp
  qed
  have fresh: "dget m (fst kv) = None" and aft: "after prev (sort_key_of e)"
    using Cons.prems(4) tk by auto
  have "\<not> (case prev of None \<Rightarrow> False | Some p \<Rightarrow> sort_key_of e \<le> p)"
    using aft by (auto simp: after_def split: option.splits)
  then show ?case using 1 2 3 e fresh by (simp add: update_fresh)
qed simp

lemma text_key_inj:
  assumes "encode_text s = Inr u" "encode_text t = Inr v" "text_key s = text_key t"
  shows "s = t"
proof -
  from assms(1,2) obtain e e' where e: "utf8_encode s = Some e" "utf8_encode t = Some e'"
    unfolding encode_text_Inr by blast
  with assms(3) have "map unat e = map unat e'" by (simp add: text_key_def sort_key_of_def)
  moreover have "inj (unat :: byte \<Rightarrow> nat)" by (rule injI) (metis byte_unat)
  ultimately have "e = e'" by (simp add: inj_map_eq_map)
  with e show ?thesis using utf8_encode_inj by blast
qed

lemma strict_sort:
  assumes "list_all2 (enc_pair d) kvs es" and "distinct (map fst kvs)"
  shows "sorted_wrt (<) (map (\<lambda>kv. text_key (fst kv)) (sort_key (\<lambda>kv. text_key (fst kv)) kvs))"
proof -
  have enc: "\<exists>u. encode_text (fst kv) = Inr u" if "kv \<in> set kvs" for kv
    using assms(1) that by (auto simp: in_set_conv_nth list_all2_conv_all_nth enc_pair_def)
  have "inj_on (\<lambda>kv. text_key (fst kv)) (set kvs)"
    using assms(2) enc text_key_inj unfolding inj_on_def distinct_map by metis
  then have "distinct (map (\<lambda>kv. text_key (fst kv)) (sort_key (\<lambda>kv. text_key (fst kv)) kvs))"
    using assms(2) by (simp add: distinct_map)
  then show ?thesis by (simp add: strict_sorted_iff)
qed

lemma decode_encode_scalar:
  assumes "cbor_head major a = Inr h" "major \<in> {0, 1}" "d \<le> MAX_CBOR_DEPTH"
  shows "decode_item d (h @ r) = Inr (JInt (if major = 0 then int a else - 1 - int a), r)"
  using decode_head_head [OF assms(1), of r] assms(2,3) unfolding decode_item_Inr by auto

lemma decode_encode_item:
  "encode_item d v = Inr u \<Longrightarrow> dict_keys_ok v \<Longrightarrow> decode_item d (u @ r) = Inr (cnorm v, r)"
proof (induction v arbitrary: d u r)
  case JNull
  then show ?case by (auto simp: decode_item_Inr decode_head_def Let_def)
next
  case (JBool b)
  then show ?case by (auto simp: decode_item_Inr decode_head_def Let_def split: if_splits)
next
  case (JInt i)
  then have d: "d \<le> MAX_CBOR_DEPTH" by auto
  show ?case
  proof (cases "0 \<le> i")
    case True
    with JInt have "cbor_head 0 (nat i) = Inr u" by auto
    from decode_encode_scalar [OF this _ d] True show ?thesis by simp
  next
    case False
    with JInt have "cbor_head 1 (nat (- 1 - i)) = Inr u" by auto
    from decode_encode_scalar [OF this _ d] False show ?thesis by simp
  qed
next
  case (JStr s)
  then have "encode_text s = Inr u" "d \<le> MAX_CBOR_DEPTH" by auto
  then show ?case using decode_encode_text by simp
next
  case (JArr xs)
  from JArr.prems(1) [unfolded encode_JArr] obtain us h where d: "d \<le> MAX_CBOR_DEPTH"
    and us: "list_all2 (\<lambda>x u. encode_item (Suc d) x = Inr u) xs us"
    and h: "cbor_head 4 (length xs) = Inr h" "u = h @ concat us" by blast
  have "decode_items (Suc d) (length xs) (concat us @ r) = Inr (map cnorm xs, r)"
    by (rule decode_items_encoded [OF us]) (use JArr in auto)
  with decode_head_head [OF h(1), of "concat us @ r"] h(2) d show ?case
    unfolding decode_item_Inr by simp
next
  case (JObj kvs)
  have dd: "Suc d \<le> MAX_CBOR_DEPTH \<or> kvs = []"
    using JObj.prems(1) by (cases kvs) (auto simp: bindE_eq_Inr_iff)
  from JObj.prems(1) [unfolded encode_JObj [OF dd]] obtain es h where d: "d \<le> MAX_CBOR_DEPTH"
    and es: "list_all2 (enc_pair (Suc d)) kvs es" and h: "cbor_head 5 (length kvs) = Inr h"
    and u: "u = h @ concat (map (\<lambda>p. fst p @ snd p) (sort_key pair_key es))" by blast
  let ?kvs = "sort_key (\<lambda>kv. text_key (fst kv)) kvs"
  have dist: "distinct (map fst kvs)" using JObj.prems(2) by simp
  have es': "list_all2 (enc_pair (Suc d)) ?kvs (sort_key pair_key es)"
  proof (rule list_all2_sort_key [OF es])
    fix kv p kv' p' assume "enc_pair (Suc d) kv p" "enc_pair (Suc d) kv' p'"
    then show "text_key (fst kv) \<le> text_key (fst kv') \<longleftrightarrow> pair_key p \<le> pair_key p'"
      using pair_key_le [of "fst kv" "fst p" "fst kv'" "fst p'" "snd p" "snd p'"]
      by (simp add: enc_pair_def)
  qed
  have "distinct (map fst ?kvs)"
    using dist by (simp add: distinct_map)
  moreover have "\<And>kv u r. kv \<in> set ?kvs \<Longrightarrow> encode_item (Suc d) (snd kv) = Inr u \<Longrightarrow>
      decode_item (Suc d) (u @ r) = Inr (cnorm (snd kv), r)"
  proof -
    fix kv u r assume kv: "kv \<in> set ?kvs" and enc: "encode_item (Suc d) (snd kv) = Inr u"
    from kv have kv': "kv \<in> set kvs" by simp
    with JObj.prems(2) have "dict_keys_ok (snd kv)" by auto
    with JObj.IH [of kv "snd kv"] kv' enc show "decode_item (Suc d) (u @ r) = Inr (cnorm (snd kv), r)"
      by (cases kv) (auto intro: snds.intros)
  qed
  moreover have "Suc d \<le> MAX_CBOR_DEPTH \<or> ?kvs = []" using dd by auto
  ultimately have "decode_pairs (Suc d) (length ?kvs) None []
      (concat (map (\<lambda>p. fst p @ snd p) (sort_key pair_key es)) @ r)
    = Inr ([] @ map (\<lambda>kv. (fst kv, cnorm (snd kv))) ?kvs, r)"
    by (intro decode_pairs_encoded [OF es' _ _ strict_sort [OF es dist]]) auto
  with decode_head_head [OF h, of "concat (map (\<lambda>p. fst p @ snd p) (sort_key pair_key es)) @ r"] u d
  show ?case unfolding decode_item_Inr by simp
qed auto

lemma encode_item_nonempty: "encode_item d v = Inr u \<Longrightarrow> u \<noteq> []"
  by (cases v) (auto simp: bindE_eq_Inr_iff encode_text_Inr cbor_head_def split: if_splits)

lemma cbor_encode_decode:
  assumes "cbor_bytes v = Inr data" "dict_keys_ok v" "length data \<le> limit"
  shows "cbor_value data limit = Inr (cnorm v)"
  using decode_encode_item [of 0 v data "[]"] encode_item_nonempty [of 0 v data] assms
  by (simp add: cbor_value_def cbor_bytes_def)

section \<open>Properties\<close>

text \<open>
  C33: The compact codec has one encoding per value: whatever bytes the decoder
  accepts, encoding the decoded value gives exactly those bytes back, so
  non-minimal, unsorted, duplicate-key, indefinite-length or trailing input is
  refused.
\<close>

theorem cbor_reencodes:
  assumes "cbor_value data limit = Inr v"
  shows "cbor_bytes v = Inr data"
  using assms by (rule cbor_decode_encode)

theorem cbor_reencodes_witness:
  "cbor_bytes (JObj [([97], JInt 1)]) = Inr [0xA1, 0x61, 0x61, 0x01]"
proof (rule cbor_reencodes [where limit = 64])
  show "cbor_value [0xA1, 0x61, 0x61, 0x01] 64 = Inr (JObj [([97], JInt 1)])"
    by (simp add: cbor_value_def decode_item.simps decode_head_def Let_def MAX_CBOR_DEPTH_def
        utf8_decode.simps utf8_step_def utf8_char_def scalar_def surrogate_def
        sort_key_of_def)
qed

text \<open>
  C34: Decoding what was encoded returns the value, with the members of every object
  in the codec's order, for every value whose objects have distinct keys and whose
  encoding is within the input limit.
\<close>

theorem cbor_decodes:
  assumes "cbor_bytes v = Inr data" "dict_keys_ok v" "length data \<le> limit"
  shows "cbor_value data limit = Inr (cnorm v)"
  using assms by (rule cbor_encode_decode)

theorem cbor_decodes_witness:
  "cbor_value [0x82, 0x18, 0x64, 0x20] DEFAULT_MAX_INPUT_BYTES = Inr (cnorm (JArr [JInt 100, JInt (- 1)]))"
  by (rule cbor_decodes)
    (simp_all add: cbor_bytes_def MAX_CBOR_DEPTH_def cbor_head_def initial_byte_def byte_def
      DEFAULT_MAX_INPUT_BYTES_def)

end
