(* ===== verification/Python_Text.thy ===== *)
theory Python_Text
  imports Canonical_Json
begin

text \<open>
  Values whose strings are \<open>string\<close>s: Python's \<open>str\<close> and \<open>repr\<close> of them, their
  canonical bytes, and the lemmas on documents that the id and document proofs of the
  topology and the resource records share.
\<close>

section \<open>Python's text of a value\<close>

definition dec_string :: "int \<Rightarrow> string" where
  "dec_string i = map char_of (dec_int i)"

definition hex_digit :: "nat \<Rightarrow> char" where
  "hex_digit d = char_of (hexdig d)"

definition py_repr_char :: "char \<Rightarrow> char \<Rightarrow> string" where
  "py_repr_char q c =
     (let n = of_char c :: nat in
      if c = q \<or> n = 92 then [char_of (92 :: nat), c]
      else if n = 9 then [char_of (92 :: nat), CHR ''t'']
      else if n = 10 then [char_of (92 :: nat), CHR ''n'']
      else if n = 13 then [char_of (92 :: nat), CHR ''r'']
      else if n < 32 \<or> 127 \<le> n \<and> n \<le> 160 \<or> n = 173
      then [char_of (92 :: nat), CHR ''x'', hex_digit (n div 16), hex_digit (n mod 16)]
      else [c])"

definition py_repr_string :: "string \<Rightarrow> string" where
  "py_repr_string s =
     (let apostrophe = char_of (39 :: nat); quote = char_of (34 :: nat);
          q = if apostrophe \<in> set s \<and> quote \<notin> set s then quote else apostrophe
      in q # concat (map (py_repr_char q) s) @ [q])"

fun comma_join :: "string list \<Rightarrow> string" where
  "comma_join [] = ''''"
| "comma_join [t] = t"
| "comma_join (t # u # ts) = t @ '', '' @ comma_join (u # ts)"

fun py_repr :: "string jval \<Rightarrow> string" where
  \<comment> \<open>\<open>repr\<close> of the values canonical JSON represents (lists for arrays); the others
     never reach it\<close>
  "py_repr JNull = ''None''"
| "py_repr (JBool b) = (if b then ''True'' else ''False'')"
| "py_repr (JInt i) = dec_string i"
| "py_repr (JStr s) = py_repr_string s"
| "py_repr (JArr xs) = ''['' @ comma_join (map py_repr xs) @ '']''"
| "py_repr (JObj kvs) =
     CHR 0x7B # comma_join (map (\<lambda>kv. py_repr_string (fst kv) @ '': '' @ py_repr (snd kv)) kvs) @ [CHR 0x7D]"
| "py_repr _ = ''''"

definition py_str :: "string jval \<Rightarrow> string" where
  \<comment> \<open>\<open>v if isinstance(v, str) else str(v)\<close>\<close>
  "py_str v = (case v of JStr s \<Rightarrow> s | _ \<Rightarrow> py_repr v)"

section \<open>Canonical bytes of documents\<close>

definition canonical_bytes :: "string jval \<Rightarrow> canon_error + bytes" where
  \<comment> \<open>\<open>canonical_json_bytes\<close> on values whose strings are \<open>string\<close>s\<close>
  "canonical_bytes v = canonical_json_bytes (map_jval lit v)"

text \<open>
  The characters of a \<open>string\<close> are the code points below 256, so no such text has a lone
  surrogate.  Where that matters the strings are names of arbitrary texts, which a
  function \<open>reading\<close> maps to their code points; \<open>lit\<close> is the reading of
  \<open>canonical_bytes\<close>.
\<close>

definition canonical_reading :: "(string \<Rightarrow> ustr) \<Rightarrow> string jval \<Rightarrow> canon_error + bytes" where
  "canonical_reading reading v = canonical_json_bytes (map_jval reading v)"

lemma canonical_reading_lit [simp]: "canonical_reading lit v = canonical_bytes v"
  by (simp add: canonical_reading_def canonical_bytes_def)

lemma canonical_ok:
  assumes "canon_ok 0 (map_jval lit v)"
  obtains b where "canonical_bytes v = Inr b"
  using assms unfolding canonical_json_bytes_ok [symmetric] isOk_iff canonical_bytes_def by blast

lemma inj_lit: "lit s = lit t \<longleftrightarrow> s = t"
proof -
  have "inj (of_char :: char \<Rightarrow> nat)" by (rule injI) simp
  then show ?thesis by (simp add: lit_def inj_map_eq_map)
qed

lemma jnorm_JObj_members:
  assumes "jnorm (JObj a) = jnorm (JObj b)" "dict_wf a" "dict_wf b"
  shows "map_option jnorm (dget a k) = map_option jnorm (dget b k)"
proof -
  let ?f = "\<lambda>kv. (fst kv, jnorm (snd kv))"
  have "map ?f (sort_key member_key a) = map ?f (sort_key member_key b)"
    using assms(1) by (simp only: jnorm_JObj jval.inject)
  then have "set (map ?f (sort_key member_key a)) = set (map ?f (sort_key member_key b))" by (rule arg_cong)
  then have "set (map ?f a) = set (map ?f b)" by simp
  then have eq: "map_of (map ?f a) = map_of (map ?f b)"
    by (intro map_of_inject_set [THEN iffD2]) (use assms(2,3) in \<open>simp_all add: comp_def\<close>)
  have m: "map_of (map ?f d) k = map_option jnorm (dget d k)" for d
    by (induction d) auto
  show ?thesis using fun_cong [OF eq, of k] by (simp only: m)
qed

lemma lit_scalar [simp]: "list_all scalar (lit s)"
proof -
  have "scalar (of_char c)" for c
    unfolding scalar_def surrogate_def using nat_of_char_less_256 [of c] by linarith
  then show ?thesis by (simp add: lit_def list_all_iff)
qed

section \<open>Documents with the same canonical bytes\<close>

definition same_reading :: "(string \<Rightarrow> ustr) \<Rightarrow> string jval \<Rightarrow> string jval \<Rightarrow> bool" where
  \<comment> \<open>equal up to the order of object members\<close>
  "same_reading reading v w \<longleftrightarrow> jnorm (map_jval reading v) = jnorm (map_jval reading w)"

definition same_doc :: "string jval \<Rightarrow> string jval \<Rightarrow> bool" where
  "same_doc v w \<longleftrightarrow> same_reading lit v w"

lemma same_doc_reading: "same_doc = same_reading lit"
  by (intro ext) (simp add: same_doc_def)

lemma same_reading_refl [simp]: "same_reading reading v v"
  by (simp add: same_reading_def)

lemma same_doc_refl [simp]: "same_doc v v"
  by (simp add: same_doc_def)

lemma same_reading_scalar:
  assumes "inj reading"
  shows "same_reading reading (JStr s) (JStr t) \<longleftrightarrow> s = t" "same_reading reading (JInt i) (JInt j) \<longleftrightarrow> i = j"
    "same_reading reading (JArr xs) (JArr ys) \<longleftrightarrow> list_all2 (same_reading reading) xs ys"
    "same_reading reading JNull (JObj d) \<longleftrightarrow> False" "same_reading reading (JObj d) JNull \<longleftrightarrow> False"
  by (simp_all add: same_reading_def inj_eq [OF assms] list_all2_conv_all_nth list_eq_iff_nth_eq [where xs = "map _ _"])
    (auto simp: list_eq_iff_nth_eq [where xs = "map _ xs"])

lemma inj_reading_lit: "inj lit"
  by (rule injI) (simp add: inj_lit)

lemmas same_doc_scalar [simp] = same_reading_scalar [OF inj_reading_lit, folded same_doc_reading]

lemma dget_map_keys:
  assumes "inj f"
  shows "dget (map (\<lambda>kv. (f (fst kv), g (snd kv))) d) (f k) = map_option g (dget d k)"
  using assms by (induction d) (auto dest: injD)

lemma same_reading_members:
  assumes "inj reading" "same_reading reading (JObj a) (JObj b)" "dict_wf a" "dict_wf b"
  shows "rel_option (same_reading reading) (dget a k) (dget b k)"
proof -
  let ?f = "\<lambda>kv. (reading (fst kv), map_jval reading (snd kv))"
  note inj = assms(1)
  have wf: "dict_wf (map ?f d)" if "dict_wf d" for d :: "(string, string jval) dict"
    using that inj by (auto simp: distinct_map comp_def inj_on_def dest: injD)
  have "jnorm (JObj (map ?f a)) = jnorm (JObj (map ?f b))"
    using assms(2) unfolding same_reading_def jval.map map_prod_def split_beta .
  from jnorm_JObj_members [OF this wf [OF assms(3)] wf [OF assms(4)], of "reading k"] show ?thesis
    by (cases "dget a k"; cases "dget b k") (simp_all add: dget_map_keys [OF inj] same_reading_def)
qed

lemmas same_doc_members = same_reading_members [OF inj_reading_lit, folded same_doc_reading]

lemma canonical_reading_same:
  assumes "canonical_reading reading v = Inr b" "canonical_reading reading w = Inr b"
  shows "same_reading reading v w"
  unfolding same_reading_def
  by (rule canonical_json_bytes_inj) (use assms in \<open>simp_all add: canonical_reading_def\<close>)

lemma canonical_bytes_same_doc:
  "canonical_bytes v = Inr b \<Longrightarrow> canonical_bytes w = Inr b \<Longrightarrow> same_doc v w"
  unfolding same_doc_reading by (rule canonical_reading_same) simp_all

lemma same_texts_reading: "inj reading \<Longrightarrow> list_all2 (same_reading reading) (map JStr xs) (map JStr ys) \<longleftrightarrow> xs = ys"
  by (simp add: list_all2_map1 list_all2_map2 list.rel_eq same_reading_scalar)

lemma same_texts: "list_all2 same_doc (map JStr xs) (map JStr ys) \<longleftrightarrow> xs = ys"
  by (simp add: list_all2_map1 list_all2_map2 list.rel_eq)

end
