(* ===== verification/Temporal.thy ===== *)
theory Temporal
  imports Adcos_Prelude
begin

text \<open>
  \<open>protocol/temporal.py\<close>: RFC 3339 UTC instants and the temporal validation of an
  envelope.  A \<open>datetime\<close> in UTC is the number of microseconds since
  0001-01-01T00:00:00, an integer below \<open>datetime_end\<close>; adding a \<open>timedelta\<close> that
  leaves this range raises \<open>OverflowError\<close>, which the code does not catch.

  Timestamps are \<open>string\<close>s (code points below 256, where the only characters
  the class \<open>\d\<close> of the pattern matches are the ASCII digits).
\<close>

section \<open>Calendar\<close>

definition is_leap :: "nat \<Rightarrow> bool" where
  "is_leap y \<longleftrightarrow> y mod 4 = 0 \<and> (y mod 100 \<noteq> 0 \<or> y mod 400 = 0)"

definition days_in_month :: "nat \<Rightarrow> nat \<Rightarrow> nat" where
  "days_in_month y m =
     (if m = 2 then (if is_leap y then 29 else 28) else if m \<in> {4, 6, 9, 11} then 30 else 31)"

definition days_before_year :: "nat \<Rightarrow> nat" where
  "days_before_year y = (y - 1) * 365 + (y - 1) div 4 - (y - 1) div 100 + (y - 1) div 400"

fun days_before_month :: "nat \<Rightarrow> nat \<Rightarrow> nat" where
  "days_before_month y 0 = 0"
| "days_before_month y (Suc m) = (if m = 0 then 0 else days_before_month y m + days_in_month y m)"

definition datetime_end :: int where
  \<comment> \<open>the first microsecond of the year 10000\<close>
  "datetime_end = 3652059 * 86400000000"

definition make_datetime :: "nat \<Rightarrow> nat \<Rightarrow> nat \<Rightarrow> nat \<Rightarrow> nat \<Rightarrow> nat \<Rightarrow> nat \<Rightarrow> int option" where
  \<comment> \<open>\<open>datetime(year, month, day, hour, minute, second, microsecond, tzinfo=utc)\<close>, \<open>None\<close>
     for its \<open>ValueError\<close>\<close>
  "make_datetime y mo d h mi s us =
     (if 1 \<le> y \<and> y \<le> 9999 \<and> 1 \<le> mo \<and> mo \<le> 12 \<and> 1 \<le> d \<and> d \<le> days_in_month y mo \<and>
         h \<le> 23 \<and> mi \<le> 59 \<and> s \<le> 59 \<and> us \<le> 999999
      then Some (int (((((days_before_year y + days_before_month y mo + (d - 1)) * 24 + h) * 60
                        + mi) * 60 + s) * 1000000 + us))
      else None)"

section \<open>Parsing\<close>

definition is_digit :: "char \<Rightarrow> bool" where
  "is_digit c \<longleftrightarrow> CHR ''0'' \<le> c \<and> c \<le> CHR ''9''"

definition digits_value :: "string \<Rightarrow> nat" where
  \<comment> \<open>\<open>int(...)\<close> of a string of digits\<close>
  "digits_value s = foldl (\<lambda>a c. 10 * a + (of_char c - 48)) 0 s"

definition instant_template :: string where
  \<comment> \<open>the fixed part of \<open>RFC3339_UTC_RE\<close>, 0 standing for a digit\<close>
  "instant_template = ''0000-00-00T00:00:00''"

definition matches_template :: "string \<Rightarrow> bool" where
  "matches_template v \<longleftrightarrow>
     list_all2 (\<lambda>t c. if t = CHR ''0'' then is_digit c else c = t) instant_template v"

definition fraction_digits :: "string \<Rightarrow> string option" where
  \<comment> \<open>what follows the seconds: \<open>(\.\d+)?Z\<close>\<close>
  "fraction_digits r =
     (if r = ''Z'' then Some ''''
      else if 3 \<le> length r \<and> hd r = CHR ''.'' \<and> last r = CHR ''Z'' \<and> list_all is_digit (butlast (tl r))
      then Some (butlast (tl r)) else None)"

definition parse_instant :: "string \<Rightarrow> int option" where
  "parse_instant v =
     (if \<not> matches_template (take 19 v) then None
      else case fraction_digits (drop 19 v) of
             None \<Rightarrow> None
           | Some f \<Rightarrow>
               make_datetime (digits_value (take 4 v)) (digits_value (take 2 (drop 5 v)))
                 (digits_value (take 2 (drop 8 v))) (digits_value (take 2 (drop 11 v)))
                 (digits_value (take 2 (drop 14 v))) (digits_value (take 2 (drop 17 v)))
                 (if f = '''' then 0 else digits_value (take 6 (f @ ''000000''))))"

section \<open>The temporal check\<close>

datatype clock = Naive | Aware int

datatype temporal_error = NaiveClock | DatetimeOverflow

definition add_delta :: "int \<Rightarrow> int \<Rightarrow> temporal_error + int" where
  "add_delta t dt = (if 0 \<le> t + dt \<and> t + dt < datetime_end then Inr (t + dt) else Inl DatetimeOverflow)"

definition check_temporal :: "string \<Rightarrow> string \<Rightarrow> clock \<Rightarrow> int \<Rightarrow> temporal_error + string option" where
  "check_temporal issued_at expires_at now clock_skew =
     (case now of
        Naive \<Rightarrow> Inl NaiveClock
      | Aware t \<Rightarrow>
          (case parse_instant issued_at of
             None \<Rightarrow> Inr (Some ''issued-at-invalid'')
           | Some issued \<Rightarrow>
               (case parse_instant expires_at of
                  None \<Rightarrow> Inr (Some ''expires-at-invalid'')
                | Some expires \<Rightarrow>
                    if expires < issued then Inr (Some ''expires-before-issued'')
                    else bindE (add_delta expires clock_skew) (\<lambda>limit.
                      if limit < t then Inr (Some ''expired'')
                      else bindE (add_delta t clock_skew) (\<lambda>horizon.
                        if horizon < issued then Inr (Some ''not-yet-valid'') else Inr None)))))"

section \<open>Lemmas\<close>

lemma days_before_month_numeral [simp]:
  "days_before_month y 1 = 0"
  "days_before_month y (numeral k) =
    (if pred_numeral k = 0 then 0
     else days_before_month y (pred_numeral k) + days_in_month y (pred_numeral k))"
  by (simp_all add: numeral_eq_Suc)

lemma digits_value_snoc [simp]: "digits_value (s @ [c]) = 10 * digits_value s + (of_char c - 48)"
  by (simp add: digits_value_def)

lemma digits_value_Nil [simp]: "digits_value [] = 0"
  by (simp add: digits_value_def)

lemma is_digit_iff: "is_digit c \<longleftrightarrow> 48 \<le> (of_char c :: nat) \<and> (of_char c :: nat) \<le> 57"
  by (simp add: is_digit_def less_eq_char_def)

lemma digits_value_less: "list_all is_digit s \<Longrightarrow> digits_value s < 10 ^ length s"
proof (induction s rule: rev_induct)
  case (snoc c s)
  then have "digits_value s + 1 \<le> 10 ^ length s" and "of_char c - 48 < (10 :: nat)"
    by (auto simp: is_digit_iff)
  then show ?case by simp
qed simp

lemma less_append_same_length:
  fixes a b :: "'a :: linorder list"
  assumes "length a = length b"
  shows "a @ x < b @ y \<longleftrightarrow> a < b \<or> a = b \<and> x < y"
  using assms by (induction a b rule: list_induct2) auto

lemma digits_value_Cons: "digits_value (c # s) = (of_char c - 48) * 10 ^ length s + digits_value s"
  by (induction s rule: rev_induct) (simp_all add: append_Cons [symmetric] del: append_Cons,
      simp_all add: digits_value_def algebra_simps)

lemma mixed_radix_less:
  fixes a b p q n :: nat
  assumes "p < n" and "q < n"
  shows "a * n + p < b * n + q \<longleftrightarrow> a < b \<or> a = b \<and> p < q"
proof (cases a b rule: linorder_cases)
  case less
  then have "(a + 1) * n \<le> b * n" by (intro mult_right_mono) simp_all
  with less assms show ?thesis by simp
next
  case greater
  then have "(b + 1) * n \<le> a * n" by (intro mult_right_mono) simp_all
  with greater assms show ?thesis by simp
qed simp

lemma mixed_radix_eq:
  fixes a b p q n :: nat
  assumes "p < n" and "q < n"
  shows "a * n + p = b * n + q \<longleftrightarrow> a = b \<and> p = q"
  using mixed_radix_less [OF assms, of a b] mixed_radix_less [OF assms(2,1), of b a]
  by (metis linorder_neqE_nat less_irrefl)

lemma digits_value_order:
  assumes "length a = length b" and "list_all is_digit a" and "list_all is_digit b"
  shows "a < b \<longleftrightarrow> digits_value a < digits_value b"
  using assms
proof (induction a b rule: list_induct2)
  case (Cons c a d b)
  then have "digits_value a < 10 ^ length b" "digits_value b < 10 ^ length b"
    using digits_value_less [of a] digits_value_less [of b] by simp_all
  moreover have "c < d \<longleftrightarrow> of_char c - 48 < (of_char d - 48 :: nat)"
    using Cons.prems by (auto simp: is_digit_iff less_char_def)
  moreover have "c = d \<longleftrightarrow> (of_char c :: nat) = of_char d"
    by (rule of_char_eq_iff [symmetric])
  then have "c = d \<longleftrightarrow> of_char c - 48 = (of_char d - 48 :: nat)"
    using Cons.prems eq_diff_iff [of 48 "of_char c :: nat" "of_char d"] by (simp add: is_digit_iff)
  ultimately show ?case
    using Cons by (simp add: digits_value_Cons mixed_radix_less)
qed simp

section \<open>Calendar order\<close>

lemma days_before_year_Suc:
  assumes "1 \<le> y"
  shows "days_before_year (Suc y) = days_before_year y + (if is_leap y then 366 else 365)"
proof -
  obtain n where y: "y = Suc n" using assms by (cases y) auto
  have div4: "n div 100 \<le> n div 4" by (rule div_le_mono2) simp_all
  have step: "Suc n div k = n div k + (if Suc n mod k = 0 then 1 else 0)" for k
    by (simp add: div_Suc)
  have m: "Suc n mod 400 = 0 \<Longrightarrow> Suc n mod 100 = 0" "Suc n mod 100 = 0 \<Longrightarrow> Suc n mod 4 = 0"
    by (auto simp flip: dvd_eq_mod_eq_0 elim!: dvd_trans [rotated])
  show ?thesis
    using div4 m by (auto simp: y days_before_year_def is_leap_def step algebra_simps)
qed

lemma days_before_year_mono: "y \<le> z \<Longrightarrow> 1 \<le> y \<Longrightarrow> days_before_year y \<le> days_before_year z"
  by (induction z rule: dec_induct) (simp_all add: days_before_year_Suc)

lemma days_before_month_mono:
  "m < n \<Longrightarrow> 1 \<le> m \<Longrightarrow> days_before_month y m + days_in_month y m \<le> days_before_month y n"
proof (induction n)
  case (Suc n)
  then show ?case by (cases "m = n") auto
qed simp

lemma days_in_year:
  "1 \<le> m \<Longrightarrow> m \<le> 12 \<Longrightarrow>
   days_before_month y m + days_in_month y m \<le> (if is_leap y then 366 else 365)"
proof -
  assume m: "1 \<le> m" "m \<le> 12"
  have "days_before_month y 12 + days_in_month y 12 = (if is_leap y then 366 else 365)"
    by (simp add: days_in_month_def)
  moreover have "days_before_month y m + days_in_month y m \<le> days_before_month y 12 + days_in_month y 12"
    using m days_before_month_mono [of m 12 y] by (cases "m = 12") auto
  ultimately show ?thesis by simp
qed

definition day_number :: "nat \<Rightarrow> nat \<Rightarrow> nat \<Rightarrow> nat" where
  "day_number y m d = days_before_year y + days_before_month y m + (d - 1)"

definition date_ok :: "nat \<Rightarrow> nat \<Rightarrow> nat \<Rightarrow> bool" where
  "date_ok y m d \<longleftrightarrow> 1 \<le> y \<and> 1 \<le> m \<and> m \<le> 12 \<and> 1 \<le> d \<and> d \<le> days_in_month y m"

lemma day_number_less_year:
  assumes "date_ok y m d" "date_ok y' m' d'" "y < y'"
  shows "day_number y m d < day_number y' m' d'"
proof -
  have "day_number y m d < days_before_year (Suc y)"
    using assms(1) days_in_year [of m y] days_before_year_Suc [of y]
    by (auto simp: day_number_def date_ok_def)
  also have "\<dots> \<le> days_before_year y'" using assms by (intro days_before_year_mono) auto
  finally show ?thesis by (simp add: day_number_def)
qed

lemma day_number_less_month:
  assumes "date_ok y m d" "date_ok y m' d'" "m < m'"
  shows "day_number y m d < day_number y m' d'"
  using assms days_before_month_mono [of m m' y] by (auto simp: day_number_def date_ok_def)

lemma day_number_order:
  assumes "date_ok y m d" "date_ok y' m' d'"
  shows "day_number y m d < day_number y' m' d' \<longleftrightarrow> (y, m, d) < (y', m', d')"
proof (cases y y' rule: linorder_cases)
  case less
  then show ?thesis using day_number_less_year [OF assms] by simp
next
  case greater
  then show ?thesis using day_number_less_year [OF assms(2,1)] by simp
next
  case equal
  show ?thesis
  proof (cases m m' rule: linorder_cases)
    case less
    then show ?thesis using day_number_less_month [of y m d m' d'] assms equal by simp
  next
    case greater
    then show ?thesis using day_number_less_month [of y m' d' m d] assms equal by simp
  next
    case eq: equal
    then show ?thesis using equal assms by (auto simp: day_number_def date_ok_def)
  qed
qed

lemma day_number_eq_iff:
  assumes "date_ok y m d" "date_ok y' m' d'"
  shows "day_number y m d = day_number y' m' d' \<longleftrightarrow> (y, m, d) = (y', m', d')"
  using day_number_order [OF assms] day_number_order [OF assms(2,1)]
  by (metis linorder_neqE nless_le)

lemma make_datetime_Some:
  "make_datetime y mo d h mi s us = Some t \<longleftrightarrow>
     y \<le> 9999 \<and> date_ok y mo d \<and> h < 24 \<and> mi < 60 \<and> s < 60 \<and> us < 1000000 \<and>
     t = int ((((day_number y mo d * 24 + h) * 60 + mi) * 60 + s) * 1000000 + us)"
  by (auto simp: make_datetime_def date_ok_def day_number_def)

lemma lex_pair_less:
  fixes a :: "'a :: linorder" and b :: "'b :: linorder"
  shows "(a, b) < (a', b') \<longleftrightarrow> a < a' \<or> a = a' \<and> b < b'"
  by auto

lemma lex_triple_less:
  fixes a :: "'a :: linorder" and b :: "'b :: linorder" and c :: "'c :: linorder" and r :: "'r :: linorder"
  shows "(a, b, c, r) < (a', b', c', r') \<longleftrightarrow>
    (a, b, c) < (a', b', c') \<or> (a, b, c) = (a', b', c') \<and> r < r'"
  unfolding lex_pair_less by blast

lemma make_datetime_order:
  assumes "make_datetime y mo d h mi s us = Some t" and "make_datetime y' mo' d' h' mi' s' us' = Some t'"
  shows "t < t' \<longleftrightarrow> (y, mo, d, h, mi, s, us) < (y', mo', d', h', mi', s', us')"
proof -
  have ok: "date_ok y mo d" "date_ok y' mo' d'" using assms by (auto simp: make_datetime_Some)
  have r: "h < 24" "mi < 60" "s < 60" "us < 1000000" "h' < 24" "mi' < 60" "s' < 60" "us' < 1000000"
    "t = int ((((day_number y mo d * 24 + h) * 60 + mi) * 60 + s) * 1000000 + us)"
    "t' = int ((((day_number y' mo' d' * 24 + h') * 60 + mi') * 60 + s') * 1000000 + us')"
    using assms by (simp_all add: make_datetime_Some)
  have "t < t' \<longleftrightarrow> (day_number y mo d, h, mi, s, us) < (day_number y' mo' d', h', mi', s', us')"
    unfolding r(9,10) of_nat_less_iff mixed_radix_less [OF r(4,8)] mixed_radix_less [OF r(3,7)]
      mixed_radix_less [OF r(2,6)] mixed_radix_less [OF r(1,5)] mixed_radix_eq [OF r(3,7)]
      mixed_radix_eq [OF r(2,6)] mixed_radix_eq [OF r(1,5)] lex_pair_less
    by blast
  also have "\<dots> \<longleftrightarrow> (y, mo, d) < (y', mo', d') \<or>
      (y, mo, d) = (y', mo', d') \<and> (h, mi, s, us) < (h', mi', s', us')"
    unfolding lex_pair_less [of "day_number y mo d"] day_number_order [OF ok] day_number_eq_iff [OF ok] ..
  also have "\<dots> \<longleftrightarrow> (y, mo, d, h, mi, s, us) < (y', mo', d', h', mi', s', us')"
    by (rule lex_triple_less [symmetric])
  finally show ?thesis .
qed

section \<open>Order of timestamps\<close>

text \<open>
  The code orders some timestamps as strings (the earliest expiry of a path).  For
  timestamps in whole seconds that is the order of the instants.
\<close>

lemma matches_template_split:
  assumes "matches_template v"
  obtains y mo d h mi s where
    "v = y @ ''-'' @ mo @ ''-'' @ d @ ''T'' @ h @ '':'' @ mi @ '':'' @ s"
    "length y = 4" "length mo = 2" "length d = 2" "length h = 2" "length mi = 2" "length s = 2"
    "list_all is_digit (y @ mo @ d @ h @ mi @ s)"
proof -
  from assms obtain y1 y2 y3 y4 m1 m2 d1 d2 h1 h2 i1 i2 s1 s2 where
    v: "v = [y1, y2, y3, y4, CHR ''-'', m1, m2, CHR ''-'', d1, d2, CHR ''T'', h1, h2, CHR '':'',
             i1, i2, CHR '':'', s1, s2]"
    and dig: "list_all is_digit [y1, y2, y3, y4, m1, m2, d1, d2, h1, h2, i1, i2, s1, s2]"
    unfolding matches_template_def instant_template_def by (auto simp: list_all2_Cons1)
  show thesis
    by (rule that [of "[y1, y2, y3, y4]" "[m1, m2]" "[d1, d2]" "[h1, h2]" "[i1, i2]" "[s1, s2]"])
      (use v dig in simp_all)
qed

definition fields :: "string \<Rightarrow> nat \<times> nat \<times> nat \<times> nat \<times> nat \<times> nat" where
  "fields v = (digits_value (take 4 v), digits_value (take 2 (drop 5 v)), digits_value (take 2 (drop 8 v)),
     digits_value (take 2 (drop 11 v)), digits_value (take 2 (drop 14 v)), digits_value (take 2 (drop 17 v)))"

lemma template_order:
  assumes "matches_template v" and "matches_template w"
  shows "v @ x < w @ y \<longleftrightarrow> fields (v @ x) < fields (w @ y) \<or> v = w \<and> x < y"
    and "fields (v @ x) = fields (w @ y) \<longleftrightarrow> v = w"
proof -
  from assms(1) obtain y1 m1 d1 h1 i1 s1 where
    v: "v = y1 @ ''-'' @ m1 @ ''-'' @ d1 @ ''T'' @ h1 @ '':'' @ i1 @ '':'' @ s1"
    and lv: "length y1 = 4" "length m1 = 2" "length d1 = 2" "length h1 = 2" "length i1 = 2" "length s1 = 2"
    and dv: "list_all is_digit (y1 @ m1 @ d1 @ h1 @ i1 @ s1)" by (rule matches_template_split)
  from assms(2) obtain y2 m2 d2 h2 i2 s2 where
    w: "w = y2 @ ''-'' @ m2 @ ''-'' @ d2 @ ''T'' @ h2 @ '':'' @ i2 @ '':'' @ s2"
    and lw: "length y2 = 4" "length m2 = 2" "length d2 = 2" "length h2 = 2" "length i2 = 2" "length s2 = 2"
    and dw: "list_all is_digit (y2 @ m2 @ d2 @ h2 @ i2 @ s2)" by (rule matches_template_split)
  have ord: "a < b \<longleftrightarrow> digits_value a < digits_value b" "a = b \<longleftrightarrow> digits_value a = digits_value b"
    if "length a = length b" "list_all is_digit a" "list_all is_digit b" for a b
    using digits_value_order [OF that] digits_value_order [OF that(1) [symmetric] that(3,2)]
    by (auto simp: linorder_neq_iff)
  have fv: "fields (v @ x) = (digits_value y1, digits_value m1, digits_value d1, digits_value h1,
      digits_value i1, digits_value s1)"
    and fw: "fields (w @ y) = (digits_value y2, digits_value m2, digits_value d2, digits_value h2,
      digits_value i2, digits_value s2)"
    using lv lw by (simp_all add: fields_def v w)
  have p: "list_all is_digit y1" "list_all is_digit m1" "list_all is_digit d1" "list_all is_digit h1"
    "list_all is_digit i1" "list_all is_digit s1" "list_all is_digit y2" "list_all is_digit m2"
    "list_all is_digit d2" "list_all is_digit h2" "list_all is_digit i2" "list_all is_digit s2"
    using dv dw by simp_all
  note o = ord [OF _ p(1,7)] ord [OF _ p(2,8)] ord [OF _ p(3,9)] ord [OF _ p(4,10)] ord [OF _ p(5,11)]
    ord [OF _ p(6,12)]
  show "fields (v @ x) = fields (w @ y) \<longleftrightarrow> v = w"
    unfolding fv fw unfolding v w using lv lw o by simp
  show "v @ x < w @ y \<longleftrightarrow> fields (v @ x) < fields (w @ y) \<or> v = w \<and> x < y"
    unfolding fv fw unfolding v w using lv lw o by (simp add: less_append_same_length le_less) blast
qed

lemma parse_instant_Some:
  "parse_instant v = Some t \<longleftrightarrow> matches_template (take 19 v) \<and>
     (\<exists>f y mo d h mi s. fraction_digits (drop 19 v) = Some f \<and> fields v = (y, mo, d, h, mi, s) \<and>
        make_datetime y mo d h mi s (if f = '''' then 0 else digits_value (take 6 (f @ ''000000''))) = Some t)"
  by (auto simp: parse_instant_def fields_def split: option.splits)

definition whole_second :: "string \<Rightarrow> bool" where
  "whole_second v \<longleftrightarrow> length v = 20"

lemma instant_order:
  assumes "parse_instant v = Some t" "parse_instant w = Some u" "whole_second v" "whole_second w"
  shows "t < u \<longleftrightarrow> v < w"
proof -
  have z: "drop 19 x = ''Z'' \<and> f = ''''" if "fraction_digits (drop 19 x) = Some f" "whole_second x" for x f
    using that by (auto simp: fraction_digits_def whole_second_def split: if_splits)
  from assms(1) [unfolded parse_instant_Some] assms(3) z [of v] obtain y mo d h mi s where
    v: "matches_template (take 19 v)" "drop 19 v = ''Z''" "fields v = (y, mo, d, h, mi, s)"
      "make_datetime y mo d h mi s 0 = Some t" by fastforce
  from assms(2) [unfolded parse_instant_Some] assms(4) z [of w] obtain y' mo' d' h' mi' s' where
    w: "matches_template (take 19 w)" "drop 19 w = ''Z''" "fields w = (y', mo', d', h', mi', s')"
      "make_datetime y' mo' d' h' mi' s' 0 = Some u" by fastforce
  have "t < u \<longleftrightarrow> fields v < fields w"
    using make_datetime_order [OF v(4) w(4)] v(3) w(3) by auto
  also have "\<dots> \<longleftrightarrow> v < w"
    using template_order(1) [OF v(1) w(1), of "drop 19 v" "drop 19 w"] v(2) w(2)
    unfolding append_take_drop_id by simp
  finally show ?thesis .
qed

lemma parse_instant_range: "parse_instant v = Some t \<Longrightarrow> 0 \<le> t \<and> t < datetime_end"
proof -
  assume "parse_instant v = Some t"
  then obtain y mo d h mi s us where md: "make_datetime y mo d h mi s us = Some t"
    unfolding parse_instant_Some by blast
  then have t: "t = int ((((day_number y mo d * 24 + h) * 60 + mi) * 60 + s) * 1000000 + us)"
    and ok: "date_ok y mo d" "y \<le> 9999" "h < 24" "mi < 60" "s < 60" "us < 1000000"
    by (auto simp: make_datetime_Some)
  have "day_number y mo d < day_number 10000 1 1"
    by (rule day_number_less_year) (use ok in \<open>auto simp: date_ok_def days_in_month_def\<close>)
  moreover have "day_number 10000 1 1 = 3652059" by (simp add: day_number_def days_before_year_def)
  ultimately have "day_number y mo d < 3652059" by (simp only:)
  with t ok show ?thesis by (simp add: datetime_end_def)
qed

lemma check_temporal_accepts_iff:
  "check_temporal issued_at expires_at (Aware now) skew = Inr None \<longleftrightarrow>
     (\<exists>issued expires. parse_instant issued_at = Some issued \<and> parse_instant expires_at = Some expires \<and>
        issued \<le> expires \<and> now \<le> expires + skew \<and> issued \<le> now + skew \<and>
        0 \<le> expires + skew \<and> expires + skew < datetime_end \<and>
        0 \<le> now + skew \<and> now + skew < datetime_end)"
  by (auto simp: check_temporal_def add_delta_def bindE_eq_Inr_iff not_less split: option.splits if_splits)

section \<open>Properties\<close>

text \<open>
  A message passes the temporal check exactly when both timestamps are
  well-formed calendar instants, expiry is not before issue, and the evaluation
  instant lies between them up to the clock skew (with both skewed instants
  representable as \<open>datetime\<close>).
\<close>

theorem check_temporal_accepts:
  "check_temporal issued_at expires_at (Aware now) skew = Inr None \<longleftrightarrow>
     (\<exists>issued expires. parse_instant issued_at = Some issued \<and> parse_instant expires_at = Some expires \<and>
        issued \<le> expires \<and> now \<le> expires + skew \<and> issued \<le> now + skew \<and>
        0 \<le> expires + skew \<and> expires + skew < datetime_end \<and>
        0 \<le> now + skew \<and> now + skew < datetime_end)"
  by (rule check_temporal_accepts_iff)

text \<open>
  The temporal check does not always return one of its documented codes: for a
  well-formed message whose expiry lies within the clock skew of the end of the
  year 9999, the addition \<open>expires + clock_skew\<close> raises \<open>OverflowError\<close>.
\<close>

theorem check_temporal_overflows:
  assumes "parse_instant issued_at = Some issued" "parse_instant expires_at = Some expires"
    and "issued \<le> expires" "datetime_end \<le> expires + skew"
  shows "check_temporal issued_at expires_at (Aware now) skew = Inl DatetimeOverflow"
  using assms by (simp add: check_temporal_def add_delta_def)

theorem check_temporal_overflows_witness:
  "check_temporal ''9999-12-31T00:00:00Z'' ''9999-12-31T23:59:59Z'' (Aware 0) 60000000 = Inl DatetimeOverflow"
proof (rule check_temporal_overflows)
  show "parse_instant ''9999-12-31T00:00:00Z'' = Some 315537811200000000"
    by (simp add: parse_instant_def matches_template_def instant_template_def is_digit_iff fraction_digits_def
        make_datetime_def days_in_month_def is_leap_def days_before_year_def digits_value_def)
  show "parse_instant ''9999-12-31T23:59:59Z'' = Some 315537897599000000"
    by (simp add: parse_instant_def matches_template_def instant_template_def is_digit_iff fraction_digits_def
        make_datetime_def days_in_month_def is_leap_def days_before_year_def digits_value_def)
qed (simp_all add: datetime_end_def)

text \<open>
  For well-formed timestamps in whole seconds, comparing the strings is comparing
  the instants, across months, leap years and centuries.
\<close>

theorem timestamp_order:
  assumes "parse_instant v = Some t" "parse_instant w = Some u" "whole_second v" "whole_second w"
  shows "t < u \<longleftrightarrow> v < w"
  using assms by (rule instant_order)

theorem timestamp_order_witness:
  "''2024-02-29T23:59:59Z'' < ''2024-03-01T00:00:00Z'' \<longleftrightarrow> (63844847999000000 :: int) < 63844848000000000"
proof -
  have 1: "parse_instant ''2024-02-29T23:59:59Z'' = Some 63844847999000000"
    by (simp add: parse_instant_def matches_template_def instant_template_def is_digit_iff fraction_digits_def
        make_datetime_def days_in_month_def is_leap_def days_before_year_def digits_value_def)
  have 2: "parse_instant ''2024-03-01T00:00:00Z'' = Some 63844848000000000"
    by (simp add: parse_instant_def matches_template_def instant_template_def is_digit_iff fraction_digits_def
        make_datetime_def days_in_month_def is_leap_def days_before_year_def digits_value_def)
  show ?thesis using timestamp_order [OF 1 2] by (simp add: whole_second_def)
qed

text \<open>
  With a fraction the two orders differ: half a second later, the text is smaller.
\<close>

lemma fraction_reverses_order:
  "parse_instant ''2024-01-01T00:00:00Z'' = Some 63839664000000000"
  "parse_instant ''2024-01-01T00:00:00.5Z'' = Some 63839664000500000"
  "''2024-01-01T00:00:00.5Z'' < ''2024-01-01T00:00:00Z''"
  by (simp_all add: parse_instant_def matches_template_def instant_template_def is_digit_iff fraction_digits_def
      make_datetime_def days_in_month_def is_leap_def days_before_year_def digits_value_def less_char_def)

lemma sample_times:
  "parse_instant ''2024-01-01T00:00:00Z'' = Some 63839664000000000"
  "parse_instant ''2024-03-01T00:00:00Z'' = Some 63844848000000000"
  by (simp_all add: parse_instant_def matches_template_def instant_template_def is_digit_iff fraction_digits_def
      make_datetime_def days_in_month_def is_leap_def days_before_year_def digits_value_def)

end
