(* ===== verification/Node_Id.thy ===== *)
theory Node_Id
  imports Utf8
begin

text \<open>
  \<open>identity/node_id.py\<close>: the canonical text form of a NodeID and its derivation,
  and the link subjects \<open>topology/model.py\<close> builds from two NodeIDs.  SHA-256 is
  the parameter \<open>sha256_hex\<close>, of which the code relies only on its output being 64
  lowercase hexadecimal digits (\<open>digest_fun\<close>).
\<close>

section \<open>NodeIDs\<close>

record node_id =
  profile_id :: string
  digest_hex :: string

datatype node_id_error = NodeIdMalformed | UnsupportedDerivation | BadIdentityKey | BadProfile

definition node_prefix :: string where
  "node_prefix = ''adcos:node:''"

definition lower_alnum :: "char \<Rightarrow> bool" where
  "lower_alnum c \<longleftrightarrow> CHR ''a'' \<le> c \<and> c \<le> CHR ''z'' \<or> CHR ''0'' \<le> c \<and> c \<le> CHR ''9''"

definition lower_hex :: "char \<Rightarrow> bool" where
  "lower_hex c \<longleftrightarrow> CHR ''0'' \<le> c \<and> c \<le> CHR ''9'' \<or> CHR ''a'' \<le> c \<and> c \<le> CHR ''f''"

fun split_on :: "'a \<Rightarrow> 'a list \<Rightarrow> 'a list list" where
  "split_on c [] = [[]]"
| "split_on c (x # xs) =
     (if x = c then [] # split_on c xs
      else case split_on c xs of s # ss \<Rightarrow> (x # s) # ss | [] \<Rightarrow> [[x]])"

definition profile_segment :: "string \<Rightarrow> bool" where
  \<comment> \<open>\<open>[a-z0-9][a-z0-9-]*\<close>\<close>
  "profile_segment s \<longleftrightarrow>
     (case s of [] \<Rightarrow> False
      | c # r \<Rightarrow> lower_alnum c \<and> list_all (\<lambda>x. lower_alnum x \<or> x = CHR ''-'') r)"

definition profile_ok :: "string \<Rightarrow> bool" where
  "profile_ok p \<longleftrightarrow> (let ss = split_on CHR ''.'' p in 2 \<le> length ss \<and> list_all profile_segment ss)"

definition digest_ok :: "string \<Rightarrow> bool" where
  "digest_ok d \<longleftrightarrow> length d = 64 \<and> list_all lower_hex d"

definition match_node_id :: "string \<Rightarrow> (string \<times> string) option" where
  \<comment> \<open>\<open>_NODE_ID_RE.fullmatch\<close>, with its two groups; the profile segment has no colon\<close>
  "match_node_id v =
     (if take 11 v \<noteq> node_prefix then None
      else let r = drop 11 v;
               p = takeWhile (\<lambda>c. c \<noteq> CHR '':'') r;
               t = dropWhile (\<lambda>c. c \<noteq> CHR '':'') r
           in if t \<noteq> [] \<and> profile_ok p \<and> digest_ok (tl t) then Some (p, tl t) else None)"

definition node_text :: "node_id \<Rightarrow> string" where
  "node_text n = node_prefix @ profile_id n @ '':'' @ digest_hex n"

definition make_node_id :: "string \<Rightarrow> string \<Rightarrow> node_id_error + node_id" where
  \<comment> \<open>the constructor with its \<open>__post_init__\<close>\<close>
  "make_node_id p d =
     (let n = \<lparr>profile_id = p, digest_hex = d\<rparr>
      in if match_node_id (node_text n) = None then Inl NodeIdMalformed else Inr n)"

definition parse_node_id :: "string \<Rightarrow> node_id_error + node_id" where
  "parse_node_id v =
     (case match_node_id v of
        None \<Rightarrow> Inl NodeIdMalformed
      | Some (p, d) \<Rightarrow> make_node_id p d)"

definition utf8_bytes :: "string \<Rightarrow> bytes" where
  \<comment> \<open>\<open>s.encode("utf-8")\<close>; a \<open>string\<close> has no surrogates, so it never raises\<close>
  "utf8_bytes s = the (utf8_encode (lit s))"

definition derive_node_id ::
    "(bytes \<Rightarrow> string) \<Rightarrow> string \<Rightarrow> bytes \<Rightarrow> string \<Rightarrow> string \<Rightarrow> node_id_error + node_id" where
  "derive_node_id sha256_hex profile key rule separation =
     (if rule \<noteq> ''sha256-domain-v1'' then Inl UnsupportedDerivation
      else if key = [] then Inl BadIdentityKey
      else if profile = '''' then Inl BadProfile
      else make_node_id profile
             (sha256_hex (utf8_bytes separation @ [0] @ utf8_bytes profile @ [0] @ key)))"

definition digest_fun :: "(bytes \<Rightarrow> string) \<Rightarrow> bool" where
  \<comment> \<open>what \<open>hashlib.sha256(...).hexdigest()\<close> documents\<close>
  "digest_fun h \<longleftrightarrow> (\<forall>b. digest_ok (h b))"

abbreviation node_ok :: "string \<Rightarrow> bool" where
  \<comment> \<open>\<open>parse_node_id\<close> does not raise\<close>
  "node_ok v \<equiv> isOk (parse_node_id v)"

section \<open>Link subjects\<close>

datatype link_error = LinkEndpoint | LinkSubject

definition make_link_subject :: "string \<Rightarrow> string \<Rightarrow> link_error + string" where
  "make_link_subject a b =
     (case (parse_node_id a, parse_node_id b) of
        (Inr na, Inr nb) \<Rightarrow>
          let x = node_text na; y = node_text nb in
          if x = y then Inl LinkEndpoint
          else if x \<le> y then Inr (''link:'' @ x @ '':'' @ y) else Inr (''link:'' @ y @ '':'' @ x)
      | _ \<Rightarrow> Inl LinkEndpoint)"

fun find_sub :: "string \<Rightarrow> string \<Rightarrow> nat option" where
  \<comment> \<open>\<open>s.find(sep)\<close>\<close>
  "find_sub sep s =
     (if take (length sep) s = sep then Some 0
      else case s of [] \<Rightarrow> None | _ # t \<Rightarrow> map_option Suc (find_sub sep t))"

definition parse_link_subject :: "string \<Rightarrow> link_error + (string \<times> string)" where
  "parse_link_subject v =
     (if take 5 v \<noteq> ''link:'' then Inl LinkSubject
      else if take 11 (drop 5 v) \<noteq> node_prefix then Inl LinkSubject
      else let r = drop 16 v; sep = '':'' @ node_prefix in
        case find_sub sep r of
          None \<Rightarrow> Inl LinkSubject
        | Some i \<Rightarrow>
            (case (parse_node_id (node_prefix @ take i r),
                   parse_node_id (node_prefix @ drop (i + length sep) r)) of
               (Inr a, Inr b) \<Rightarrow> Inr (node_text a, node_text b)
             | _ \<Rightarrow> Inl LinkSubject))"

declare find_sub.simps [simp del]

section \<open>Lemmas\<close>

lemma lower_alnum_not_colon: "lower_alnum c \<Longrightarrow> c \<noteq> CHR '':'' \<and> c \<noteq> CHR ''.''"
  by (auto simp: lower_alnum_def less_eq_char_def)

lemma set_split_on: "set xs \<subseteq> insert c (\<Union>(set ` set (split_on c xs)))"
proof (induction xs)
  case (Cons x xs)
  then show ?case by (cases "split_on c xs") auto
qed simp

lemma profile_segment_no_colon: "profile_segment s \<Longrightarrow> CHR '':'' \<notin> set s"
  by (auto simp: profile_segment_def list_all_iff split: list.splits dest: lower_alnum_not_colon)

lemma profile_no_colon: "profile_ok p \<Longrightarrow> CHR '':'' \<notin> set p"
proof
  assume "profile_ok p" "CHR '':'' \<in> set p"
  with set_split_on [of p "CHR ''.''"] obtain s where "s \<in> set (split_on CHR ''.'' p)" "CHR '':'' \<in> set s"
    by auto
  moreover have "profile_segment s" using \<open>profile_ok p\<close> calculation(1)
    by (simp add: profile_ok_def Let_def list_all_iff)
  ultimately show False using profile_segment_no_colon by blast
qed

lemma match_node_id_iff:
  "match_node_id v = Some (p, d) \<longleftrightarrow> v = node_prefix @ p @ '':'' @ d \<and> profile_ok p \<and> digest_ok d"
proof
  assume m: "match_node_id v = Some (p, d)"
  define r where "r = drop 11 v"
  from m have v: "v = node_prefix @ r"
    by (auto simp: match_node_id_def r_def split: if_splits) (metis append_take_drop_id)
  from m have "p = takeWhile (\<lambda>c. c \<noteq> CHR '':'') r" "dropWhile (\<lambda>c. c \<noteq> CHR '':'') r \<noteq> []"
    "d = tl (dropWhile (\<lambda>c. c \<noteq> CHR '':'') r)" "profile_ok p" "digest_ok d"
    by (auto simp: match_node_id_def Let_def r_def split: if_splits)
  moreover from this(2) have "hd (dropWhile (\<lambda>c. c \<noteq> CHR '':'') r) = CHR '':''"
    using hd_dropWhile by blast
  ultimately have "r = p @ CHR '':'' # d"
    by (metis list.collapse takeWhile_dropWhile_id)
  with v \<open>profile_ok p\<close> \<open>digest_ok d\<close>
  show "v = node_prefix @ p @ '':'' @ d \<and> profile_ok p \<and> digest_ok d" by simp
next
  assume a: "v = node_prefix @ p @ '':'' @ d \<and> profile_ok p \<and> digest_ok d"
  have "takeWhile (\<lambda>c. c \<noteq> CHR '':'') (p @ CHR '':'' # d) = p"
    "dropWhile (\<lambda>c. c \<noteq> CHR '':'') (p @ CHR '':'' # d) = CHR '':'' # d"
    using profile_no_colon [of p] a by (auto simp: takeWhile_append dropWhile_append)
  with a show "match_node_id v = Some (p, d)"
    by (simp add: match_node_id_def Let_def node_prefix_def)
qed

lemma colon_split:
  assumes "a @ c # b = p @ c # d" "c \<notin> set a" "c \<notin> set b"
  shows "a = p \<and> b = d"
  using assms by (auto simp: append_eq_append_conv2 Cons_eq_append_conv append_eq_Cons_conv)

lemma digest_no_colon: "digest_ok d \<Longrightarrow> CHR '':'' \<notin> set d"
  by (auto simp: digest_ok_def list_all_iff lower_hex_def less_eq_char_def)

lemma make_node_id_iff:
  "make_node_id p d = Inr n \<longleftrightarrow> n = \<lparr>profile_id = p, digest_hex = d\<rparr> \<and> profile_ok p \<and> digest_ok d"
proof -
  have "match_node_id (node_prefix @ p @ '':'' @ d) \<noteq> None \<longleftrightarrow> profile_ok p \<and> digest_ok d"
  proof
    assume "match_node_id (node_prefix @ p @ '':'' @ d) \<noteq> None"
    then obtain a b where "p @ CHR '':'' # d = a @ CHR '':'' # b" "profile_ok a" "digest_ok b"
      by (auto simp: match_node_id_iff)
    with colon_split [of a "CHR '':''" b p d] profile_no_colon digest_no_colon
    show "profile_ok p \<and> digest_ok d" by auto
  next
    assume "profile_ok p \<and> digest_ok d"
    then have "match_node_id (node_prefix @ p @ '':'' @ d) = Some (p, d)" by (simp only: match_node_id_iff)
    then show "match_node_id (node_prefix @ p @ '':'' @ d) \<noteq> None" by simp
  qed
  then show ?thesis by (auto simp: make_node_id_def node_text_def)
qed

lemma parse_node_id_iff:
  "parse_node_id v = Inr n \<longleftrightarrow> v = node_text n \<and> profile_ok (profile_id n) \<and> digest_ok (digest_hex n)"
proof -
  have "parse_node_id v = Inr n \<longleftrightarrow> (\<exists>p d. match_node_id v = Some (p, d) \<and> make_node_id p d = Inr n)"
    by (auto simp: parse_node_id_def split: option.splits)
  then show ?thesis
    by (cases n) (auto simp: match_node_id_iff make_node_id_iff node_text_def)
qed

lemma parse_node_id_text: "parse_node_id v = Inr n \<Longrightarrow> node_text n = v"
  by (simp add: parse_node_id_iff)

lemma node_ok_cases:
  assumes "node_ok v"
  obtains n where "parse_node_id v = Inr n" "node_text n = v"
  using assms parse_node_id_text by (auto simp: isOk_iff)

lemma derive_node_id_ok:
  assumes "derive_node_id H p key rule sep = Inr n" and "digest_fun H"
  shows "profile_id n = p \<and> parse_node_id (node_text n) = Inr n"
  using assms by (auto simp: derive_node_id_def parse_node_id_iff make_node_id_iff split: if_splits)

subsection \<open>Link subjects\<close>

lemma find_sub_Cons:
  "take (length sep) (c # s) \<noteq> sep \<Longrightarrow> find_sub sep (c # s) = map_option Suc (find_sub sep s)"
  by (subst find_sub.simps) simp

lemma find_sub_skip:
  assumes "CHR '':'' \<notin> set p"
  shows "find_sub (CHR '':'' # sep) (p @ s) = map_option (\<lambda>i. length p + i) (find_sub (CHR '':'' # sep) s)"
  using assms
proof (induction p)
  case (Cons c p)
  then have "take (length (CHR '':'' # sep)) (c # p @ s) \<noteq> CHR '':'' # sep" by auto
  from find_sub_Cons [OF this] Cons show ?case by (simp add: option.map_comp comp_def)
qed (cases "find_sub (CHR '':'' # sep) s", simp_all)

lemma find_sub_SomeD: "find_sub sep s = Some i \<Longrightarrow> s = take i s @ sep @ drop (i + length sep) s"
proof (induction s arbitrary: i)
  case Nil
  then show ?case by (subst (asm) find_sub.simps) (auto split: if_splits)
next
  case (Cons c s)
  show ?case
  proof (cases "take (length sep) (c # s) = sep")
    case True
    with Cons.prems have "i = 0" by (subst (asm) find_sub.simps) simp
    with True show ?thesis by (metis append_Nil append_take_drop_id plus_nat.add_0 take_0)
  next
    case False
    with Cons.prems find_sub_Cons [OF False] obtain j where "find_sub sep s = Some j" "i = Suc j" by auto
    with Cons.IH [of j] show ?thesis by simp
  qed
qed

lemma find_node_separator:
  assumes "profile_ok p" and "digest_ok d"
  shows "find_sub ('':'' @ node_prefix) (p @ '':'' @ d @ ('':'' @ node_prefix) @ w)
    = Some (length (p @ '':'' @ d))"
proof -
  let ?s = "CHR '':'' # node_prefix"
  from assms(2) obtain d1 d2 d3 d4 d' where d: "d = d1 # d2 # d3 # d4 # d'" and "lower_hex d4"
    by (auto simp: digest_ok_def length_Suc_conv eval_nat_numeral)
  then have d4: "d4 \<noteq> CHR ''o''" by (auto simp: lower_hex_def less_eq_char_def)
  have "find_sub ?s (d @ ?s @ w) = Some (length d)"
  proof -
    have "find_sub ?s (?s @ w) = Some 0" by (subst find_sub.simps) simp
    then show ?thesis using find_sub_skip [OF digest_no_colon [OF assms(2)], of node_prefix "?s @ w"] by simp
  qed
  moreover have "take (length ?s) (CHR '':'' # d @ ?s @ w) \<noteq> ?s"
    using d4 by (simp add: d node_prefix_def)
  ultimately have "find_sub ?s (CHR '':'' # d @ ?s @ w) = Some (Suc (length d))"
    using find_sub_Cons [of ?s "CHR '':''" "d @ ?s @ w"] by simp
  then show ?thesis
    using find_sub_skip [OF profile_no_colon [OF assms(1)], of node_prefix "CHR '':'' # d @ ?s @ w"] by simp
qed

lemma parse_link_subject_iff:
  "parse_link_subject v = Inr (a, b) \<longleftrightarrow> v = ''link:'' @ a @ '':'' @ b \<and> node_ok a \<and> node_ok b"
proof
  assume p: "parse_link_subject v = Inr (a, b)"
  define r where "r = drop 16 v"
  from p obtain i na nb where 1: "take 5 v = ''link:''" "take 11 (drop 5 v) = node_prefix"
    and i: "find_sub ('':'' @ node_prefix) r = Some i"
    and na: "parse_node_id (node_prefix @ take i r) = Inr na" "a = node_text na"
    and nb: "parse_node_id (node_prefix @ drop (i + length ('':'' @ node_prefix)) r) = Inr nb" "b = node_text nb"
    by (auto simp: parse_link_subject_def Let_def r_def split: if_splits option.splits sum.splits)
  have "v = ''link:'' @ node_prefix @ r"
    using 1 append_take_drop_id [of 5 v] append_take_drop_id [of 11 "drop 5 v"] by (simp add: r_def)
  moreover from find_sub_SomeD [OF i]
  have "r = take i r @ ('':'' @ node_prefix) @ drop (i + length ('':'' @ node_prefix)) r" .
  moreover have "a = node_prefix @ take i r" "b = node_prefix @ drop (i + length ('':'' @ node_prefix)) r"
    using parse_node_id_text [OF na(1)] parse_node_id_text [OF nb(1)] na(2) nb(2) by simp_all
  ultimately have "v = ''link:'' @ a @ '':'' @ b" by (metis append.assoc)
  with na nb parse_node_id_text [OF na(1)] parse_node_id_text [OF nb(1)]
  show "v = ''link:'' @ a @ '':'' @ b \<and> node_ok a \<and> node_ok b" by (simp add: isOk_iff)
next
  assume a: "v = ''link:'' @ a @ '':'' @ b \<and> node_ok a \<and> node_ok b"
  then obtain na nb where na: "parse_node_id a = Inr na" and nb: "parse_node_id b = Inr nb"
    by (auto simp: isOk_iff)
  from na have a': "a = node_prefix @ profile_id na @ '':'' @ digest_hex na"
    and ok: "profile_ok (profile_id na)" "digest_ok (digest_hex na)"
    by (auto simp: parse_node_id_iff node_text_def)
  from nb obtain b' where b': "b = node_prefix @ b'" by (auto simp: parse_node_id_iff node_text_def)
  let ?p = "profile_id na @ '':'' @ digest_hex na"
  have r: "drop 16 v = ?p @ ('':'' @ node_prefix) @ b'"
    using a a' b' by (simp add: node_prefix_def)
  have f: "find_sub ('':'' @ node_prefix) (drop 16 v) = Some (length ?p)"
    unfolding r using find_node_separator [OF ok, of b'] by simp
  have t: "node_prefix @ take (length ?p) (drop 16 v) = a"
    "node_prefix @ drop (length ?p + length ('':'' @ node_prefix)) (drop 16 v) = b"
    unfolding r using a' b' by simp_all
  have "take 5 v = ''link:''" "take 11 (drop 5 v) = node_prefix"
    using a a' by (simp_all add: node_prefix_def)
  then show "parse_link_subject v = Inr (a, b)"
    unfolding parse_link_subject_def Let_def f
    using na nb t parse_node_id_text [OF na] parse_node_id_text [OF nb] by simp
qed

lemma make_link_subject_iff:
  "make_link_subject a b = Inr v \<longleftrightarrow> node_ok a \<and> node_ok b \<and> a \<noteq> b \<and>
     v = ''link:'' @ min a b @ '':'' @ max a b"
  by (cases "parse_node_id a"; cases "parse_node_id b")
    (auto simp: make_link_subject_def Let_def parse_node_id_text min_def max_def)

lemma make_link_subject_commute: "make_link_subject a b = make_link_subject b a"
  by (cases "parse_node_id a"; cases "parse_node_id b")
    (auto simp: make_link_subject_def Let_def parse_node_id_text)

section \<open>Sample NodeIDs\<close>

definition sample_node :: "char \<Rightarrow> string" where
  \<comment> \<open>NodeIDs the witnesses evaluate on\<close>
  "sample_node c = node_prefix @ ''example.node'' @ '':'' @ replicate 64 c"

lemma sample_node_parse:
  "lower_hex c \<Longrightarrow>
   parse_node_id (sample_node c) = Inr \<lparr>profile_id = ''example.node'', digest_hex = replicate 64 c\<rparr>"
  by (simp add: parse_node_id_iff node_text_def sample_node_def digest_ok_def list_all_iff profile_ok_def
      profile_segment_def lower_alnum_def less_eq_char_def)

lemma sample_node_ok [simp]: "lower_hex c \<Longrightarrow> node_ok (sample_node c)"
  by (simp add: sample_node_parse)

lemma sample_node_eq [simp]: "sample_node c = sample_node d \<longleftrightarrow> c = d"
  by (simp add: sample_node_def replicate_eq_replicate)

lemma sample_node_less [simp]: "sample_node c < sample_node d \<longleftrightarrow> c < d"
proof -
  have "replicate n c < replicate n d \<longleftrightarrow> n \<noteq> 0 \<and> c < d" for n by (induction n) auto
  then have "replicate 64 c < replicate 64 d \<longleftrightarrow> c < d" by simp
  moreover have "x @ a < x @ b \<longleftrightarrow> a < b" for x a b :: string by (induction x) auto
  ultimately show ?thesis by (simp only: sample_node_def)
qed

lemma sample_node_le [simp]: "sample_node c \<le> sample_node d \<longleftrightarrow> c \<le> d"
  by (auto simp: le_less)

lemma lower_hex_sample [simp]: "lower_hex CHR ''a''" "lower_hex CHR ''b''" "lower_hex CHR ''c''" "lower_hex CHR ''d''"
  by (simp_all add: lower_hex_def less_eq_char_def)

section \<open>Properties\<close>

text \<open>
  C35: A NodeID has one text: what \<open>parse_node_id\<close> accepts is exactly the text of the
  NodeID it returns, and every derived NodeID parses back to itself.
\<close>

theorem node_id_roundtrip:
  assumes "digest_fun sha256_hex"
  shows "(parse_node_id v = Inr n \<longrightarrow> node_text n = v) \<and>
    (derive_node_id sha256_hex p key rule sep = Inr m \<longrightarrow>
       parse_node_id (node_text m) = Inr m \<and> profile_id m = p)"
  using parse_node_id_text derive_node_id_ok [OF _ assms] by blast

theorem node_id_roundtrip_witness:
  "parse_node_id (node_text \<lparr>profile_id = ''a.b'', digest_hex = replicate 64 CHR ''0''\<rparr>)
     = Inr \<lparr>profile_id = ''a.b'', digest_hex = replicate 64 CHR ''0''\<rparr>"
proof -
  let ?h = "\<lambda>_ :: bytes. replicate 64 CHR ''0''"
  have "digest_fun ?h" by (simp add: digest_fun_def digest_ok_def list_all_iff lower_hex_def)
  moreover have "derive_node_id ?h ''a.b'' [1] ''sha256-domain-v1'' ''x''
      = Inr \<lparr>profile_id = ''a.b'', digest_hex = replicate 64 CHR ''0''\<rparr>"
    by (simp add: derive_node_id_def make_node_id_iff digest_ok_def list_all_iff profile_ok_def profile_segment_def
        lower_alnum_def lower_hex_def less_eq_char_def)
  ultimately show ?thesis using node_id_roundtrip by blast
qed

text \<open>
  A link subject built from two NodeIDs does not depend on their order and
  parses back to the two endpoints, in sorted order.
\<close>

theorem link_subject_roundtrip:
  assumes "make_link_subject a b = Inr v"
  shows "parse_link_subject v = Inr (min a b, max a b) \<and> make_link_subject b a = Inr v"
  using assms by (auto simp: make_link_subject_commute [of b a] make_link_subject_iff parse_link_subject_iff
      min_def max_def)

theorem link_subject_roundtrip_witness:
  "parse_link_subject (''link:'' @ sample_node CHR ''a'' @ '':'' @ sample_node CHR ''b'')
     = Inr (sample_node CHR ''a'', sample_node CHR ''b'')"
proof -
  have ab: "sample_node CHR ''a'' < sample_node CHR ''b''" by (simp add: less_char_def)
  then have "make_link_subject (sample_node CHR ''b'') (sample_node CHR ''a'')
      = Inr (''link:'' @ sample_node CHR ''a'' @ '':'' @ sample_node CHR ''b'')"
    by (simp add: make_link_subject_iff min_def max_def less_eq_char_def)
  from link_subject_roundtrip [OF this] show ?thesis by (simp add: min_def max_def less_eq_char_def)
qed

text \<open>
  The parser of link subjects accepts more than the constructor makes: the link
  from a node to itself, and a link with its endpoints in descending order, both
  parse, although no pair of endpoints is ever given such a subject.
\<close>

theorem link_subject_parser_is_lax:
  assumes "node_ok a" "node_ok b" "b < a"
  shows "parse_link_subject (''link:'' @ a @ '':'' @ a) = Inr (a, a) \<and> make_link_subject a a = Inl LinkEndpoint \<and>
    parse_link_subject (''link:'' @ a @ '':'' @ b) = Inr (a, b) \<and>
    (\<forall>x y. make_link_subject x y \<noteq> Inr (''link:'' @ a @ '':'' @ b))"
proof -
  have "make_link_subject x y \<noteq> Inr (''link:'' @ a @ '':'' @ b)" for x y
  proof
    assume m: "make_link_subject x y = Inr (''link:'' @ a @ '':'' @ b)"
    then have "parse_link_subject (''link:'' @ a @ '':'' @ b) = Inr (min x y, max x y)"
      by (auto simp: make_link_subject_iff parse_link_subject_iff min_def max_def)
    moreover have "parse_link_subject (''link:'' @ a @ '':'' @ b) = Inr (a, b)"
      using assms by (simp add: parse_link_subject_iff)
    ultimately have "a = min x y" "b = max x y" by simp_all
    with assms(3) show False by (auto simp: min_def max_def split: if_splits)
  qed
  moreover have "make_link_subject a a = Inl LinkEndpoint"
    by (cases "parse_node_id a") (auto simp: make_link_subject_def)
  ultimately show ?thesis using assms by (simp add: parse_link_subject_iff)
qed

theorem link_subject_parser_is_lax_witness:
  "parse_link_subject (''link:'' @ sample_node CHR ''b'' @ '':'' @ sample_node CHR ''b'')
     = Inr (sample_node CHR ''b'', sample_node CHR ''b'')"
  using link_subject_parser_is_lax [of "sample_node CHR ''b''" "sample_node CHR ''a''"] by (simp add: less_char_def)

end
