(* ===== verification/Convergence.thy ===== *)
theory Convergence
  imports Adcos_Prelude
begin

text \<open>
  The contract shared by the three stores that merge sequenced, attributable
  records: topology claims, resource offers and resource measurements.  The locale
  \<open>convergent_store\<close> states, branch by branch, what one merge does to the current
  record, the watermark, the unresolved conflicts and the history of a key; the
  lemmas show that such a store implements the \<open>frontier\<close> of the set of records
  merged into it, whatever their order and multiplicity.
\<close>

section \<open>Outcomes\<close>

datatype merge_code = ReplayStale | Idempotent | ConflictPreserved | Accepted

record 'c merge_outcome =
  outcome_accepted :: bool
  outcome_code :: merge_code
  outcome_record :: "'c option"

section \<open>The frontier of a set of records\<close>

definition frontier :: "('c \<Rightarrow> 'k) \<Rightarrow> ('c \<Rightarrow> int) \<Rightarrow> 'c set \<Rightarrow> 'k \<Rightarrow> 'c set" where
  \<comment> \<open>the records of a key with the highest sequence\<close>
  "frontier key seq C k = {c \<in> C. key c = k \<and> (\<forall>d \<in> C. key d = k \<longrightarrow> seq d \<le> seq c)}"

lemma frontier_empty [simp]: "frontier key seq {} k = {}"
  by (simp add: frontier_def)

lemma frontier_other: "key c \<noteq> k \<Longrightarrow> frontier key seq (insert c C) k = frontier key seq C k"
  by (auto simp: frontier_def)

lemma frontier_seq: "c \<in> frontier key seq C k \<Longrightarrow> d \<in> frontier key seq C k \<Longrightarrow> seq c = seq d"
  by (auto simp: frontier_def intro: antisym)

lemma frontier_nonempty:
  assumes "finite C" "d \<in> C" "key d = k"
  obtains c where "c \<in> frontier key seq C k"
proof -
  let ?D = "{d \<in> C. key d = k}"
  have fin: "finite (seq ` ?D)" "seq ` ?D \<noteq> {}" using assms by auto
  have "Max (seq ` ?D) \<in> seq ` ?D" using fin by (rule Max_in)
  then obtain c where c: "c \<in> ?D" "seq c = Max (seq ` ?D)" by auto
  then have "c \<in> frontier key seq C k" using fin by (auto simp: frontier_def)
  then show thesis by (rule that)
qed

lemma frontier_insert:
  assumes "finite C" "key c = k"
  shows "frontier key seq C k = {} \<Longrightarrow> frontier key seq (insert c C) k = {c}"
    and "m \<in> frontier key seq C k \<Longrightarrow> seq c < seq m \<Longrightarrow> frontier key seq (insert c C) k = frontier key seq C k"
    and "m \<in> frontier key seq C k \<Longrightarrow> seq c = seq m \<Longrightarrow> frontier key seq (insert c C) k = insert c (frontier key seq C k)"
    and "m \<in> frontier key seq C k \<Longrightarrow> seq m < seq c \<Longrightarrow> frontier key seq (insert c C) k = {c}"
proof -
  assume "frontier key seq C k = {}"
  then have "d \<in> C \<Longrightarrow> key d \<noteq> k" for d using frontier_nonempty [OF assms(1), of d key k seq] by auto
  then show "frontier key seq (insert c C) k = {c}" using assms(2) by (auto simp: frontier_def)
next
  assume m: "m \<in> frontier key seq C k" and less: "seq c < seq m"
  have "m \<in> C" "key m = k" using m by (simp_all add: frontier_def)
  then show "frontier key seq (insert c C) k = frontier key seq C k"
    using less assms(2) by (fastforce simp: frontier_def)
next
  assume m: "m \<in> frontier key seq C k" and eq: "seq c = seq m"
  then have max: "d \<in> C \<Longrightarrow> key d = k \<Longrightarrow> seq d \<le> seq c" for d by (simp add: frontier_def)
  have "d \<in> frontier key seq (insert c C) k \<longleftrightarrow> d \<in> insert c (frontier key seq C k)" for d
    using m eq max assms(2) by (auto simp: frontier_def intro: order_trans)
  then show "frontier key seq (insert c C) k = insert c (frontier key seq C k)" by blast
next
  assume m: "m \<in> frontier key seq C k" and less: "seq m < seq c"
  then have max: "d \<in> C \<Longrightarrow> key d = k \<Longrightarrow> seq d < seq c" for d by (force simp: frontier_def)
  have "d \<in> frontier key seq (insert c C) k \<longleftrightarrow> d = c" for d
  proof (cases "d = c")
    case False
    have "\<not> (d \<in> C \<and> key d = k \<and> seq c \<le> seq d)" using max [of d] by auto
    with False assms(2) show ?thesis by (auto simp: frontier_def)
  next
    case True
    then show ?thesis using max assms(2) by (auto simp: frontier_def less_imp_le)
  qed
  then show "frontier key seq (insert c C) k = {c}" by blast
qed

section \<open>The contract\<close>

locale convergent_store =
  fixes key :: "'c \<Rightarrow> 'k" and seq :: "'c \<Rightarrow> int" and cid :: "'c \<Rightarrow> 'i"
    and merge :: "'s \<Rightarrow> 'c \<Rightarrow> 's \<times> 'c merge_outcome"
    and current :: "'s \<Rightarrow> 'k \<Rightarrow> 'c option" and watermark :: "'s \<Rightarrow> 'k \<Rightarrow> int"
    and conflicts :: "'s \<Rightarrow> 'k \<Rightarrow> 'c list" and historical :: "'s \<Rightarrow> 'k \<Rightarrow> 'c list"
    and empty :: 's
  assumes start: "current empty k = None" "watermark empty k = 0" "conflicts empty k = []"
      "historical empty k = []"
    and other: "k \<noteq> key c \<Longrightarrow> current (fst (merge s c)) k = current s k"
      "k \<noteq> key c \<Longrightarrow> watermark (fst (merge s c)) k = watermark s k"
      "k \<noteq> key c \<Longrightarrow> conflicts (fst (merge s c)) k = conflicts s k"
      "k \<noteq> key c \<Longrightarrow> historical (fst (merge s c)) k = historical s k"
    and stale: "seq c < watermark s (key c) \<Longrightarrow>
      merge s c = (s, \<lparr>outcome_accepted = False, outcome_code = ReplayStale, outcome_record = None\<rparr>)"
    and same: "seq c = watermark s (key c) \<Longrightarrow> current s (key c) = Some e \<Longrightarrow> cid e = cid c \<Longrightarrow>
      merge s c = (s, \<lparr>outcome_accepted = True, outcome_code = Idempotent, outcome_record = Some c\<rparr>)"
    and clash: "seq c = watermark s (key c) \<Longrightarrow> (\<forall>e. current s (key c) = Some e \<longrightarrow> cid e \<noteq> cid c) \<Longrightarrow>
      snd (merge s c) = \<lparr>outcome_accepted = True, outcome_code = ConflictPreserved, outcome_record = Some c\<rparr> \<and>
      watermark (fst (merge s c)) (key c) = watermark s (key c) \<and>
      historical (fst (merge s c)) (key c) = historical s (key c) \<and>
      (let old = conflicts s (key c);
           moved = (case current s (key c) of
                      None \<Rightarrow> False | Some e \<Rightarrow> cid e \<notin> cid ` set old);
           bucket = (if moved then old @ [the (current s (key c))] else old)
       in current (fst (merge s c)) (key c) = (if moved then None else current s (key c)) \<and>
          conflicts (fst (merge s c)) (key c) = (if cid c \<in> cid ` set bucket then bucket else bucket @ [c]))"
    and newer: "watermark s (key c) < seq c \<Longrightarrow>
      snd (merge s c) = \<lparr>outcome_accepted = True, outcome_code = Accepted, outcome_record = Some c\<rparr> \<and>
      watermark (fst (merge s c)) (key c) = seq c \<and> current (fst (merge s c)) (key c) = Some c \<and>
      conflicts (fst (merge s c)) (key c) = [] \<and>
      historical (fst (merge s c)) (key c) =
        historical s (key c) @ (case current s (key c) of None \<Rightarrow> [] | Some e \<Rightarrow> [e]) @ conflicts s (key c)"
begin

definition merge_all :: "'c list \<Rightarrow> 's" where
  "merge_all cs = foldl (\<lambda>s c. fst (merge s c)) empty cs"

lemma merge_all_simps [simp]: "merge_all [] = empty" "merge_all (cs @ [c]) = fst (merge (merge_all cs) c)"
  by (simp_all add: merge_all_def)

lemma merge_cases:
  obtains (stale) "seq c < watermark s (key c)"
  | (same) e where "seq c = watermark s (key c)" "current s (key c) = Some e" "cid e = cid c"
  | (clash) "seq c = watermark s (key c)" "\<forall>e. current s (key c) = Some e \<longrightarrow> cid e \<noteq> cid c"
  | (newer) "watermark s (key c) < seq c"
  by (metis linorder_less_linear)

lemma watermark_mono: "watermark s k \<le> watermark (fst (merge s c)) k"
proof (cases "k = key c")
  case True
  show ?thesis
    by (cases rule: merge_cases [where s = s and c = c])
      (use True in \<open>auto simp: stale same clash newer\<close>)
qed (simp add: other)

lemma merge_code_iff:
  "outcome_code (snd (merge s c)) = ReplayStale \<longleftrightarrow> seq c < watermark s (key c)"
  "outcome_code (snd (merge s c)) = Accepted \<longleftrightarrow> watermark s (key c) < seq c"
  by (cases rule: merge_cases [where s = s and c = c]; auto simp: stale same clash newer)+

lemma not_accepted_unchanged: "\<not> outcome_accepted (snd (merge s c)) \<Longrightarrow> fst (merge s c) = s"
  by (cases rule: merge_cases [where s = s and c = c]) (auto simp: stale same clash newer)

definition held :: "'s \<Rightarrow> 'k \<Rightarrow> 'c set" where
  "held s k = set_option (current s k) \<union> set (conflicts s k) \<union> set (historical s k)"

lemma held_mono: "held s k \<subseteq> held (fst (merge s c)) k"
proof (cases "k = key c")
  case True
  show ?thesis
  proof (cases rule: merge_cases [where s = s and c = c])
    case clash
    with True convergent_store.clash [OF convergent_store_axioms clash] show ?thesis
      by (auto simp: held_def Let_def split: option.splits if_splits)
  next
    case newer
    with True show ?thesis
      by (auto simp: held_def convergent_store.newer [OF convergent_store_axioms newer])
  qed (use True in \<open>auto simp: stale same\<close>)
qed (simp add: held_def other)

text \<open>One key of the store represents the frontier of the records merged so far.\<close>

definition represents :: "'s \<Rightarrow> 'c set \<Rightarrow> 'k \<Rightarrow> bool" where
  "represents s C k \<longleftrightarrow>
     frontier key seq C k = set_option (current s k) \<union> set (conflicts s k) \<and>
     (\<forall>c \<in> frontier key seq C k. seq c = watermark s k) \<and>
     (frontier key seq C k = {} \<longrightarrow> watermark s k = 0) \<and>
     distinct (map cid (conflicts s k)) \<and>
     (conflicts s k = [] \<or> current s k = None \<and> 2 \<le> length (conflicts s k))"

lemma represents_empty: "represents empty {} k"
  by (simp add: represents_def start)

lemma represents_merge:
  assumes rep: "represents s C k" and fin: "finite C" and inj: "inj_on cid (insert c C)" and pos: "1 \<le> seq c"
  shows "represents (fst (merge s c)) (insert c C) k"
proof (cases "k = key c")
  case False
  then show ?thesis using rep by (simp add: represents_def frontier_other other)
next
  case True
  have sub: "frontier key seq C k \<subseteq> C" by (auto simp: frontier_def)
  have cinj: "d \<in> frontier key seq C k \<Longrightarrow> cid d = cid c \<longleftrightarrow> d = c" for d
    using inj sub by (auto simp: inj_on_def)
  show ?thesis
  proof (cases rule: merge_cases [where s = s and c = c])
    case stale
    then have "frontier key seq C k \<noteq> {}" using rep True pos by (auto simp: represents_def)
    then obtain m where m: "m \<in> frontier key seq C k" by blast
    then have "seq c < seq m" using rep stale True by (auto simp: represents_def)
    from frontier_insert(2) [OF fin _ m this] True rep show ?thesis
      by (simp add: represents_def convergent_store.stale [OF convergent_store_axioms stale])
  next
    case (same e)
    then have e: "e \<in> frontier key seq C k" using rep True by (auto simp: represents_def)
    with cinj same have "e = c" by blast
    with e have "insert c C = C" using sub by auto
    then show ?thesis using rep
      by (simp add: convergent_store.same [OF convergent_store_axioms same])
  next
    case clash
    then have "frontier key seq C k \<noteq> {}" using rep True pos by (auto simp: represents_def)
    then obtain m where m: "m \<in> frontier key seq C k" by blast
    then have "seq c = seq m" using rep clash True by (auto simp: represents_def)
    from frontier_insert(3) [OF fin _ m this] True
    have ins: "frontier key seq (insert c C) k = insert c (frontier key seq C k)" by simp
    note eff = convergent_store.clash [OF convergent_store_axioms clash, folded True, unfolded Let_def]
    show ?thesis
    proof (cases "current s k")
      case None
      then have fr: "frontier key seq C k = set (conflicts s k)" using rep by (auto simp: represents_def)
      have "cid c \<in> cid ` set (conflicts s k) \<longleftrightarrow> c \<in> set (conflicts s k)"
        using cinj fr by (metis image_iff)
      with eff None rep ins fr m show ?thesis
        by (auto simp: represents_def clash True)
    next
      case (Some e)
      then have fr: "frontier key seq C k = {e}" and none: "conflicts s k = []"
        using rep by (auto simp: represents_def)
      with eff Some rep ins clash show ?thesis
        by (auto simp: represents_def True)
    qed
  next
    case newer
    have "frontier key seq (insert c C) k = {c}"
    proof (cases "frontier key seq C k = {}")
      case False
      then obtain m where m: "m \<in> frontier key seq C k" by blast
      then have "seq m < seq c" using rep newer True by (auto simp: represents_def)
      with frontier_insert(4) [OF fin _ m this] True show ?thesis by simp
    qed (use frontier_insert(1) [OF fin, of key c k seq] True in simp)
    with convergent_store.newer [OF convergent_store_axioms newer] True show ?thesis
      by (simp add: represents_def)
  qed
qed

theorem merge_all_represents:
  assumes "inj_on cid (set cs)" and "\<forall>c \<in> set cs. 1 \<le> seq c"
  shows "represents (merge_all cs) (set cs) k"
  using assms
proof (induction cs rule: rev_induct)
  case (snoc c cs)
  then have "represents (merge_all cs) (set cs) k" by (simp add: inj_on_insert)
  then show ?case using represents_merge [of "merge_all cs" "set cs" k c] snoc.prems by simp
qed (simp add: represents_empty)

lemma represents_current:
  assumes "represents s C k"
  shows "current s k = Some c \<longleftrightarrow> frontier key seq C k = {c}"
    and "set (conflicts s k) = (if is_singleton (frontier key seq C k) then {} else frontier key seq C k)"
    and "watermark s k = (if frontier key seq C k = {} then 0 else seq (SOME c. c \<in> frontier key seq C k))"
proof -
  have many: "\<not> is_singleton (set xs)" if "distinct (map cid xs)" "2 \<le> length xs" for xs
    using that by (auto simp: is_singleton_def distinct_map dest: distinct_card)
  show "current s k = Some c \<longleftrightarrow> frontier key seq C k = {c}"
    using assms many [of "conflicts s k"] unfolding represents_def is_singleton_def
    by (cases "current s k") auto
  show "set (conflicts s k) = (if is_singleton (frontier key seq C k) then {} else frontier key seq C k)"
    using assms many [of "conflicts s k"] unfolding represents_def is_singleton_def
    by (cases "current s k") auto
  show "watermark s k = (if frontier key seq C k = {} then 0 else seq (SOME c. c \<in> frontier key seq C k))"
  proof (cases "frontier key seq C k = {}")
    case False
    then have "(SOME c. c \<in> frontier key seq C k) \<in> frontier key seq C k" by (simp add: some_in_eq)
    with False assms show ?thesis unfolding represents_def by simp
  qed (use assms in \<open>simp add: represents_def\<close>)
qed

theorem merge_all_order_independent:
  assumes "set cs = set ds" and "inj_on cid (set cs)" and "\<forall>c \<in> set cs. 1 \<le> seq c"
  shows "current (merge_all cs) k = current (merge_all ds) k"
    and "watermark (merge_all cs) k = watermark (merge_all ds) k"
    and "set (conflicts (merge_all cs) k) = set (conflicts (merge_all ds) k)"
    and "distinct (conflicts (merge_all cs) k)"
proof -
  have c: "represents (merge_all cs) (set cs) k" using assms by (rule_tac merge_all_represents)
  have d: "represents (merge_all ds) (set cs) k"
    using merge_all_represents [of ds k] assms by simp
  show "current (merge_all cs) k = current (merge_all ds) k"
    using represents_current(1) [OF c] represents_current(1) [OF d] by (metis not_Some_eq)
  show "watermark (merge_all cs) k = watermark (merge_all ds) k"
    using represents_current(3) [OF c] represents_current(3) [OF d] by simp
  show "set (conflicts (merge_all cs) k) = set (conflicts (merge_all ds) k)"
    using represents_current(2) [OF c] represents_current(2) [OF d] by simp
  show "distinct (conflicts (merge_all cs) k)" using c by (auto simp: represents_def distinct_map)
qed

end

section \<open>Stores kept in dictionaries\<close>

text \<open>
  The four attributes of a key are entries of dictionaries.  The extended contract says
  that a merge keeps the dictionaries well-formed; its lemmas give the live view in
  sorted order, which is what the queries iterate over.
\<close>

locale dictionary_store =
  convergent_store key seq cid merge "\<lambda>s. dget (cur s)" "\<lambda>s k. dgetd (wms s) k 0"
    "\<lambda>s k. dgetd (cons s) k []" "\<lambda>s k. dgetd (hist s) k []" empty
  for key :: "'c \<Rightarrow> 'k :: linorder" and seq :: "'c \<Rightarrow> int" and cid :: "'c \<Rightarrow> 'i :: linorder"
    and merge :: "'s \<Rightarrow> 'c \<Rightarrow> 's \<times> 'c merge_outcome"
    and cur :: "'s \<Rightarrow> ('k, 'c) dict" and wms :: "'s \<Rightarrow> ('k, int) dict"
    and cons :: "'s \<Rightarrow> ('k, 'c list) dict" and hist :: "'s \<Rightarrow> ('k, 'c list) dict" and empty :: 's +
  assumes start_dicts: "cur empty = []" "wms empty = []" "cons empty = []"
    and dicts: "dict_wf (cur s) \<Longrightarrow> dict_wf (cur (fst (merge s c)))"
      "dict_wf (wms s) \<Longrightarrow> dict_wf (wms (fst (merge s c)))"
      "dict_wf (cons s) \<Longrightarrow> dict_wf (cons (fst (merge s c)))"
    and buckets: "(\<And>k. dget (cons s) k \<noteq> Some []) \<Longrightarrow> dget (cons (fst (merge s c))) k \<noteq> Some []"
    and marks: "(\<And>k. dget (wms s) k \<noteq> Some 0) \<Longrightarrow> seq c \<noteq> 0 \<Longrightarrow> dget (wms (fst (merge s c))) k \<noteq> Some 0"
begin

definition well_kept :: "'s \<Rightarrow> bool" where
  "well_kept s \<longleftrightarrow> dict_wf (cur s) \<and> dict_wf (wms s) \<and> dict_wf (cons s) \<and>
     (\<forall>k. dget (cons s) k \<noteq> Some []) \<and> (\<forall>k. dget (wms s) k \<noteq> Some 0)"

lemma well_kept_merge: "well_kept s \<Longrightarrow> seq c \<noteq> 0 \<Longrightarrow> well_kept (fst (merge s c))"
  unfolding well_kept_def by (intro conjI allI dicts buckets marks) blast+

lemma well_kept_all: "\<forall>c \<in> set cs. 1 \<le> seq c \<Longrightarrow> well_kept (merge_all cs)"
proof (induction cs rule: rev_induct)
  case (snoc c cs)
  then show ?case using well_kept_merge [of "merge_all cs" c] by simp
qed (simp add: well_kept_def start_dicts)

definition filed :: "'c set \<Rightarrow> 's \<Rightarrow> bool" where
  \<comment> \<open>every record held was merged, and is held under its own key\<close>
  "filed C s \<longleftrightarrow> (\<forall>k. held s k \<subseteq> {c \<in> C. key c = k})"

lemma filed_mono: "filed C s \<Longrightarrow> C \<subseteq> D \<Longrightarrow> filed D s"
  unfolding filed_def by blast

lemma filed_merge:
  assumes "filed C s"
  shows "filed (insert c C) (fst (merge s c))"
proof -
  have "held (fst (merge s c)) k \<subseteq> {d \<in> insert c C. key d = k}" for k
  proof (cases "k = key c")
    case True
    have old: "held s k \<subseteq> {d \<in> C. key d = k}" using assms unfolding filed_def by blast
    have "held (fst (merge s c)) k \<subseteq> insert c (held s k)"
    proof (cases rule: merge_cases [where s = s and c = c])
      case clash
      from convergent_store.clash [OF convergent_store_axioms clash] True show ?thesis
        by (auto simp: held_def Let_def split: option.splits if_splits)
    next
      case newer
      from convergent_store.newer [OF convergent_store_axioms newer] True show ?thesis
        by (auto simp: held_def split: option.splits)
    qed (auto simp: stale same)
    with old True show ?thesis by blast
  next
    case False
    with assms show ?thesis by (auto simp: filed_def held_def other)
  qed
  then show ?thesis by (simp add: filed_def)
qed

lemma filed_all: "filed (set cs) (merge_all cs)"
proof (induction cs rule: rev_induct)
  case (snoc c cs)
  then show ?case using filed_merge [of "set cs" "merge_all cs" c] by simp
qed (simp add: filed_def held_def start)

lemma filed_current: "filed C s \<Longrightarrow> dget (cur s) k = Some c \<Longrightarrow> c \<in> C \<and> key c = k"
  unfolding filed_def held_def by (metis (mono_tags, lifting) Un_iff mem_Collect_eq option.set_intros subsetD)

lemma filed_current_mem: "filed C s \<Longrightarrow> well_kept s \<Longrightarrow> (k, c) \<in> set (cur s) \<Longrightarrow> c \<in> C \<and> key c = k"
  by (rule filed_current) (auto simp: well_kept_def)

lemma filed_conflict_mem:
  assumes "filed C s" "well_kept s" "(k, cs) \<in> set (cons s)" "c \<in> set cs"
  shows "c \<in> C \<and> key c = k"
proof -
  have "dgetd (cons s) k [] = cs" using assms(2,3) by (simp add: well_kept_def dgetd_def)
  with assms(4) have "c \<in> held s k" by (simp add: held_def)
  with assms(1) show ?thesis by (auto simp: filed_def)
qed

lemma live_view_members:
  assumes "filed C s" "well_kept s"
  shows "set (map snd (filter P (sort_key fst (cur s))) @ concat (map snd (filter Q (sort_key fst (cons s))))) \<subseteq> C"
  using filed_current_mem [OF assms] filed_conflict_mem [OF assms] by auto

definition sorted_conflicts :: "'s \<Rightarrow> ('k \<times> 'c list) list" where
  "sorted_conflicts s = map (\<lambda>kv. (fst kv, sort_key cid (snd kv))) (sort_key fst (cons s))"

lemma sorted_conflicts_alt: "sorted_conflicts s = sort_key fst (map (\<lambda>kv. (fst kv, sort_key cid (snd kv))) (cons s))"
  by (simp add: sorted_conflicts_def sort_key_map)

lemma cons_dget: "well_kept s \<Longrightarrow> dget (cons s) k = (if dgetd (cons s) k [] = [] then None else Some (dgetd (cons s) k []))"
  by (auto simp: dgetd_def well_kept_def split: option.splits)

lemma wms_dget: "well_kept s \<Longrightarrow> dget (wms s) k = (if dgetd (wms s) k 0 = 0 then None else Some (dgetd (wms s) k 0))"
  by (auto simp: dgetd_def well_kept_def split: option.splits)

theorem live_view_order_independent:
  assumes "set cs = set ds" "inj_on cid (set cs)" "\<forall>c \<in> set cs. 1 \<le> seq c"
  shows "sort_key fst (cur (merge_all cs)) = sort_key fst (cur (merge_all ds))"
    and "sorted_conflicts (merge_all cs) = sorted_conflicts (merge_all ds)"
    and "sort_key fst (wms (merge_all cs)) = sort_key fst (wms (merge_all ds))"
proof -
  let ?g = "merge_all cs" and ?h = "merge_all ds"
  note eq = merge_all_order_independent [OF assms]
  have g: "well_kept ?g" and h: "well_kept ?h" using well_kept_all assms(1,3) by auto
  then have wf: "dict_wf (cur ?g)" "dict_wf (cur ?h)" "dict_wf (cons ?g)" "dict_wf (cons ?h)"
    "dict_wf (wms ?g)" "dict_wf (wms ?h)"
    by (simp_all add: well_kept_def)
  show "sort_key fst (cur ?g) = sort_key fst (cur ?h)"
    by (rule dict_sorted_unique) (use wf eq(1) in simp_all)
  show "sort_key fst (wms ?g) = sort_key fst (wms ?h)"
    by (rule dict_sorted_unique) (use wf eq(2) in \<open>simp_all add: wms_dget [OF g] wms_dget [OF h]\<close>)
  have bucket: "sort_key cid (dgetd (cons ?g) k []) = sort_key cid (dgetd (cons ?h) k [])" for k
  proof (rule sort_key_set_unique)
    show "set (dgetd (cons ?g) k []) = set (dgetd (cons ?h) k [])" by (rule eq(3))
    show "distinct (dgetd (cons ?g) k [])" by (rule eq(4))
    show "distinct (dgetd (cons ?h) k [])"
      using merge_all_order_independent(4) [OF assms(1) [symmetric]] assms by simp
    have "set (dgetd (cons ?g) k []) \<subseteq> set cs"
      using filed_all [of cs] unfolding filed_def held_def by blast
    with assms(2) show "inj_on cid (set (dgetd (cons ?g) k []))" by (rule inj_on_subset)
  qed
  have nil: "dgetd (cons ?g) k [] = [] \<longleftrightarrow> dgetd (cons ?h) k [] = []" for k
    using eq(3) [of k] by (metis set_empty)
  have "map_of (map (\<lambda>kv. (fst kv, sort_key cid (snd kv))) d) k = map_option (sort_key cid) (dget d k)"
    for d :: "('k, 'c list) dict" and k
    by (induction d) auto
  then show "sorted_conflicts ?g = sorted_conflicts ?h"
    unfolding sorted_conflicts_alt
    by (intro dict_sorted_unique) (use wf bucket nil in \<open>simp_all add: comp_def cons_dget [OF g] cons_dget [OF h]\<close>)
qed

lemma live_records_order_independent:
  assumes "set cs = set ds" "inj_on cid (set cs)" "\<forall>c \<in> set cs. 1 \<le> seq c"
  shows "mset (map snd (filter P (cur (merge_all cs)))) = mset (map snd (filter P (cur (merge_all ds))))"
    and "mset (concat (map snd (filter (\<lambda>kv. Q (fst kv)) (cons (merge_all cs))))) =
      mset (concat (map snd (filter (\<lambda>kv. Q (fst kv)) (cons (merge_all ds)))))"
proof -
  note v = live_view_order_independent [OF assms]
  have "mset (cur (merge_all cs)) = mset (sort_key fst (cur (merge_all cs)))" by simp
  also have "\<dots> = mset (cur (merge_all ds))" unfolding v(1) by simp
  finally show "mset (map snd (filter P (cur (merge_all cs)))) = mset (map snd (filter P (cur (merge_all ds))))" by simp
  have s: "mset (map (\<lambda>kv. (fst kv, sort_key cid (snd kv))) (cons s)) = mset (sorted_conflicts s)" for s
    by (simp add: sorted_conflicts_def)
  show "mset (concat (map snd (filter (\<lambda>kv. Q (fst kv)) (cons (merge_all cs))))) =
      mset (concat (map snd (filter (\<lambda>kv. Q (fst kv)) (cons (merge_all ds)))))"
    unfolding mset_buckets [where g = cid] s v(2) ..
qed

lemma live_records_members:
  assumes "\<forall>c \<in> set cs. 1 \<le> seq c"
  shows "set (map snd (filter P (cur (merge_all cs))) @ concat (map snd (filter Q (cons (merge_all cs))))) \<subseteq> set cs"
  using filed_current_mem [OF filed_all well_kept_all [OF assms]] filed_conflict_mem [OF filed_all well_kept_all [OF assms]]
  by auto

end

end
