(* ===== verification/Topology.thy ===== *)
theory Topology
  imports Python_Text Temporal Node_Id Convergence
begin

text \<open>
  \<open>topology/model.py\<close>: attributable topology claims and the evidence-aware graph.
  A claim is built from JSON values by \<open>make_claim\<close> (the constructor with every
  check of \<open>__post_init__\<close>, in its order), its id is the SHA-256 (parameter
  \<open>sha256_hex\<close>) of its canonical bytes; \<open>merge\<close> is the graph's only state change,
  and the queries derive identity, advertisement, reachability and link state.
  Strings are \<open>string\<close>s, sequences integers; \<open>now\<close> is a timezone-aware instant in
  microseconds.
\<close>

section \<open>Claims\<close>

datatype topology_error = TopologyError string

definition source_classes :: "string list" where
  "source_classes = [''self-advertisement'', ''direct-observation'', ''remote-claim'', ''bootstrap-claim'']"

definition claim_types :: "string list" where
  "claim_types = [''identity'', ''advertises'', ''reachable'', ''unreachable'', ''gateway'', ''backhaul'',
     ''link-state'', ''discovered'']"

record topology_claim =
  tc_subject :: string
  tc_reporter :: string
  tc_claim_type :: string
  tc_value :: "string jval"
  tc_evidence_refs :: "string list"
  tc_source_class :: string
  tc_issued_at :: string
  tc_freshness_until :: string
  tc_sequence :: int
  tc_provenance :: string
  tc_claim_id :: string

definition signed_view :: "topology_claim \<Rightarrow> string jval" where
  \<comment> \<open>\<open>to_dict\<close> without \<open>claim_id\<close>\<close>
  "signed_view c = JObj
     [(''subject'', JStr (tc_subject c)),
      (''reporter'', JStr (tc_reporter c)),
      (''claim_type'', JStr (tc_claim_type c)),
      (''value'', tc_value c),
      (''evidence_refs'', JArr (map JStr (tc_evidence_refs c))),
      (''source_class'', JStr (tc_source_class c)),
      (''issued_at'', JStr (tc_issued_at c)),
      (''freshness_until'', JStr (tc_freshness_until c)),
      (''sequence'', JInt (tc_sequence c)),
      (''provenance'', JStr (tc_provenance c))]"

definition claim_to_dict :: "topology_claim \<Rightarrow> string jval" where
  "claim_to_dict c =
     (case signed_view c of JObj kvs \<Rightarrow> JObj ((''claim_id'', JStr (tc_claim_id c)) # kvs) | v \<Rightarrow> v)"

definition claim_signature_input :: "topology_claim \<Rightarrow> topology_error + bytes" where
  "claim_signature_input c =
     (case canonical_bytes (signed_view c) of
        Inl _ \<Rightarrow> Inl (TopologyError ''canonicalization'')
      | Inr b \<Rightarrow> Inr b)"

definition derive_claim_id :: "(bytes \<Rightarrow> string) \<Rightarrow> topology_claim \<Rightarrow> topology_error + string" where
  "derive_claim_id sha256_hex c =
     bindE (claim_signature_input c) (\<lambda>b. Inr (''sha256:'' @ sha256_hex b))"

text \<open>
  The arguments of the constructor, as the dynamically typed values it checks;
  \<open>raw_claim_id\<close> is the empty string when the id is to be derived.
\<close>

record raw_claim =
  raw_subject :: "string jval"
  raw_reporter :: "string jval"
  raw_claim_type :: "string jval"
  raw_value :: "string jval"
  raw_evidence_refs :: "string jval list"
  raw_source_class :: "string jval"
  raw_issued_at :: "string jval"
  raw_freshness_until :: "string jval"
  raw_sequence :: "string jval"
  raw_provenance :: "string jval"
  raw_claim_id :: string

definition as_member :: "string list \<Rightarrow> string \<Rightarrow> string jval \<Rightarrow> topology_error + string" where
  "as_member vs err v =
     (case v of JStr s \<Rightarrow> if s \<in> set vs then Inr s else Inl (TopologyError err)
              | _ \<Rightarrow> Inl (TopologyError err))"

definition as_node :: "string \<Rightarrow> string jval \<Rightarrow> topology_error + string" where
  "as_node err v =
     (case v of JStr s \<Rightarrow> if node_ok s then Inr s else Inl (TopologyError err)
              | _ \<Rightarrow> Inl (TopologyError err))"

definition as_subject :: "string \<Rightarrow> string jval \<Rightarrow> topology_error + string" where
  "as_subject claim_type v =
     (if claim_type = ''link-state'' then
        (case v of JStr s \<Rightarrow> if isOk (parse_link_subject s) then Inr s else Inl (TopologyError ''subject'')
                 | _ \<Rightarrow> Inl (TopologyError ''subject''))
      else as_node ''subject'' v)"

definition as_instant :: "string jval \<Rightarrow> topology_error + (string \<times> int)" where
  "as_instant v =
     (case v of JStr s \<Rightarrow> (case parse_instant s of Some t \<Rightarrow> Inr (s, t) | None \<Rightarrow> Inl (TopologyError ''temporal''))
              | _ \<Rightarrow> Inl (TopologyError ''temporal''))"

definition as_reference :: "string jval \<Rightarrow> topology_error + string" where
  "as_reference v =
     (case v of JStr s \<Rightarrow> if s = '''' then Inl (TopologyError ''evidence'') else Inr s
              | _ \<Rightarrow> Inl (TopologyError ''evidence''))"

definition checked_fields :: "raw_claim \<Rightarrow> topology_error + topology_claim" where
  \<comment> \<open>the checks of the constructor up to the claim id\<close>
  "checked_fields raw =
     bindE (as_member claim_types ''claim-type'' (raw_claim_type raw)) (\<lambda>claim_type.
     bindE (as_subject claim_type (raw_subject raw)) (\<lambda>subject.
     bindE (as_node ''reporter'' (raw_reporter raw)) (\<lambda>reporter.
     bindE (as_member source_classes ''source-class'' (raw_source_class raw)) (\<lambda>source_class.
     bindE (as_instant (raw_issued_at raw)) (\<lambda>(issued_at, issued).
     bindE (as_instant (raw_freshness_until raw)) (\<lambda>(freshness_until, fresh).
     bindE (guardE (fresh < issued) (TopologyError ''temporal'')) (\<lambda>_.
     bindE (case raw_sequence raw of JInt i \<Rightarrow> Inr i | _ \<Rightarrow> Inl (TopologyError ''sequence'')) (\<lambda>seq.
     bindE (guardE (seq < 1) (TopologyError ''sequence'')) (\<lambda>_.
     bindE (mapE as_reference (raw_evidence_refs raw)) (\<lambda>refs.
     bindE (case raw_provenance raw of JStr s \<Rightarrow> Inr s | _ \<Rightarrow> Inl (TopologyError ''provenance'')) (\<lambda>prov.
     bindE (case canonical_bytes (raw_value raw) of Inl _ \<Rightarrow> Inl (TopologyError ''value'') | Inr b \<Rightarrow> Inr b) (\<lambda>_.
     Inr \<lparr>tc_subject = subject, tc_reporter = reporter, tc_claim_type = claim_type,
          tc_value = raw_value raw, tc_evidence_refs = refs, tc_source_class = source_class,
          tc_issued_at = issued_at, tc_freshness_until = freshness_until, tc_sequence = seq,
          tc_provenance = prov, tc_claim_id = raw_claim_id raw\<rparr>))))))))))))"

definition seal_claim :: "(bytes \<Rightarrow> string) \<Rightarrow> topology_claim \<Rightarrow> topology_error + topology_claim" where
  \<comment> \<open>its last step: derive the claim id, or compare a supplied one\<close>
  "seal_claim sha256_hex c =
     bindE (derive_claim_id sha256_hex c) (\<lambda>derived.
       if tc_claim_id c = '''' then Inr (c\<lparr>tc_claim_id := derived\<rparr>)
       else if tc_claim_id c \<noteq> derived then Inl (TopologyError ''claim-id'')
       else Inr c)"

definition make_claim :: "(bytes \<Rightarrow> string) \<Rightarrow> raw_claim \<Rightarrow> topology_error + topology_claim" where
  "make_claim sha256_hex raw = bindE (checked_fields raw) (seal_claim sha256_hex)"

definition required_members :: "string list" where
  "required_members = [''subject'', ''reporter'', ''claim_type'', ''value'', ''evidence_refs'', ''source_class'',
     ''issued_at'', ''freshness_until'', ''sequence'', ''provenance'']"

definition claim_from_mapping :: "(bytes \<Rightarrow> string) \<Rightarrow> string jval \<Rightarrow> topology_error + topology_claim" where
  \<comment> \<open>\<open>data\<close> is a decoded JSON document, so the keys of an object are strings\<close>
  "claim_from_mapping sha256_hex data =
     (case data of
        JObj d \<Rightarrow>
          if \<exists>m \<in> set required_members. dget d m = None then Inl (TopologyError ''missing'')
          else (case dget d ''evidence_refs'' of
                  Some (JArr refs) \<Rightarrow>
                    bindE (case dgetd d ''claim_id'' (JStr '''') of
                             JNull \<Rightarrow> Inr '''' | JStr s \<Rightarrow> Inr s | _ \<Rightarrow> Inl (TopologyError ''claim-id''))
                      (\<lambda>cid. make_claim sha256_hex
                         \<lparr>raw_subject = the (dget d ''subject''), raw_reporter = the (dget d ''reporter''),
                          raw_claim_type = the (dget d ''claim_type''), raw_value = the (dget d ''value''),
                          raw_evidence_refs = refs, raw_source_class = the (dget d ''source_class''),
                          raw_issued_at = the (dget d ''issued_at''),
                          raw_freshness_until = the (dget d ''freshness_until''),
                          raw_sequence = the (dget d ''sequence''), raw_provenance = the (dget d ''provenance''),
                          raw_claim_id = cid\<rparr>)
                | _ \<Rightarrow> Inl (TopologyError ''evidence''))
      | _ \<Rightarrow> Inl (TopologyError ''claim''))"

definition is_self_attribution :: "topology_claim \<Rightarrow> bool" where
  "is_self_attribution c \<longleftrightarrow>
     tc_source_class c = ''self-advertisement'' \<and> tc_claim_type c \<noteq> ''link-state'' \<and>
     tc_reporter c = tc_subject c"

definition is_fresh :: "topology_claim \<Rightarrow> int \<Rightarrow> bool" where
  "is_fresh c now =
     (case (parse_instant (tc_issued_at c), parse_instant (tc_freshness_until c)) of
        (Some issued, Some fresh) \<Rightarrow> issued \<le> now \<and> now \<le> fresh
      | _ \<Rightarrow> False)"

section \<open>The graph\<close>

type_synonym claim_key = "string \<times> string \<times> string \<times> string"

definition claim_key :: "topology_claim \<Rightarrow> claim_key" where
  "claim_key c = (tc_reporter c, tc_subject c, tc_claim_type c,
     if tc_claim_type c = ''advertises'' then py_str (tc_value c) else '''')"

record topology_graph =
  tg_current :: "(claim_key, topology_claim) dict"
  tg_watermarks :: "(claim_key, int) dict"
  tg_historical :: "(claim_key, topology_claim list) dict"
  tg_conflicts :: "(claim_key, topology_claim list) dict"
  tg_by_id :: "(string, topology_claim) dict"

definition empty_graph :: topology_graph where
  "empty_graph = \<lparr>tg_current = [], tg_watermarks = [], tg_historical = [], tg_conflicts = [], tg_by_id = []\<rparr>"

definition graph_merge :: "topology_graph \<Rightarrow> topology_claim \<Rightarrow> topology_graph \<times> topology_claim merge_outcome" where
  "graph_merge g c =
     (let k = claim_key c;
          wm = dgetd (tg_watermarks g) k 0;
          existing = dget (tg_current g) k;
          by_id = dset (tg_by_id g) (tc_claim_id c) c
      in if tc_sequence c < wm then
           (g, \<lparr>outcome_accepted = False, outcome_code = ReplayStale, outcome_record = None\<rparr>)
         else if tc_sequence c = wm then
           (if (case existing of None \<Rightarrow> False | Some e \<Rightarrow> tc_claim_id e = tc_claim_id c) then
              (g, \<lparr>outcome_accepted = True, outcome_code = Idempotent, outcome_record = Some c\<rparr>)
            else
              let old = dgetd (tg_conflicts g) k [];
                  (bucket, cur) =
                    (case existing of
                       None \<Rightarrow> (old, tg_current g)
                     | Some e \<Rightarrow>
                         if tc_claim_id e \<notin> tc_claim_id ` set old then (old @ [e], dpop (tg_current g) k)
                         else (old, tg_current g));
                  bucket' = (if tc_claim_id c \<notin> tc_claim_id ` set bucket then bucket @ [c] else bucket)
              in (g\<lparr>tg_conflicts := dset (tg_conflicts g) k bucket', tg_current := cur, tg_by_id := by_id\<rparr>,
                  \<lparr>outcome_accepted = True, outcome_code = ConflictPreserved, outcome_record = Some c\<rparr>))
         else
           let hist = dgetd (tg_historical g) k [];
               hist' = (case existing of None \<Rightarrow> hist | Some e \<Rightarrow> hist @ [e]);
               hist'' = hist' @ dgetd (tg_conflicts g) k []
           in (g\<lparr>tg_historical := dset (tg_historical g) k hist'', tg_conflicts := dpop (tg_conflicts g) k,
                 tg_current := dset (tg_current g) k c,
                 tg_watermarks := dset (tg_watermarks g) k (tc_sequence c), tg_by_id := by_id\<rparr>,
               \<lparr>outcome_accepted = True, outcome_code = Accepted, outcome_record = Some c\<rparr>))"

section \<open>Queries\<close>

definition get_claim :: "topology_graph \<Rightarrow> claim_key \<Rightarrow> topology_claim option" where
  "get_claim g k = dget (tg_current g) k"

definition graph_watermark :: "topology_graph \<Rightarrow> claim_key \<Rightarrow> int" where
  "graph_watermark g k = dgetd (tg_watermarks g) k 0"

definition claim_sort_key :: "topology_claim \<Rightarrow> string \<times> string \<times> string \<times> int \<times> string" where
  "claim_sort_key c = (tc_reporter c, tc_subject c, tc_claim_type c, tc_sequence c, tc_claim_id c)"

definition claims_where ::
    "(claim_key \<Rightarrow> bool) \<Rightarrow> topology_graph \<Rightarrow> bool \<Rightarrow> topology_claim list" where
  \<comment> \<open>the common body of \<open>get_claims_for_subject\<close> and \<open>get_claims_by_reporter\<close>\<close>
  "claims_where P g include_historical =
     sort_key claim_sort_key
       (map snd (filter (\<lambda>(k, _). P k) (tg_current g))
        @ concat (map snd (filter (\<lambda>(k, _). P k) (tg_conflicts g)))
        @ (if include_historical then concat (map snd (filter (\<lambda>(k, _). P k) (tg_historical g))) else []))"

definition get_claims_for_subject :: "topology_graph \<Rightarrow> string \<Rightarrow> bool \<Rightarrow> topology_claim list" where
  "get_claims_for_subject g subject = claims_where (\<lambda>(_, s, _, _). s = subject) g"

definition get_claims_by_reporter :: "topology_graph \<Rightarrow> string \<Rightarrow> bool \<Rightarrow> topology_claim list" where
  "get_claims_by_reporter g reporter = claims_where (\<lambda>(r, _, _, _). r = reporter) g"

definition get_authoritative_claims ::
    "topology_graph \<Rightarrow> string \<Rightarrow> string option \<Rightarrow> int \<Rightarrow> topology_claim list" where
  "get_authoritative_claims g subject claim_type now =
     sort_key claim_sort_key
       (map snd (filter (\<lambda>((_, s, t, _), c). s = subject \<and> (\<forall>ct. claim_type = Some ct \<longrightarrow> t = ct) \<and>
                            is_self_attribution c \<and> is_fresh c now) (tg_current g)))"

definition current_by_key :: "topology_graph \<Rightarrow> (claim_key \<times> topology_claim) list" where
  \<comment> \<open>\<open>sorted(self._current.keys())\<close> with the claims\<close>
  "current_by_key g = sort_key fst (tg_current g)"

definition get_current_observations :: "topology_graph \<Rightarrow> int \<Rightarrow> topology_claim list" where
  "get_current_observations g now =
     filter (\<lambda>c. is_fresh c now)
       (map snd (current_by_key g)
        @ concat (map (\<lambda>kv. sort_key tc_claim_id (snd kv)) (sort_key fst (tg_conflicts g))))"

definition get_conflicts :: "topology_graph \<Rightarrow> (claim_key \<times> topology_claim list) list" where
  "get_conflicts g = map (\<lambda>kv. (fst kv, sort_key tc_claim_id (snd kv))) (sort_key fst (tg_conflicts g))"

definition get_link_claims ::
    "topology_graph \<Rightarrow> string \<Rightarrow> string \<Rightarrow> int \<Rightarrow> link_error + topology_claim list" where
  "get_link_claims g a b now =
     bindE (make_link_subject a b) (\<lambda>subject.
       Inr (map snd (filter (\<lambda>((_, s, t, _), c). s = subject \<and> t = ''link-state'' \<and> is_fresh c now)
                       (current_by_key g))))"

definition as_identity_value :: "string jval \<Rightarrow> string" where
  "as_identity_value v = (case v of JStr s \<Rightarrow> s | _ \<Rightarrow> '''')"

fun first_some :: "('a \<Rightarrow> 'b option) \<Rightarrow> 'a list \<Rightarrow> 'b option" where
  \<comment> \<open>a loop that returns from its body\<close>
  "first_some f [] = None"
| "first_some f (x # xs) = (case f x of Some y \<Rightarrow> Some y | None \<Rightarrow> first_some f xs)"

definition get_identity_state :: "topology_graph \<Rightarrow> string \<Rightarrow> int \<Rightarrow> string" where
  "get_identity_state g subject now =
     (case first_some (\<lambda>((rep, subj, ct, _), c).
             if subj \<noteq> subject \<or> ct \<noteq> ''identity'' \<or> rep \<noteq> subject \<or> \<not> is_fresh c now \<or>
                tc_source_class c \<noteq> ''self-advertisement'' then None
             else if as_identity_value (tc_value c) = ''present'' then Some ''known''
             else if as_identity_value (tc_value c) = ''removed'' then Some ''removed''
             else None) (current_by_key g) of
        Some s \<Rightarrow> s
      | None \<Rightarrow>
          if \<exists>((rep, subj, ct, _), c) \<in> set (current_by_key g).
               subj = subject \<and> ct = ''identity'' \<and> rep \<noteq> subject \<and> is_fresh c now \<and>
               tc_source_class c = ''direct-observation'' \<and> as_identity_value (tc_value c) = ''present''
          then ''known'' else ''unknown'')"

definition get_advertisement_state :: "topology_graph \<Rightarrow> string \<Rightarrow> int \<Rightarrow> string" where
  "get_advertisement_state g subject now =
     (let mine = filter (\<lambda>((_, subj, ct, _), c). subj = subject \<and> ct = ''advertises'') (current_by_key g)
      in if \<exists>kc \<in> set mine. is_fresh (snd kc) now then ''current''
         else if mine \<noteq> [] then ''stale'' else ''none'')"

definition get_reachability_state :: "topology_graph \<Rightarrow> string \<Rightarrow> int \<Rightarrow> string" where
  "get_reachability_state g subject now =
     (if \<exists>((_, subj, ct, _), c) \<in> set (current_by_key g).
           subj = subject \<and> ct = ''reachable'' \<and> is_fresh c now
      then ''reachable'' else ''unreachable'')"

definition link_rank :: "string \<Rightarrow> nat option" where
  "link_rank s = (if s = ''up'' then Some 2 else if s = ''degraded'' then Some 1
     else if s = ''down'' then Some 0 else None)"

definition worse_link :: "string \<Rightarrow> string \<Rightarrow> string" where
  \<comment> \<open>one round of the loop of \<open>get_link_state\<close>\<close>
  "worse_link worst s =
     (case (link_rank s, link_rank worst) of
        (Some r, Some w) \<Rightarrow> if r < w then s else worst
      | _ \<Rightarrow> worst)"

definition get_link_state :: "topology_graph \<Rightarrow> string \<Rightarrow> string \<Rightarrow> int \<Rightarrow> link_error + string" where
  "get_link_state g a b now =
     bindE (get_link_claims g a b now) (\<lambda>claims.
       if claims = [] then Inr ''down''
       else Inr (foldl (\<lambda>worst c. worse_link worst (py_str (tc_value c))) ''up'' claims))"

definition key_document :: "claim_key \<times> int \<Rightarrow> string jval" where
  "key_document kw =
     (case kw of ((reporter, subject, claim_type, discriminator), w) \<Rightarrow>
        JObj [(''reporter'', JStr reporter), (''subject'', JStr subject), (''claim_type'', JStr claim_type),
              (''discriminator'', JStr discriminator), (''watermark'', JInt w)])"

definition sorted_claim_docs :: "(claim_key, topology_claim list) dict \<Rightarrow> string jval list" where
  "sorted_claim_docs d =
     concat (map (\<lambda>kv. map claim_to_dict (sort_key tc_claim_id (snd kv))) (sort_key fst d))"

definition graph_snapshot :: "topology_graph \<Rightarrow> string jval" where
  "graph_snapshot g = JObj
     [(''claims'', JArr (map (\<lambda>kc. claim_to_dict (snd kc)) (current_by_key g))),
      (''conflicts'', JArr (sorted_claim_docs (tg_conflicts g))),
      (''historical'', JArr (sorted_claim_docs (tg_historical g))),
      (''watermarks'', JArr (map key_document (sort_key fst (tg_watermarks g))))]"

definition graph_canonical_bytes :: "topology_graph \<Rightarrow> canon_error + bytes" where
  "graph_canonical_bytes g = canonical_bytes (graph_snapshot g)"

definition graph_len :: "topology_graph \<Rightarrow> nat" where
  "graph_len g = length (tg_current g) + sum_list (map (\<lambda>kv. length (snd kv)) (tg_conflicts g))"

section \<open>The graph converges\<close>

interpretation topo: dictionary_store claim_key tc_sequence tc_claim_id graph_merge
  tg_current tg_watermarks tg_conflicts tg_historical empty_graph
proof (unfold_locales, goal_cases)
  case (11 c s)
  then show ?case
    by (cases "dget (tg_current s) (claim_key c)") (auto simp: graph_merge_def Let_def)
next
  case (12 s c)
  then show ?case
    by (cases "dget (tg_current s) (claim_key c)") (auto simp: graph_merge_def Let_def)
qed (auto simp: empty_graph_def graph_merge_def Let_def split: option.splits prod.splits if_splits)

declare split_paired_All [simp del] split_paired_Ex [simp del]

definition merge_claims :: "topology_claim list \<Rightarrow> topology_graph" where
  "merge_claims cs = foldl (\<lambda>g c. fst (graph_merge g c)) empty_graph cs"

lemma merge_claims_merge_all: "merge_claims = topo.merge_all"
  by (simp add: fun_eq_iff merge_claims_def topo.merge_all_def)

lemma get_conflicts_alt: "get_conflicts g = topo.sorted_conflicts g"
  by (simp add: get_conflicts_def topo.sorted_conflicts_def)

lemma get_current_observations_alt:
  "get_current_observations g now =
     filter (\<lambda>c. is_fresh c now) (map snd (current_by_key g) @ concat (map snd (get_conflicts g)))"
  by (simp add: get_current_observations_def get_conflicts_def comp_def)

lemma live_view_unique:
  assumes "set cs = set ds" "inj_on tc_claim_id (set cs)" "\<forall>c \<in> set cs. 1 \<le> tc_sequence c"
  shows "current_by_key (merge_claims cs) = current_by_key (merge_claims ds)"
    and "get_conflicts (merge_claims cs) = get_conflicts (merge_claims ds)"
  using topo.live_view_order_independent [OF assms]
  by (simp_all add: current_by_key_def get_conflicts_alt merge_claims_merge_all)

lemma set_current_by_key:
  assumes "\<forall>c \<in> set cs. 1 \<le> tc_sequence c" "(k, c) \<in> set (current_by_key (merge_claims cs))"
  shows "c \<in> set cs \<and> claim_key c = k"
  by (rule topo.filed_current_mem [OF topo.filed_all topo.well_kept_all [OF assms(1)]])
    (use assms(2) in \<open>simp add: current_by_key_def merge_claims_merge_all\<close>)

lemma sorted_claims_unique:
  assumes "set cs = set ds" "inj_on tc_claim_id (set cs)" "\<forall>c \<in> set cs. 1 \<le> tc_sequence c"
  defines "listed \<equiv> \<lambda>P Q g. map snd (filter P (tg_current g)) @ concat (map snd (filter (\<lambda>kv. Q (fst kv)) (tg_conflicts g)))"
  shows "sort_key claim_sort_key (listed P Q (merge_claims cs)) = sort_key claim_sort_key (listed P Q (merge_claims ds))"
    and "length (listed P Q (merge_claims cs)) = length (listed P Q (merge_claims ds))"
proof -
  have m: "mset (listed P Q (merge_claims cs)) = mset (listed P Q (merge_claims ds))"
    using topo.live_records_order_independent [OF assms(1-3)] by (simp add: listed_def merge_claims_merge_all)
  then show "length (listed P Q (merge_claims cs)) = length (listed P Q (merge_claims ds))"
    by (rule mset_eq_length)
  have "set (listed P Q (merge_claims cs)) \<subseteq> set cs"
    unfolding listed_def merge_claims_merge_all by (rule topo.live_records_members [OF assms(3)])
  then have "inj_on claim_sort_key (set (listed P Q (merge_claims cs)))"
    using assms(2) unfolding inj_on_def claim_sort_key_def by blast
  then show "sort_key claim_sort_key (listed P Q (merge_claims cs)) = sort_key claim_sort_key (listed P Q (merge_claims ds))"
    by (intro sort_key_inj_key_eq) (simp_all add: m)
qed

lemma claims_where_unique:
  assumes "set cs = set ds" "inj_on tc_claim_id (set cs)" "\<forall>c \<in> set cs. 1 \<le> tc_sequence c"
  shows "claims_where P (merge_claims cs) False = claims_where P (merge_claims ds) False"
  using sorted_claims_unique(1) [OF assms, of "\<lambda>kv. P (fst kv)" P]
  by (simp add: claims_where_def case_prod_unfold)

lemma get_authoritative_claims_unique:
  assumes "set cs = set ds" "inj_on tc_claim_id (set cs)" "\<forall>c \<in> set cs. 1 \<le> tc_sequence c"
  shows "get_authoritative_claims (merge_claims cs) a ct now = get_authoritative_claims (merge_claims ds) a ct now"
  using sorted_claims_unique(1) [OF assms, of _ "\<lambda>_. False"] by (simp add: get_authoritative_claims_def)

lemma graph_len_unique:
  assumes "set cs = set ds" "inj_on tc_claim_id (set cs)" "\<forall>c \<in> set cs. 1 \<le> tc_sequence c"
  shows "graph_len (merge_claims cs) = graph_len (merge_claims ds)"
  using sorted_claims_unique(2) [OF assms, of "\<lambda>_. True" "\<lambda>_. True"]
  by (simp add: graph_len_def length_concat comp_def)

lemma entry_unique:
  assumes "set cs = set ds" "inj_on tc_claim_id (set cs)" "\<forall>c \<in> set cs. 1 \<le> tc_sequence c"
  shows "get_claim (merge_claims cs) k = get_claim (merge_claims ds) k"
    and "graph_watermark (merge_claims cs) k = graph_watermark (merge_claims ds) k"
  using topo.merge_all_order_independent(1,2) [OF assms]
  by (simp_all add: get_claim_def graph_watermark_def merge_claims_merge_all)

section \<open>Provenance\<close>

lemma first_some_Some: "first_some f xs = Some y \<Longrightarrow> \<exists>x \<in> set xs. f x = Some y"
  by (induction xs) (auto split: option.splits)

lemma authoritative_sound:
  assumes "\<forall>c \<in> set cs. 1 \<le> tc_sequence c"
    and "c \<in> set (get_authoritative_claims (merge_claims cs) subject ct now)"
  shows "c \<in> set cs \<and> tc_reporter c = subject \<and> tc_subject c = subject \<and>
    tc_source_class c = ''self-advertisement'' \<and> is_fresh c now"
proof -
  from assms(2) obtain r s t d where m: "((r, s, t, d), c) \<in> set (tg_current (merge_claims cs))"
    "s = subject" "is_self_attribution c" "is_fresh c now"
    by (auto simp: get_authoritative_claims_def)
  then have "((r, s, t, d), c) \<in> set (current_by_key (merge_claims cs))" by (simp add: current_by_key_def)
  from set_current_by_key [OF assms(1) this] m show ?thesis
    by (auto simp: claim_key_def is_self_attribution_def)
qed

lemma as_identity_value_iff: "s \<noteq> '''' \<Longrightarrow> as_identity_value v = s \<longleftrightarrow> v = JStr s"
  by (auto simp: as_identity_value_def split: jval.splits)

lemma identity_state_sound:
  assumes "\<forall>c \<in> set cs. 1 \<le> tc_sequence c"
  shows "get_identity_state (merge_claims cs) subject now = ''removed'' \<Longrightarrow>
      \<exists>c \<in> set cs. tc_claim_type c = ''identity'' \<and> tc_subject c = subject \<and> tc_reporter c = subject \<and>
        tc_source_class c = ''self-advertisement'' \<and> is_fresh c now \<and> tc_value c = JStr ''removed''"
    and "get_identity_state (merge_claims cs) subject now = ''known'' \<Longrightarrow>
      \<exists>c \<in> set cs. tc_claim_type c = ''identity'' \<and> tc_subject c = subject \<and> is_fresh c now \<and>
        tc_value c = JStr ''present'' \<and>
        (tc_reporter c = subject \<and> tc_source_class c = ''self-advertisement'' \<or>
         tc_reporter c \<noteq> subject \<and> tc_source_class c = ''direct-observation'')"
proof -
  let ?g = "merge_claims cs"
  let ?f = "\<lambda>((rep, subj, ct, d), c).
             if subj \<noteq> subject \<or> ct \<noteq> ''identity'' \<or> rep \<noteq> subject \<or> \<not> is_fresh c now \<or>
                tc_source_class c \<noteq> ''self-advertisement'' then None
             else if as_identity_value (tc_value c) = ''present'' then Some ''known''
             else if as_identity_value (tc_value c) = ''removed'' then Some ''removed''
             else None"
  have key: "c \<in> set cs \<and> claim_key c = k" if "(k, c) \<in> set (current_by_key ?g)" for k c
    using set_current_by_key [OF assms] that by simp
  have self: "\<exists>c \<in> set cs. tc_claim_type c = ''identity'' \<and> tc_subject c = subject \<and> tc_reporter c = subject \<and>
        tc_source_class c = ''self-advertisement'' \<and> is_fresh c now \<and>
        (y = ''known'' \<and> tc_value c = JStr ''present'' \<or> y = ''removed'' \<and> tc_value c = JStr ''removed'')"
    if y: "first_some ?f (current_by_key ?g) = Some y" for y
  proof -
    from first_some_Some [OF y] obtain r s t d c where m: "((r, s, t, d), c) \<in> set (current_by_key ?g)"
      "?f ((r, s, t, d), c) = Some y" by fastforce
    with key [OF m(1)] show ?thesis
      by (intro bexI [of _ c]) (auto simp: claim_key_def as_identity_value_iff split: if_splits)
  qed
  { assume r: "get_identity_state ?g subject now = ''removed''"
    then obtain y where "first_some ?f (current_by_key ?g) = Some y" "y = ''removed''"
      unfolding get_identity_state_def by (cases "first_some ?f (current_by_key ?g)") (auto split: if_splits)
    with self show "\<exists>c \<in> set cs. tc_claim_type c = ''identity'' \<and> tc_subject c = subject \<and> tc_reporter c = subject \<and>
        tc_source_class c = ''self-advertisement'' \<and> is_fresh c now \<and> tc_value c = JStr ''removed''"
      by fastforce }
  assume k: "get_identity_state ?g subject now = ''known''"
  show "\<exists>c \<in> set cs. tc_claim_type c = ''identity'' \<and> tc_subject c = subject \<and> is_fresh c now \<and>
        tc_value c = JStr ''present'' \<and>
        (tc_reporter c = subject \<and> tc_source_class c = ''self-advertisement'' \<or>
         tc_reporter c \<noteq> subject \<and> tc_source_class c = ''direct-observation'')"
  proof (cases "first_some ?f (current_by_key ?g)")
    case (Some y)
    with k have "y = ''known''" by (simp add: get_identity_state_def)
    with self [OF Some] show ?thesis by auto
  next
    case None
    with k obtain r s t d c where "((r, s, t, d), c) \<in> set (current_by_key ?g)" "s = subject" "t = ''identity''"
      "r \<noteq> subject" "is_fresh c now" "tc_source_class c = ''direct-observation''"
      "as_identity_value (tc_value c) = ''present''"
      unfolding get_identity_state_def by (auto split: if_splits)
    with key [of "(r, s, t, d)" c] show ?thesis
      by (intro bexI [of _ c]) (auto simp: claim_key_def as_identity_value_iff)
  qed
qed

section \<open>Link state\<close>

lemma worse_link_fold:
  assumes "w \<in> {''up'', ''degraded'', ''down''}"
  shows "foldl (\<lambda>w c. worse_link w (f c)) w xs =
    (if w = ''down'' \<or> ''down'' \<in> f ` set xs then ''down''
     else if w = ''degraded'' \<or> ''degraded'' \<in> f ` set xs then ''degraded'' else ''up'')"
  using assms
proof (induction xs arbitrary: w)
  case (Cons x xs)
  have "worse_link w (f x) \<in> {''up'', ''degraded'', ''down''}"
    using Cons.prems by (auto simp: worse_link_def link_rank_def)
  from Cons.IH [OF this] Cons.prems show ?case
    by (auto simp: worse_link_def link_rank_def)
qed auto

lemma link_state_worst:
  assumes "get_link_claims g a b now = Inr cs"
  shows "get_link_state g a b now = Inr
    (if cs = [] \<or> ''down'' \<in> (\<lambda>c. py_str (tc_value c)) ` set cs then ''down''
     else if ''degraded'' \<in> (\<lambda>c. py_str (tc_value c)) ` set cs then ''degraded'' else ''up'')"
  using worse_link_fold [of "''up''" "\<lambda>c. py_str (tc_value c)" cs] assms
  by (simp add: get_link_state_def)

lemma get_link_state_commute: "get_link_state g a b now = get_link_state g b a now"
  by (simp add: get_link_state_def get_link_claims_def make_link_subject_commute [of a b])

section \<open>A claim id names one claim\<close>

definition same_claim :: "topology_claim \<Rightarrow> topology_claim \<Rightarrow> bool" where
  \<comment> \<open>equal up to the order of object members in the value, and the claim id\<close>
  "same_claim c d \<longleftrightarrow>
     c\<lparr>tc_value := JNull, tc_claim_id := ''''\<rparr> = d\<lparr>tc_value := JNull, tc_claim_id := ''''\<rparr> \<and>
     jnorm (map_jval lit (tc_value c)) = jnorm (map_jval lit (tc_value d))"

definition claim_members :: "topology_claim \<Rightarrow> (ustr, ustr jval) dict" where
  "claim_members c =
     [(lit ''subject'', JStr (lit (tc_subject c))),
      (lit ''reporter'', JStr (lit (tc_reporter c))),
      (lit ''claim_type'', JStr (lit (tc_claim_type c))),
      (lit ''value'', map_jval lit (tc_value c)),
      (lit ''evidence_refs'', JArr (map (\<lambda>r. JStr (lit r)) (tc_evidence_refs c))),
      (lit ''source_class'', JStr (lit (tc_source_class c))),
      (lit ''issued_at'', JStr (lit (tc_issued_at c))),
      (lit ''freshness_until'', JStr (lit (tc_freshness_until c))),
      (lit ''sequence'', JInt (tc_sequence c)),
      (lit ''provenance'', JStr (lit (tc_provenance c)))]"

lemma claim_members_view: "map_jval lit (signed_view c) = JObj (claim_members c)"
  by (simp add: claim_members_def signed_view_def comp_def)

lemma claim_members_wf: "dict_wf (claim_members c)"
  by (simp add: claim_members_def inj_lit)

lemma claim_members:
  "dget (claim_members c) (lit ''subject'') = Some (JStr (lit (tc_subject c)))"
  "dget (claim_members c) (lit ''reporter'') = Some (JStr (lit (tc_reporter c)))"
  "dget (claim_members c) (lit ''claim_type'') = Some (JStr (lit (tc_claim_type c)))"
  "dget (claim_members c) (lit ''value'') = Some (map_jval lit (tc_value c))"
  "dget (claim_members c) (lit ''evidence_refs'') = Some (JArr (map (\<lambda>r. JStr (lit r)) (tc_evidence_refs c)))"
  "dget (claim_members c) (lit ''source_class'') = Some (JStr (lit (tc_source_class c)))"
  "dget (claim_members c) (lit ''issued_at'') = Some (JStr (lit (tc_issued_at c)))"
  "dget (claim_members c) (lit ''freshness_until'') = Some (JStr (lit (tc_freshness_until c)))"
  "dget (claim_members c) (lit ''sequence'') = Some (JInt (tc_sequence c))"
  "dget (claim_members c) (lit ''provenance'') = Some (JStr (lit (tc_provenance c)))"
  by (simp_all add: claim_members_def inj_lit)

lemma signature_input_inj:
  assumes "claim_signature_input c = Inr b" and "claim_signature_input d = Inr b"
  shows "same_claim c d"
proof -
  have "canonical_json_bytes (JObj (claim_members x)) = Inr b" if "claim_signature_input x = Inr b" for x
    using that by (auto simp: claim_signature_input_def canonical_bytes_def claim_members_view split: sum.splits)
  from canonical_json_bytes_inj [OF this [OF assms(1)] this [OF assms(2)]]
  have "map_option jnorm (dget (claim_members c) k) = map_option jnorm (dget (claim_members d) k)" for k
    by (rule jnorm_JObj_members) (rule claim_members_wf)+
  note eq = this [of "lit ''subject''"] this [of "lit ''reporter''"] this [of "lit ''claim_type''"]
    this [of "lit ''value''"] this [of "lit ''evidence_refs''"] this [of "lit ''source_class''"]
    this [of "lit ''issued_at''"] this [of "lit ''freshness_until''"] this [of "lit ''sequence''"]
    this [of "lit ''provenance''"]
  have "tc_evidence_refs c = tc_evidence_refs d"
  proof -
    have "inj (\<lambda>r. JStr (lit r))" by (rule injI) (simp add: inj_lit)
    with eq(5) show ?thesis by (simp add: claim_members comp_def inj_map_eq_map)
  qed
  with eq show ?thesis
    by (cases c; cases d) (simp add: claim_members inj_lit same_claim_def)
qed

lemma claim_id_irrelevant [simp]:
  "signed_view (c\<lparr>tc_claim_id := x\<rparr>) = signed_view c"
  "claim_signature_input (c\<lparr>tc_claim_id := x\<rparr>) = claim_signature_input c"
  "derive_claim_id H (c\<lparr>tc_claim_id := x\<rparr>) = derive_claim_id H c"
  by (simp_all add: derive_claim_id_def claim_signature_input_def signed_view_def)

lemma seal_claim_Inr:
  "seal_claim H c = Inr d \<longleftrightarrow>
     (\<exists>x. derive_claim_id H c = Inr x \<and> d = c\<lparr>tc_claim_id := x\<rparr> \<and> tc_claim_id c \<in> {'''', x})"
  by (auto simp: seal_claim_def bindE_eq_Inr_iff)

lemma make_claim_id:
  assumes "make_claim H raw = Inr c"
  obtains b where "claim_signature_input c = Inr b" "tc_claim_id c = ''sha256:'' @ H b"
  using assms by (auto simp: make_claim_def bindE_eq_Inr_iff seal_claim_Inr derive_claim_id_def)

lemma claim_id_inj:
  assumes "make_claim H raw = Inr c" "make_claim H raw' = Inr d" "tc_claim_id c = tc_claim_id d"
  shows "same_claim c d \<or>
    (\<exists>b b'. claim_signature_input c = Inr b \<and> claim_signature_input d = Inr b' \<and> b \<noteq> b' \<and> H b = H b')"
proof -
  from make_claim_id [OF assms(1)] obtain b where b: "claim_signature_input c = Inr b"
    "tc_claim_id c = ''sha256:'' @ H b" .
  from make_claim_id [OF assms(2)] obtain b' where b': "claim_signature_input d = Inr b'"
    "tc_claim_id d = ''sha256:'' @ H b'" .
  show ?thesis
  proof (cases "b = b'")
    case True
    with b b' signature_input_inj show ?thesis by blast
  next
    case False
    with b b' assms(3) show ?thesis by auto
  qed
qed

section \<open>Documents of claims\<close>

definition raw_of :: "topology_claim \<Rightarrow> raw_claim" where
  "raw_of c = \<lparr>raw_subject = JStr (tc_subject c), raw_reporter = JStr (tc_reporter c),
     raw_claim_type = JStr (tc_claim_type c), raw_value = tc_value c,
     raw_evidence_refs = map JStr (tc_evidence_refs c), raw_source_class = JStr (tc_source_class c),
     raw_issued_at = JStr (tc_issued_at c), raw_freshness_until = JStr (tc_freshness_until c),
     raw_sequence = JInt (tc_sequence c), raw_provenance = JStr (tc_provenance c),
     raw_claim_id = tc_claim_id c\<rparr>"

lemma as_member_Inr: "as_member vs e v = Inr s \<longleftrightarrow> v = JStr s \<and> s \<in> set vs"
  by (auto simp: as_member_def split: jval.splits)

lemma as_node_Inr: "as_node e v = Inr s \<longleftrightarrow> v = JStr s \<and> node_ok s"
  by (auto simp: as_node_def split: jval.splits)

lemma as_subject_Inr:
  "as_subject ct v = Inr s \<longleftrightarrow>
     v = JStr s \<and> (if ct = ''link-state'' then isOk (parse_link_subject s) else node_ok s)"
  by (auto simp: as_subject_def as_node_Inr split: jval.splits)

lemma as_instant_Inr: "as_instant v = Inr st \<longleftrightarrow> v = JStr (fst st) \<and> parse_instant (fst st) = Some (snd st)"
  by (cases st) (auto simp: as_instant_def split: jval.splits option.splits)

lemma as_reference_Inr: "as_reference v = Inr s \<longleftrightarrow> v = JStr s \<and> s \<noteq> ''''"
  by (auto simp: as_reference_def split: jval.splits)

lemma references_Inr: "mapE as_reference vs = Inr ss \<longleftrightarrow> vs = map JStr ss \<and> list_all (\<lambda>s. s \<noteq> '''') ss"
proof -
  have "list_all2 (\<lambda>v s. as_reference v = Inr s) vs ss \<longleftrightarrow> vs = map JStr ss \<and> list_all (\<lambda>s. s \<noteq> '''') ss"
    unfolding as_reference_Inr by (induction vs arbitrary: ss; case_tac ss) auto
  then show ?thesis by (simp add: mapE_eq_Inr_iff)
qed

definition fields_ok :: "topology_claim \<Rightarrow> bool" where
  \<comment> \<open>the well-formedness invariant of a claim\<close>
  "fields_ok c \<longleftrightarrow>
     tc_claim_type c \<in> set claim_types \<and>
     (if tc_claim_type c = ''link-state'' then isOk (parse_link_subject (tc_subject c)) else node_ok (tc_subject c)) \<and>
     node_ok (tc_reporter c) \<and> tc_source_class c \<in> set source_classes \<and>
     (\<exists>i f. parse_instant (tc_issued_at c) = Some i \<and> parse_instant (tc_freshness_until c) = Some f \<and> i \<le> f) \<and>
     1 \<le> tc_sequence c \<and> list_all (\<lambda>r. r \<noteq> '''') (tc_evidence_refs c) \<and>
     isOk (canonical_bytes (tc_value c))"

lemma case_sequence_Inr:
  "(case v of JInt i \<Rightarrow> Inr i | _ \<Rightarrow> Inl e) = Inr j \<longleftrightarrow> v = JInt j"
  "(case v of JStr s \<Rightarrow> Inr s | _ \<Rightarrow> Inl e') = Inr t \<longleftrightarrow> v = JStr t"
  "(case x of Inl _ \<Rightarrow> Inl e'' | Inr b \<Rightarrow> Inr b) = Inr c \<longleftrightarrow> x = Inr c"
  by (auto split: jval.splits sum.splits)

lemma checked_fields_Inr:
  "checked_fields raw = Inr c \<longleftrightarrow> raw = raw_of c \<and> fields_ok c"
proof -
  have "checked_fields raw = Inr c \<longleftrightarrow>
    raw_claim_type raw = JStr (tc_claim_type c) \<and> tc_claim_type c \<in> set claim_types \<and>
    raw_subject raw = JStr (tc_subject c) \<and>
    (if tc_claim_type c = ''link-state'' then isOk (parse_link_subject (tc_subject c)) else node_ok (tc_subject c)) \<and>
    raw_reporter raw = JStr (tc_reporter c) \<and> node_ok (tc_reporter c) \<and>
    raw_source_class raw = JStr (tc_source_class c) \<and> tc_source_class c \<in> set source_classes \<and>
    raw_issued_at raw = JStr (tc_issued_at c) \<and> raw_freshness_until raw = JStr (tc_freshness_until c) \<and>
    (\<exists>i f. parse_instant (tc_issued_at c) = Some i \<and> parse_instant (tc_freshness_until c) = Some f \<and> i \<le> f) \<and>
    raw_sequence raw = JInt (tc_sequence c) \<and> 1 \<le> tc_sequence c \<and>
    raw_evidence_refs raw = map JStr (tc_evidence_refs c) \<and> list_all (\<lambda>r. r \<noteq> '''') (tc_evidence_refs c) \<and>
    raw_provenance raw = JStr (tc_provenance c) \<and> raw_value raw = tc_value c \<and>
    isOk (canonical_bytes (tc_value c)) \<and> raw_claim_id raw = tc_claim_id c"
    unfolding checked_fields_def bindE_eq_Inr_iff as_member_Inr as_node_Inr as_subject_Inr as_instant_Inr
      references_Inr case_sequence_Inr isOk_iff split_beta
    by (cases c) (auto simp: not_less as_instant_Inr split_paired_Ex)
  then show ?thesis
    by (cases raw) (auto simp: raw_of_def fields_ok_def)
qed

lemma make_claim_Inr:
  assumes "make_claim H raw = Inr c"
  shows "fields_ok c" and "derive_claim_id H c = Inr (tc_claim_id c)"
proof -
  from assms obtain d x where d: "raw = raw_of d" "fields_ok d" "derive_claim_id H d = Inr x"
    "c = d\<lparr>tc_claim_id := x\<rparr>"
    by (auto simp: make_claim_def bindE_eq_Inr_iff checked_fields_Inr seal_claim_Inr)
  then show "fields_ok c" "derive_claim_id H c = Inr (tc_claim_id c)" by (simp_all add: fields_ok_def)
qed

lemma make_claim_raw_of:
  assumes "fields_ok c" "derive_claim_id H c = Inr (tc_claim_id c)"
  shows "make_claim H (raw_of c) = Inr c"
  using assms checked_fields_Inr [of "raw_of c" c]
  by (simp add: make_claim_def seal_claim_Inr)

lemma from_mapping_to_dict:
  assumes "make_claim H raw = Inr c"
  shows "claim_from_mapping H (claim_to_dict c) = Inr c"
proof -
  have "make_claim H (raw_of c) = Inr c" by (rule make_claim_raw_of) (rule make_claim_Inr [OF assms])+
  then show ?thesis
    by (simp add: claim_from_mapping_def claim_to_dict_def signed_view_def required_members_def raw_of_def dgetd_def)
qed

section \<open>Properties\<close>

definition sample_claim :: "string \<Rightarrow> string \<Rightarrow> string \<Rightarrow> string \<Rightarrow> string jval \<Rightarrow> int \<Rightarrow> string \<Rightarrow> topology_claim" where
  \<comment> \<open>claims the witnesses evaluate on\<close>
  "sample_claim reporter subject claim_type source v seq cid =
     \<lparr>tc_subject = subject, tc_reporter = reporter, tc_claim_type = claim_type, tc_value = v,
      tc_evidence_refs = [], tc_source_class = source, tc_issued_at = ''2024-01-01T00:00:00Z'',
      tc_freshness_until = ''2024-03-01T00:00:00Z'', tc_sequence = seq, tc_provenance = '''',
      tc_claim_id = cid\<rparr>"

lemma sample_claim_simps [simp]:
  "tc_sequence (sample_claim r s t o' v n i) = n"
  "tc_claim_id (sample_claim r s t o' v n i) = i"
  "tc_reporter (sample_claim r s t o' v n i) = r"
  "tc_subject (sample_claim r s t o' v n i) = s"
  "tc_claim_type (sample_claim r s t o' v n i) = t"
  "tc_source_class (sample_claim r s t o' v n i) = o'"
  "tc_value (sample_claim r s t o' v n i) = v"
  "is_fresh (sample_claim r s t o' v n i) now \<longleftrightarrow> 63839664000000000 \<le> now \<and> now \<le> 63844848000000000"
  by (simp_all add: sample_claim_def is_fresh_def sample_times)

text \<open>
  C29: The graph implements its abstract specification, the frontier of the merged
  claims: after merging any list of claims with sequences from 1 and distinct ids,
  a key has the current claim \<open>c\<close> exactly when \<open>c\<close> is its only claim of highest
  sequence, its conflict bucket holds exactly the two or more claims of highest
  sequence otherwise, and a claim that is superseded is never current again.
\<close>

theorem graph_implements_frontier:
  assumes "inj_on tc_claim_id (set cs)" "\<forall>c \<in> set cs. 1 \<le> tc_sequence c"
  shows "(dget (tg_current (merge_claims cs)) k = Some c \<longleftrightarrow> frontier claim_key tc_sequence (set cs) k = {c}) \<and>
    set (dgetd (tg_conflicts (merge_claims cs)) k []) =
      (if is_singleton (frontier claim_key tc_sequence (set cs) k) then {}
       else frontier claim_key tc_sequence (set cs) k)"
  using topo.represents_current [OF topo.merge_all_represents [OF assms]]
  by (simp add: merge_claims_merge_all)

theorem graph_implements_frontier_witness:
  "dget (tg_current (merge_claims
      [sample_claim ''r'' ''s'' ''gateway'' ''remote-claim'' JNull 2 ''x'',
       sample_claim ''r'' ''s'' ''gateway'' ''remote-claim'' JNull 1 ''y''])) (''r'', ''s'', ''gateway'', '''')
   = Some (sample_claim ''r'' ''s'' ''gateway'' ''remote-claim'' JNull 2 ''x'')"
proof -
  let ?x = "sample_claim ''r'' ''s'' ''gateway'' ''remote-claim'' JNull 2 ''x''"
  let ?y = "sample_claim ''r'' ''s'' ''gateway'' ''remote-claim'' JNull 1 ''y''"
  have "frontier claim_key tc_sequence (set [?x, ?y]) (''r'', ''s'', ''gateway'', '''') = {?x}"
    by (auto simp: frontier_def claim_key_def)
  moreover have "inj_on tc_claim_id (set [?x, ?y])" by (auto simp: inj_on_def)
  moreover have "\<forall>c \<in> set [?x, ?y]. 1 \<le> tc_sequence c" by simp
  ultimately show ?thesis using graph_implements_frontier by blast
qed

text \<open>
  C30: The graph converges: merging the same claims in any order, with any repetition,
  gives the same answer to every query that does not ask for history: the entry and the
  watermark of a key, the claims by subject and by reporter, the authoritative claims, the
  current observations, the conflicts, the claims and the state of a link, the identity,
  advertisement and reachability states, and the number of live claims.
\<close>

theorem graph_converges:
  assumes "set cs = set ds" "inj_on tc_claim_id (set cs)" "\<forall>c \<in> set cs. 1 \<le> tc_sequence c"
  shows "get_claim (merge_claims cs) k = get_claim (merge_claims ds) k \<and>
    graph_watermark (merge_claims cs) k = graph_watermark (merge_claims ds) k \<and>
    get_claims_for_subject (merge_claims cs) a False = get_claims_for_subject (merge_claims ds) a False \<and>
    get_claims_by_reporter (merge_claims cs) a False = get_claims_by_reporter (merge_claims ds) a False \<and>
    get_authoritative_claims (merge_claims cs) a ct now = get_authoritative_claims (merge_claims ds) a ct now \<and>
    get_current_observations (merge_claims cs) now = get_current_observations (merge_claims ds) now \<and>
    get_conflicts (merge_claims cs) = get_conflicts (merge_claims ds) \<and>
    get_link_claims (merge_claims cs) a b now = get_link_claims (merge_claims ds) a b now \<and>
    get_link_state (merge_claims cs) a b now = get_link_state (merge_claims ds) a b now \<and>
    get_identity_state (merge_claims cs) a now = get_identity_state (merge_claims ds) a now \<and>
    get_advertisement_state (merge_claims cs) a now = get_advertisement_state (merge_claims ds) a now \<and>
    get_reachability_state (merge_claims cs) a now = get_reachability_state (merge_claims ds) a now \<and>
    graph_len (merge_claims cs) = graph_len (merge_claims ds)"
  unfolding get_current_observations_alt get_link_state_def get_link_claims_def get_identity_state_def
    get_advertisement_state_def get_reachability_state_def live_view_unique(1,2) [OF assms]
    get_claims_for_subject_def get_claims_by_reporter_def claims_where_unique [OF assms]
    get_authoritative_claims_unique [OF assms] graph_len_unique [OF assms] entry_unique [OF assms]
  by (intro conjI refl)

theorem graph_converges_witness:
  "get_reachability_state (merge_claims
      [sample_claim ''r'' ''s'' ''reachable'' ''remote-claim'' JNull 2 ''x'',
       sample_claim ''q'' ''s'' ''reachable'' ''remote-claim'' JNull 1 ''y'',
       sample_claim ''r'' ''s'' ''reachable'' ''remote-claim'' JNull 2 ''x'']) ''s'' 0 =
   get_reachability_state (merge_claims
      [sample_claim ''q'' ''s'' ''reachable'' ''remote-claim'' JNull 1 ''y'',
       sample_claim ''r'' ''s'' ''reachable'' ''remote-claim'' JNull 2 ''x'']) ''s'' 0"
proof -
  let ?x = "sample_claim ''r'' ''s'' ''reachable'' ''remote-claim'' JNull 2 ''x''"
  let ?y = "sample_claim ''q'' ''s'' ''reachable'' ''remote-claim'' JNull 1 ''y''"
  have "set [?x, ?y, ?x] = set [?y, ?x]" by auto
  moreover have "inj_on tc_claim_id (set [?x, ?y, ?x])" by (auto simp: inj_on_def)
  moreover have "\<forall>c \<in> set [?x, ?y, ?x]. 1 \<le> tc_sequence c" by simp
  ultimately show ?thesis using graph_converges by blast
qed

text \<open>
  One merge never moves a watermark back, never forgets a claim it holds
  (current, conflicting or historical), and a refused merge changes nothing.
\<close>

theorem graph_merge_safe:
  "dgetd (tg_watermarks g) k 0 \<le> dgetd (tg_watermarks (fst (graph_merge g c))) k 0 \<and>
   topo.held g k \<subseteq> topo.held (fst (graph_merge g c)) k \<and>
   (outcome_accepted (snd (graph_merge g c)) \<or>
      fst (graph_merge g c) = g \<and> tc_sequence c < dgetd (tg_watermarks g) (claim_key c) 0)"
proof -
  have "outcome_accepted (snd (graph_merge g c)) \<or>
      fst (graph_merge g c) = g \<and> tc_sequence c < dgetd (tg_watermarks g) (claim_key c) 0"
    by (cases rule: topo.merge_cases [where s = g and c = c])
      (auto simp: topo.stale topo.same topo.clash topo.newer)
  with topo.watermark_mono topo.held_mono show ?thesis by blast
qed

text \<open>
  A remote summary never becomes authoritative truth: whatever claims are merged,
  in whatever order, the authoritative claims of a subject are fresh claims the
  subject made about itself.
\<close>

theorem authoritative_claims_are_own:
  assumes "\<forall>c \<in> set cs. 1 \<le> tc_sequence c"
  shows "\<forall>c \<in> set (get_authoritative_claims (merge_claims cs) subject ct now).
    c \<in> set cs \<and> tc_reporter c = subject \<and> tc_subject c = subject \<and>
    tc_source_class c = ''self-advertisement'' \<and> is_fresh c now"
  using authoritative_sound [OF assms] by blast

theorem authoritative_claims_are_own_witness:
  "sample_claim ''r'' ''s'' ''gateway'' ''self-advertisement'' JNull 1 ''x'' \<notin>
     set (get_authoritative_claims (merge_claims
      [sample_claim ''r'' ''s'' ''gateway'' ''self-advertisement'' JNull 1 ''x'']) ''s'' None 63839664000000000)"
proof -
  have "\<forall>c \<in> set [sample_claim ''r'' ''s'' ''gateway'' ''self-advertisement'' JNull 1 ''x'']. 1 \<le> tc_sequence c"
    by simp
  from authoritative_claims_are_own [OF this, of "''s''" None 63839664000000000] show ?thesis by force
qed

text \<open>
  Identity state needs evidence of the right class: \<open>removed\<close> is derived only from
  a fresh withdrawal by the subject itself, and \<open>known\<close> only from the subject's own
  fresh claim or a direct observation, never from a remote or bootstrap claim.
\<close>

theorem identity_state_needs_evidence:
  assumes "\<forall>c \<in> set cs. 1 \<le> tc_sequence c"
  shows "(get_identity_state (merge_claims cs) subject now = ''removed'' \<longrightarrow>
      (\<exists>c \<in> set cs. tc_claim_type c = ''identity'' \<and> tc_subject c = subject \<and> tc_reporter c = subject \<and>
        tc_source_class c = ''self-advertisement'' \<and> is_fresh c now \<and> tc_value c = JStr ''removed'')) \<and>
    (get_identity_state (merge_claims cs) subject now = ''known'' \<longrightarrow>
      (\<exists>c \<in> set cs. tc_claim_type c = ''identity'' \<and> tc_subject c = subject \<and> is_fresh c now \<and>
        tc_value c = JStr ''present'' \<and>
        (tc_reporter c = subject \<and> tc_source_class c = ''self-advertisement'' \<or>
         tc_reporter c \<noteq> subject \<and> tc_source_class c = ''direct-observation'')))"
  using identity_state_sound [OF assms] by blast

theorem identity_state_needs_evidence_witness:
  "get_identity_state (merge_claims
      [sample_claim ''r'' ''s'' ''identity'' ''remote-claim'' (JStr ''removed'') 1 ''x'']) ''s'' 63839664000000000
   \<noteq> ''removed''"
proof -
  have "\<forall>c \<in> set [sample_claim ''r'' ''s'' ''identity'' ''remote-claim'' (JStr ''removed'') 1 ''x'']. 1 \<le> tc_sequence c"
    by simp
  from identity_state_needs_evidence [OF this, of "''s''" 63839664000000000] show ?thesis by auto
qed

text \<open>
  The state of a link is the worst state any fresh current claim reports, and
  \<open>down\<close> without claims; but a claim with an unrecognised value counts as a report of
  \<open>up\<close>.
\<close>

theorem link_state_is_worst:
  assumes "get_link_claims g a b now = Inr cs"
  shows "get_link_state g a b now = Inr
      (if cs = [] \<or> (\<exists>c \<in> set cs. py_str (tc_value c) = ''down'') then ''down''
       else if \<exists>c \<in> set cs. py_str (tc_value c) = ''degraded'' then ''degraded'' else ''up'') \<and>
    get_link_state g b a now = get_link_state g a b now"
  using link_state_worst [OF assms] get_link_state_commute [of g b a] by (auto simp: image_iff)

theorem link_state_is_worst_witness:
  "get_link_state (merge_claims
      [sample_claim ''r'' (''link:'' @ sample_node CHR ''a'' @ '':'' @ sample_node CHR ''b'') ''link-state''
         ''remote-claim'' (JStr ''broken'') 1 ''x'']) (sample_node CHR ''a'') (sample_node CHR ''b'') 63839664000000000
   = Inr ''up''"
proof -
  let ?c = "sample_claim ''r'' (''link:'' @ sample_node CHR ''a'' @ '':'' @ sample_node CHR ''b'') ''link-state''
         ''remote-claim'' (JStr ''broken'') 1 ''x''"
  have "make_link_subject (sample_node CHR ''a'') (sample_node CHR ''b'')
      = Inr (''link:'' @ sample_node CHR ''a'' @ '':'' @ sample_node CHR ''b'')"
    by (simp add: make_link_subject_iff min_def max_def less_eq_char_def)
  then have "get_link_claims (merge_claims [?c]) (sample_node CHR ''a'') (sample_node CHR ''b'') 63839664000000000 = Inr [?c]"
    by (simp add: get_link_claims_def current_by_key_def merge_claims_def graph_merge_def Let_def empty_graph_def
        claim_key_def)
  from link_state_is_worst [OF this] show ?thesis by (simp add: py_str_def)
qed

text \<open>
  The snapshot is not independent of insertion order: two claims of one key with
  different sequences give different snapshots in the two orders, because the older
  claim becomes history only when it arrives first.
\<close>

theorem snapshot_depends_on_order:
  assumes "claim_key c = claim_key d" "1 \<le> tc_sequence c" "tc_sequence c < tc_sequence d"
  shows "graph_snapshot (merge_claims [c, d]) \<noteq> graph_snapshot (merge_claims [d, c])"
  using assms
  by (simp add: graph_snapshot_def sorted_claim_docs_def merge_claims_def graph_merge_def Let_def empty_graph_def)

theorem snapshot_depends_on_order_witness:
  "graph_snapshot (merge_claims
     [sample_claim ''r'' ''s'' ''gateway'' ''remote-claim'' JNull 1 ''x'',
      sample_claim ''r'' ''s'' ''gateway'' ''remote-claim'' JNull 2 ''y'']) \<noteq>
   graph_snapshot (merge_claims
     [sample_claim ''r'' ''s'' ''gateway'' ''remote-claim'' JNull 2 ''y'',
      sample_claim ''r'' ''s'' ''gateway'' ''remote-claim'' JNull 1 ''x''])"
  by (rule snapshot_depends_on_order) (simp_all add: claim_key_def)

lemma sealed_sample:
  assumes "canon_ok 1 (map_jval lit v)" "canon_ok 0 (map_jval lit v)" "lower_hex c" "lower_hex d"
  shows "make_claim (\<lambda>_. ''00'')
      (raw_of (sample_claim (sample_node c) (sample_node d) ''gateway'' ''remote-claim'' v 1 ''sha256:00''))
    = Inr (sample_claim (sample_node c) (sample_node d) ''gateway'' ''remote-claim'' v 1 ''sha256:00'')"
proof (rule make_claim_raw_of)
  let ?c = "sample_claim (sample_node c) (sample_node d) ''gateway'' ''remote-claim'' v 1 ''sha256:00''"
  show "fields_ok ?c"
    using assms by (simp add: fields_ok_def claim_types_def source_classes_def sample_claim_def sample_times
        canonical_bytes_def canonical_json_bytes_ok)
  have "isOk (canonical_bytes (signed_view ?c))"
    using assms(1) by (simp add: canonical_bytes_def canonical_json_bytes_ok claim_members_view claim_members_def
        MAX_CANONICAL_DEPTH_def sample_claim_def)
  then show "derive_claim_id (\<lambda>_. ''00'') ?c = Inr (tc_claim_id ?c)"
    by (auto simp: derive_claim_id_def claim_signature_input_def isOk_iff)
qed

text \<open>
  A claim id commits to the claim: two accepted claims with the same id agree in
  every field (the value up to member order), unless their signature inputs are a
  collision of the hash.
\<close>

theorem claim_id_commits:
  assumes "make_claim sha256_hex raw = Inr c" "make_claim sha256_hex raw' = Inr d" "tc_claim_id c = tc_claim_id d"
  shows "same_claim c d \<or>
    (\<exists>b b'. claim_signature_input c = Inr b \<and> claim_signature_input d = Inr b' \<and> b \<noteq> b' \<and>
       sha256_hex b = sha256_hex b')"
  using assms by (rule claim_id_inj)

theorem claim_id_commits_witness:
  "\<exists>c d. same_claim c d \<or>
    (\<exists>b b'. claim_signature_input c = Inr b \<and> claim_signature_input d = Inr b' \<and> b \<noteq> b')"
proof -
  have "make_claim (\<lambda>_. ''00'') (raw_of (sample_claim (sample_node CHR ''a'') (sample_node CHR ''b'') ''gateway''
      ''remote-claim'' JNull 1 ''sha256:00'')) = Inr (sample_claim (sample_node CHR ''a'') (sample_node CHR ''b'') ''gateway''
      ''remote-claim'' JNull 1 ''sha256:00'')"
    by (rule sealed_sample) (simp_all add: MAX_CANONICAL_DEPTH_def)
  moreover have "make_claim (\<lambda>_. ''00'') (raw_of (sample_claim (sample_node CHR ''b'') (sample_node CHR ''a'') ''gateway''
      ''remote-claim'' JNull 1 ''sha256:00'')) = Inr (sample_claim (sample_node CHR ''b'') (sample_node CHR ''a'') ''gateway''
      ''remote-claim'' JNull 1 ''sha256:00'')"
    by (rule sealed_sample) (simp_all add: MAX_CANONICAL_DEPTH_def)
  ultimately show ?thesis using claim_id_commits [where sha256_hex = "\<lambda>_. ''00''"] by fastforce
qed

text \<open>
  C31: An accepted claim survives its JSON document: rebuilding a claim from
  \<open>to_dict()\<close> passes every check again and returns the same claim.
\<close>

theorem claim_document_roundtrip:
  assumes "make_claim sha256_hex raw = Inr c"
  shows "claim_from_mapping sha256_hex (claim_to_dict c) = Inr c"
  using assms by (rule from_mapping_to_dict)

theorem claim_document_roundtrip_witness:
  "claim_from_mapping (\<lambda>_. ''00'') (claim_to_dict
      (sample_claim (sample_node CHR ''a'') (sample_node CHR ''b'') ''gateway'' ''remote-claim'' (JBool True) 1 ''sha256:00''))
   = Inr (sample_claim (sample_node CHR ''a'') (sample_node CHR ''b'') ''gateway'' ''remote-claim'' (JBool True) 1 ''sha256:00'')"
  by (rule claim_document_roundtrip, rule sealed_sample) (simp_all add: MAX_CANONICAL_DEPTH_def)

end
