(* ===== verification/Resource_Units.thy ===== *)
theory Resource_Units
  imports Python_Text Temporal Node_Id
begin

text \<open>
  \<open>resources/model.py\<close>, the value types: unit registries and their integer base
  units, \<open>Quantity\<close>, \<open>EnergyState\<close>, resource identifiers and \<open>Resource\<close>.  Fields
  that the code checks with \<open>isinstance\<close> are JSON values where a document can supply
  them; a raised \<open>ResourceError\<close> is its machine-readable code.
\<close>

section \<open>Errors and enumerations\<close>

datatype resource_error =
    ResourceError string
  | PyKeyError | PyTypeError | PyValueError \<comment> \<open>built-in exceptions the code lets escape\<close>

definition resource_kinds :: "string list" where
  "resource_kinds = [''bandwidth'', ''spectrum-availability'', ''compute'', ''storage'', ''energy'', ''backhaul'',
     ''coverage'', ''edge-service-capacity'']"

definition is_consumable :: "string \<Rightarrow> bool" where
  "is_consumable kind \<longleftrightarrow>
     kind \<in> {''bandwidth'', ''compute'', ''storage'', ''energy'', ''backhaul'', ''edge-service-capacity''}"

definition availability_modes :: "string list" where
  "availability_modes = [''continuous'', ''reservation-based'', ''best-effort'', ''scheduled'',
     ''quota-constrained'', ''metered'']"

definition measurement_sources :: "string list" where
  "measurement_sources = [''self-observation'', ''direct-agent'', ''remote-relay'', ''bootstrap-seed'']"

section \<open>Units\<close>

definition rate_units :: "(string, string \<times> int) dict" where
  "rate_units = [(''bps'', (''bps'', 1)), (''kbps'', (''bps'', 1000)), (''mbps'', (''bps'', 1000000)),
     (''gbps'', (''bps'', 1000000000))]"

definition unit_registry :: "(string, (string, string \<times> int) dict) dict" where
  "unit_registry =
     [(''bandwidth'', rate_units),
      (''spectrum-availability'', [(''Hz'', (''Hz'', 1)), (''kHz'', (''Hz'', 1000)), (''MHz'', (''Hz'', 1000000)),
         (''GHz'', (''Hz'', 1000000000))]),
      (''compute'', [(''millicores'', (''millicores'', 1)), (''cores'', (''millicores'', 1000))]),
      (''storage'', [(''bytes'', (''bytes'', 1)), (''KiB'', (''bytes'', 1024)), (''MiB'', (''bytes'', 1024 ^ 2)),
         (''GiB'', (''bytes'', 1024 ^ 3)), (''TiB'', (''bytes'', 1024 ^ 4))]),
      (''energy'', [(''millijoules'', (''millijoules'', 1)), (''joules'', (''millijoules'', 1000)),
         (''Wh'', (''millijoules'', 3600000)), (''kWh'', (''millijoules'', 3600000000))]),
      (''backhaul'', rate_units),
      (''coverage'', [(''count'', (''count'', 1)), (''thousand'', (''count'', 1000)), (''million'', (''count'', 1000000))]),
      (''edge-service-capacity'', [(''sessions'', (''sessions'', 1)), (''thousand-sessions'', (''sessions'', 1000))])]"

definition power_unit_registry :: "(string, string \<times> int) dict" where
  "power_unit_registry = [(''milliwatts'', (''milliwatts'', 1)), (''watts'', (''milliwatts'', 1000)),
     (''kilowatts'', (''milliwatts'', 1000000))]"

definition unit_lookup :: "string \<Rightarrow> string \<Rightarrow> resource_error + (string \<times> int)" where
  "unit_lookup kind u =
     (case dget unit_registry kind of
        None \<Rightarrow> Inl (ResourceError ''unit-kind'')
      | Some table \<Rightarrow>
          (case dget table u of None \<Rightarrow> Inl (ResourceError ''unit-unknown'') | Some entry \<Rightarrow> Inr entry))"

definition power_unit_lookup :: "string \<Rightarrow> resource_error + (string \<times> int)" where
  "power_unit_lookup u =
     (case dget power_unit_registry u of
        None \<Rightarrow> Inl (ResourceError ''power-unit-unknown'') | Some entry \<Rightarrow> Inr entry)"

definition unit_base_for :: "string \<Rightarrow> string \<Rightarrow> resource_error + string" where
  "unit_base_for kind u = bindE (unit_lookup kind u) (\<lambda>e. Inr (fst e))"

definition unit_multiplier_for :: "string \<Rightarrow> string \<Rightarrow> resource_error + int" where
  "unit_multiplier_for kind u = bindE (unit_lookup kind u) (\<lambda>e. Inr (snd e))"

definition power_unit_base :: "string \<Rightarrow> resource_error + string" where
  "power_unit_base u = bindE (power_unit_lookup u) (\<lambda>e. Inr (fst e))"

definition power_unit_multiplier :: "string \<Rightarrow> resource_error + int" where
  "power_unit_multiplier u = bindE (power_unit_lookup u) (\<lambda>e. Inr (snd e))"

section \<open>Quantities\<close>

record quantity =
  q_value :: int
  q_unit :: string
  q_dimension :: string

definition quantity_to_dict :: "quantity \<Rightarrow> string jval" where
  "quantity_to_dict q = JObj [(''value'', JInt (q_value q)), (''unit'', JStr (q_unit q)),
     (''dimension'', JStr (q_dimension q))]"

definition make_quantity :: "string jval \<Rightarrow> string jval \<Rightarrow> string jval \<Rightarrow> resource_error + quantity" where
  \<comment> \<open>the constructor; its canonicalisation check cannot fail on an integer and two strings\<close>
  "make_quantity v u d =
     bindE (case v of JInt i \<Rightarrow> Inr i | _ \<Rightarrow> Inl (ResourceError ''quantity-value'')) (\<lambda>i.
     bindE (guardE (i < 0) (ResourceError ''quantity-value'')) (\<lambda>_.
     bindE (case u of JStr s \<Rightarrow> if s = '''' then Inl (ResourceError ''quantity-unit'') else Inr s
                    | _ \<Rightarrow> Inl (ResourceError ''quantity-unit'')) (\<lambda>s.
     bindE (case d of JStr t \<Rightarrow> Inr t | _ \<Rightarrow> Inl (ResourceError ''quantity-dimension'')) (\<lambda>t.
       Inr \<lparr>q_value = i, q_unit = s, q_dimension = t\<rparr>))))"

definition to_base :: "quantity \<Rightarrow> string \<Rightarrow> resource_error + int" where
  "to_base q kind = bindE (unit_multiplier_for kind (q_unit q)) (\<lambda>k. Inr (q_value q * k))"

record energy_state =
  energy_level :: quantity
  energy_capacity :: quantity
  power_draw :: quantity

definition energy_unit_ok :: "quantity \<Rightarrow> resource_error + unit" where
  "energy_unit_ok q =
     (case unit_lookup ''energy'' (q_unit q) of
        Inl _ \<Rightarrow> Inl (ResourceError ''energy-unit'')
      | Inr e \<Rightarrow> guardE (fst e \<noteq> ''millijoules'') (ResourceError ''energy-unit''))"

definition make_energy_state :: "quantity \<Rightarrow> quantity \<Rightarrow> quantity \<Rightarrow> resource_error + energy_state" where
  "make_energy_state level capacity draw =
     bindE (energy_unit_ok level) (\<lambda>_.
     bindE (energy_unit_ok capacity) (\<lambda>_.
     bindE (case power_unit_lookup (q_unit draw) of
              Inl _ \<Rightarrow> Inl (ResourceError ''power-unit'')
            | Inr e \<Rightarrow> guardE (fst e \<noteq> ''milliwatts'') (ResourceError ''power-unit'')) (\<lambda>_.
     bindE (to_base level ''energy'') (\<lambda>l.
     bindE (to_base capacity ''energy'') (\<lambda>c.
     bindE (guardE (c < l) (ResourceError ''energy-state'')) (\<lambda>_.
       Inr \<lparr>energy_level = level, energy_capacity = capacity, power_draw = draw\<rparr>))))))"

definition energy_to_dict :: "energy_state \<Rightarrow> string jval" where
  "energy_to_dict e = JObj [(''energy_level'', quantity_to_dict (energy_level e)),
     (''energy_capacity'', quantity_to_dict (energy_capacity e)), (''power_draw'', quantity_to_dict (power_draw e))]"

section \<open>Resource identifiers\<close>

definition kind_segment :: "string \<Rightarrow> bool" where
  \<comment> \<open>\<open>[a-z][a-z0-9-]*\<close>\<close>
  "kind_segment s \<longleftrightarrow>
     (case s of [] \<Rightarrow> False
      | c # r \<Rightarrow> CHR ''a'' \<le> c \<and> c \<le> CHR ''z'' \<and> list_all (\<lambda>x. lower_alnum x \<or> x = CHR ''-'') r)"

definition match_resource_id :: "string \<Rightarrow> (string \<times> string \<times> string) option" where
  \<comment> \<open>\<open>_RESOURCE_ID_RE.fullmatch\<close> with its groups; no segment contains a colon\<close>
  "match_resource_id v =
     (case split_on CHR '':'' v of
        [a, b, c, d, p, g, k, h] \<Rightarrow>
          if a = ''adcos'' \<and> b = ''resource'' \<and> c = ''adcos'' \<and> d = ''node'' \<and> profile_ok p \<and> digest_ok g \<and>
             kind_segment k \<and> length h = 16 \<and> list_all lower_hex h
          then Some (node_prefix @ p @ '':'' @ g, k, h) else None
      | _ \<Rightarrow> None)"

definition make_resource_id :: "(bytes \<Rightarrow> string) \<Rightarrow> string \<Rightarrow> string \<Rightarrow> string \<Rightarrow> resource_error + string" where
  "make_resource_id sha256_hex owner kind scope =
     (case parse_node_id owner of
        Inl _ \<Rightarrow> Inl (ResourceError ''resource-id'')
      | Inr n \<Rightarrow>
          if kind \<notin> set resource_kinds then Inl (ResourceError ''resource-id'')
          else Inr (''adcos:resource:'' @ node_text n @ '':'' @ kind @ '':'' @ take 16 (sha256_hex (utf8_bytes scope))))"

definition parse_resource_id :: "string jval \<Rightarrow> resource_error + (string \<times> string \<times> string)" where
  "parse_resource_id v =
     (case v of
        JStr s \<Rightarrow>
          (case match_resource_id s of
             None \<Rightarrow> Inl (ResourceError ''resource-id'')
           | Some (owner, kind, scope_hash) \<Rightarrow>
               if node_ok owner then Inr (owner, kind, scope_hash) else Inl (ResourceError ''resource-id''))
      | _ \<Rightarrow> Inl (ResourceError ''resource-id''))"

record resource =
  r_resource_id :: string
  r_owner_node_id :: string
  r_kind :: string
  r_availability :: string
  r_base_unit :: string
  r_scope :: string
  r_created_at :: string

definition resource_to_dict :: "resource \<Rightarrow> string jval" where
  "resource_to_dict r = JObj [(''resource_id'', JStr (r_resource_id r)), (''owner_node_id'', JStr (r_owner_node_id r)),
     (''kind'', JStr (r_kind r)), (''availability'', JStr (r_availability r)), (''base_unit'', JStr (r_base_unit r)),
     (''scope'', JStr (r_scope r)), (''created_at'', JStr (r_created_at r))]"

definition derived_base :: "string \<Rightarrow> resource_error + string" where
  "derived_base kind =
     (case dget unit_registry kind of
        Some ((_, base, _) # _) \<Rightarrow> Inr base
      | _ \<Rightarrow> Inl (ResourceError ''resource-kind''))"

definition make_resource :: "(bytes \<Rightarrow> string) \<Rightarrow> resource \<Rightarrow> resource_error + resource" where
  \<comment> \<open>\<open>Resource.__post_init__\<close> on the given fields, filling in an empty \<open>base_unit\<close>; the
     final canonicalisation of seven strings cannot fail\<close>
  "make_resource sha256_hex r =
     bindE (parse_resource_id (JStr (r_resource_id r))) (\<lambda>(owner, kind, _).
     bindE (guardE (r_kind r \<notin> set resource_kinds) (ResourceError ''resource-kind'')) (\<lambda>_.
     bindE (case parse_node_id (r_owner_node_id r) of
              Inl _ \<Rightarrow> Inl (ResourceError ''resource-owner'') | Inr n \<Rightarrow> Inr (node_text n)) (\<lambda>own.
     bindE (guardE (owner \<noteq> own) (ResourceError ''resource-id'')) (\<lambda>_.
     bindE (guardE (kind \<noteq> r_kind r) (ResourceError ''resource-id'')) (\<lambda>_.
     bindE (make_resource_id sha256_hex own (r_kind r) (r_scope r)) (\<lambda>expected.
     bindE (guardE (r_resource_id r \<noteq> expected) (ResourceError ''resource-id'')) (\<lambda>_.
     bindE (guardE (r_availability r \<notin> set availability_modes) (ResourceError ''resource-availability'')) (\<lambda>_.
     bindE (derived_base (r_kind r)) (\<lambda>base.
     bindE (guardE (r_base_unit r \<noteq> '''' \<and> r_base_unit r \<noteq> base) (ResourceError ''resource-base-unit'')) (\<lambda>_.
     bindE (guardE (r_created_at r \<noteq> '''' \<and> parse_instant (r_created_at r) = None)
              (ResourceError ''resource-temporal'')) (\<lambda>_.
       Inr (r\<lparr>r_base_unit := base\<rparr>))))))))))))"

section \<open>Lemmas\<close>

lemma split_on_fresh: "c \<notin> set s \<Longrightarrow> split_on c s = [s]"
  by (induction s) auto

lemma split_on_append: "c \<notin> set s \<Longrightarrow> split_on c (s @ c # t) = s # split_on c t"
  by (induction s) auto

fun unsplit :: "'a \<Rightarrow> 'a list list \<Rightarrow> 'a list" where
  "unsplit c [] = []"
| "unsplit c [s] = s"
| "unsplit c (s # t # ss) = s @ c # unsplit c (t # ss)"

lemma split_on_nonempty: "split_on c s \<noteq> []"
  by (induction s) (auto split: list.splits)

lemma unsplit_split_on: "unsplit c (split_on c s) = s"
proof (induction s)
  case (Cons x s)
  obtain u us where u: "split_on c s = u # us"
    using split_on_nonempty [of c s] by (cases "split_on c s") auto
  with Cons show ?case by (cases us) auto
qed simp

lemma kind_segment_no_colon: "kind_segment s \<Longrightarrow> CHR '':'' \<notin> set s"
  by (rule profile_segment_no_colon)
    (auto simp: kind_segment_def profile_segment_def lower_alnum_def split: list.splits)

lemma hex_no_colon: "list_all lower_hex s \<Longrightarrow> CHR '':'' \<notin> set s"
  by (auto simp: list_all_iff lower_hex_def less_eq_char_def)

lemma match_resource_id_iff:
  "match_resource_id v = Some (owner, k, h) \<longleftrightarrow>
     v = ''adcos:resource:'' @ owner @ '':'' @ k @ '':'' @ h \<and> node_ok owner \<and> kind_segment k \<and>
     length h = 16 \<and> list_all lower_hex h"
proof
  assume m: "match_resource_id v = Some (owner, k, h)"
  then obtain p g where s: "split_on CHR '':'' v = [''adcos'', ''resource'', ''adcos'', ''node'', p, g, k, h]"
    and ok: "profile_ok p" "digest_ok g" "kind_segment k" "length h = 16" "list_all lower_hex h"
    and o: "owner = node_prefix @ p @ '':'' @ g"
    unfolding match_resource_id_def by (auto split: list.splits if_splits)
  have "parse_node_id owner = Inr \<lparr>profile_id = p, digest_hex = g\<rparr>"
    using ok o by (simp add: parse_node_id_iff node_text_def)
  moreover have "v = ''adcos:resource:'' @ owner @ '':'' @ k @ '':'' @ h"
    using unsplit_split_on [of "CHR '':''" v] s o by (simp add: node_prefix_def)
  ultimately show "v = ''adcos:resource:'' @ owner @ '':'' @ k @ '':'' @ h \<and> node_ok owner \<and> kind_segment k \<and>
     length h = 16 \<and> list_all lower_hex h" using ok by simp
next
  assume a: "v = ''adcos:resource:'' @ owner @ '':'' @ k @ '':'' @ h \<and> node_ok owner \<and> kind_segment k \<and>
     length h = 16 \<and> list_all lower_hex h"
  then obtain n where "parse_node_id owner = Inr n" by (auto simp: isOk_iff)
  then obtain p g where o: "owner = node_prefix @ p @ '':'' @ g" and ok: "profile_ok p" "digest_ok g"
    by (auto simp: parse_node_id_iff node_text_def)
  have nc: "CHR '':'' \<notin> set p" "CHR '':'' \<notin> set g" "CHR '':'' \<notin> set k" "CHR '':'' \<notin> set h"
    using ok a profile_no_colon digest_no_colon kind_segment_no_colon hex_no_colon by auto
  have "v = ''adcos'' @ CHR '':'' # ''resource'' @ CHR '':'' # ''adcos'' @ CHR '':'' # ''node'' @ CHR '':'' #
      p @ CHR '':'' # g @ CHR '':'' # k @ CHR '':'' # h"
    using a o by (simp add: node_prefix_def)
  moreover have "split_on CHR '':'' (p @ CHR '':'' # g @ CHR '':'' # k @ CHR '':'' # h) = [p, g, k, h]"
    using nc by (simp add: split_on_append split_on_fresh)
  ultimately have "split_on CHR '':'' v = [''adcos'', ''resource'', ''adcos'', ''node'', p, g, k, h]"
    by simp
  then show "match_resource_id v = Some (owner, k, h)"
    using a ok o by (simp add: match_resource_id_def)
qed

lemma parse_resource_id_iff:
  "parse_resource_id (JStr v) = Inr (owner, k, h) \<longleftrightarrow>
     v = ''adcos:resource:'' @ owner @ '':'' @ k @ '':'' @ h \<and> node_ok owner \<and> kind_segment k \<and>
     length h = 16 \<and> list_all lower_hex h"
  using match_resource_id_iff [of v owner k h]
  by (auto simp: parse_resource_id_def split: option.splits)

lemma resource_kind_segment: "k \<in> set resource_kinds \<Longrightarrow> kind_segment k"
proof -
  assume "k \<in> set resource_kinds"
  then have "k = ''bandwidth'' \<or> k = ''spectrum-availability'' \<or> k = ''compute'' \<or> k = ''storage'' \<or> k = ''energy'' \<or>
      k = ''backhaul'' \<or> k = ''coverage'' \<or> k = ''edge-service-capacity''"
    by (simp add: resource_kinds_def)
  then show "kind_segment k"
    by (elim disjE) (simp_all add: kind_segment_def lower_alnum_def less_eq_char_def)
qed

lemma make_resource_id_Inr:
  "make_resource_id H owner kind scope = Inr v \<longleftrightarrow>
     node_ok owner \<and> kind \<in> set resource_kinds \<and>
     v = ''adcos:resource:'' @ owner @ '':'' @ kind @ '':'' @ take 16 (H (utf8_bytes scope))"
  by (cases "parse_node_id owner") (auto simp: make_resource_id_def parse_node_id_text)

lemma make_parse_resource_id:
  assumes "make_resource_id H owner kind scope = Inr v" "digest_fun H"
  shows "parse_resource_id (JStr v) = Inr (owner, kind, take 16 (H (utf8_bytes scope)))"
proof -
  have "digest_ok (H (utf8_bytes scope))" using assms(2) by (simp add: digest_fun_def)
  then have "length (take 16 (H (utf8_bytes scope))) = 16" "list_all lower_hex (take 16 (H (utf8_bytes scope)))"
    by (auto simp: digest_ok_def list_all_iff dest: in_set_takeD)
  then show ?thesis
    using assms(1) resource_kind_segment unfolding parse_resource_id_iff make_resource_id_Inr by auto
qed

lemma make_resource_binds:
  assumes "make_resource H r = Inr r'"
  shows "r' = r\<lparr>r_base_unit := r_base_unit r'\<rparr> \<and> derived_base (r_kind r) = Inr (r_base_unit r') \<and>
    make_resource_id H (r_owner_node_id r) (r_kind r) (r_scope r) = Inr (r_resource_id r)"
  using assms unfolding make_resource_def
  by (auto simp: bindE_eq_Inr_iff parse_node_id_text split: sum.splits if_splits)

lemma unit_lookup_base:
  assumes "unit_lookup kind u = Inr (base, k)"
  shows "derived_base kind = Inr base \<and> 0 < k"
proof -
  from assms obtain table where t: "dget unit_registry kind = Some table" "dget table u = Some (base, k)"
    by (auto simp: unit_lookup_def split: option.splits)
  then have "(kind, table) \<in> set unit_registry" "(u, base, k) \<in> set table" by (auto dest: map_of_SomeD)
  moreover have "list_all (\<lambda>(kind, table). list_all (\<lambda>(u, b, k). derived_base kind = Inr b \<and> 0 < k) table) unit_registry"
    by (simp add: unit_registry_def rate_units_def derived_base_def)
  ultimately show ?thesis by (fastforce simp: list_all_iff)
qed

section \<open>Properties\<close>

text \<open>
  A resource id binds its resource: an accepted resource's id parses back to
  exactly its owner, its kind and the hash prefix of its scope, so no other owner or
  kind can be declared under that id, and its base unit is the registry's.
\<close>

theorem resource_id_binds:
  assumes "make_resource sha256_hex r = Inr r'" "digest_fun sha256_hex"
  shows "parse_resource_id (JStr (r_resource_id r'))
      = Inr (r_owner_node_id r', r_kind r', take 16 (sha256_hex (utf8_bytes (r_scope r')))) \<and>
    derived_base (r_kind r') = Inr (r_base_unit r')"
proof -
  from make_resource_binds [OF assms(1)] have b: "derived_base (r_kind r) = Inr (r_base_unit r')"
    "make_resource_id sha256_hex (r_owner_node_id r) (r_kind r) (r_scope r) = Inr (r_resource_id r)"
    and r': "r_resource_id r' = r_resource_id r" "r_owner_node_id r' = r_owner_node_id r" "r_kind r' = r_kind r"
      "r_scope r' = r_scope r"
    by (metis resource.select_convs resource.surjective resource.update_convs(5))+
  with make_parse_resource_id [OF b(2) assms(2)] show ?thesis by simp
qed

definition sample_hash :: "bytes \<Rightarrow> string" where
  \<comment> \<open>a hash with digests of the documented shape, for the witnesses\<close>
  "sample_hash b = replicate 64 CHR ''a''"

lemma sample_hash_ok: "digest_fun sample_hash"
  by (simp add: digest_fun_def sample_hash_def digest_ok_def list_all_iff lower_hex_def less_eq_char_def)

definition sample_resource :: "string \<Rightarrow> resource" where
  "sample_resource kind =
     \<lparr>r_resource_id = ''adcos:resource:'' @ sample_node CHR ''a'' @ '':'' @ kind @ '':'' @ replicate 16 CHR ''a'',
      r_owner_node_id = sample_node CHR ''a'', r_kind = kind, r_availability = ''metered'',
      r_base_unit = '''', r_scope = ''cell'', r_created_at = ''''\<rparr>"

lemma make_sample_resource:
  assumes "kind \<in> set resource_kinds" "derived_base kind = Inr base"
  shows "make_resource sample_hash (sample_resource kind) = Inr ((sample_resource kind)\<lparr>r_base_unit := base\<rparr>)"
proof -
  have id: "make_resource_id sample_hash (sample_node CHR ''a'') kind ''cell'' = Inr (r_resource_id (sample_resource kind))"
    using assms(1) by (simp add: make_resource_id_Inr sample_hash_def sample_resource_def)
  moreover have "parse_resource_id (JStr (r_resource_id (sample_resource kind)))
      = Inr (sample_node CHR ''a'', kind, take 16 (sample_hash (utf8_bytes ''cell'')))"
    by (rule make_parse_resource_id [OF id sample_hash_ok])
  moreover have "parse_node_id (sample_node CHR ''a'')
      = Inr \<lparr>profile_id = ''example.node'', digest_hex = replicate 64 CHR ''a''\<rparr>"
    by (rule sample_node_parse) simp
  moreover from this have "node_text \<lparr>profile_id = ''example.node'', digest_hex = replicate 64 CHR ''a''\<rparr> = sample_node CHR ''a''"
    by (rule parse_node_id_text)
  ultimately show ?thesis
    using assms by (simp add: make_resource_def sample_resource_def availability_modes_def)
qed

theorem resource_id_binds_witness:
  "parse_resource_id (JStr (r_resource_id (sample_resource ''storage'')))
     = Inr (sample_node CHR ''a'', ''storage'', replicate 16 CHR ''a'')"
proof -
  have "make_resource sample_hash (sample_resource ''storage'') = Inr ((sample_resource ''storage'')\<lparr>r_base_unit := ''bytes''\<rparr>)"
    by (rule make_sample_resource) (simp_all add: resource_kinds_def derived_base_def unit_registry_def)
  from resource_id_binds [OF this sample_hash_ok] show ?thesis by (simp add: sample_resource_def sample_hash_def)
qed

text \<open>
  Accounting is in one base unit per kind: every registered unit of a kind
  converts to the kind's derived base unit by a positive integer factor, so a
  quantity's base value is non-negative and zero only for a zero quantity.
\<close>

theorem base_units_agree:
  assumes "unit_lookup kind (q_unit q) = Inr (base, k)" "0 \<le> q_value q"
  shows "derived_base kind = Inr base \<and> to_base q kind = Inr (q_value q * k) \<and> 0 \<le> q_value q * k \<and>
    (q_value q * k = 0 \<longleftrightarrow> q_value q = 0)"
  using unit_lookup_base [OF assms(1)] assms by (simp add: to_base_def unit_multiplier_for_def)

theorem base_units_agree_witness:
  "to_base \<lparr>q_value = 3, q_unit = ''KiB'', q_dimension = ''''\<rparr> ''storage'' = Inr 3072"
proof -
  have "unit_lookup ''storage'' ''KiB'' = Inr (''bytes'', 1024)" by (simp add: unit_lookup_def unit_registry_def)
  with base_units_agree [of "''storage''" "\<lparr>q_value = 3, q_unit = ''KiB'', q_dimension = ''''\<rparr>"] show ?thesis by simp
qed

end
