(* ===== verification/Text_Guards.thy ===== *)
theory Text_Guards
  imports Node_Id Python_Text
begin

text \<open>
  Texts as the guards of several packages look at them: lower case, whole words, and
  which documents are mappings.
\<close>

definition ascii_lower :: "string \<Rightarrow> string" where
  \<comment> \<open>\<open>s.lower()\<close> as far as comparison with ASCII texts goes\<close>
  "ascii_lower s = map (\<lambda>c. if CHR ''A'' \<le> c \<and> c \<le> CHR ''Z'' then char_of (of_char c + 32 :: nat) else c) s"

fun has_word :: "string \<Rightarrow> bool \<Rightarrow> string \<Rightarrow> bool" where
  \<comment> \<open>a search for \<open>(?:^|[^a-z0-9])w(?:$|[^a-z0-9])\<close>; the flag says that a word may start here\<close>
  "has_word w start [] = False"
| "has_word w start (c # cs) \<longleftrightarrow>
     start \<and> take (length w) (c # cs) = w \<and>
       (case drop (length w) (c # cs) of [] \<Rightarrow> True | x # _ \<Rightarrow> \<not> lower_alnum x) \<or>
     has_word w (\<not> lower_alnum c) cs"

definition is_mapping :: "string jval \<Rightarrow> bool" where
  "is_mapping v = (case v of JObj _ \<Rightarrow> True | _ \<Rightarrow> False)"

definition texts_doc :: "string list \<Rightarrow> string jval" where
  "texts_doc ss = JArr (map JStr ss)"

end
