(* ===== verification/Resource_Records.thy ===== *)
theory Resource_Records
  imports Resource_Units Text_Guards
begin

text \<open>
  \<open>resources/model.py\<close>, the attributable records: \<open>ResourceOffer\<close> and
  \<open>ResourceMeasurement\<close> with every check of their constructors, their derived ids
  (SHA-256 is the parameter \<open>sha256_hex\<close>), the scan for secret material, and the
  construction from JSON documents, whose built-in exceptions (\<open>KeyError\<close>,
  \<open>TypeError\<close>, \<open>ValueError\<close>) are values of the error type.  A document is a decoded
  JSON text without floats.
\<close>

section \<open>Secret material\<close>

definition secret_hints :: "string list" where
  "secret_hints = [''private_key'', ''secret_key'', ''priv_key'', ''password'', ''token'', ''credential_secret'',
     ''subscriber_secret'', ''modem_secret'']"

definition looks_secret :: "string \<Rightarrow> bool" where
  "looks_secret s \<longleftrightarrow> ascii_lower s \<in> set secret_hints"

fun has_secret :: "string jval \<Rightarrow> bool" where
  "has_secret (JObj kvs) \<longleftrightarrow> (\<exists>kv \<in> set kvs. looks_secret (fst kv) \<or> has_secret (snd kv))"
| "has_secret (JArr xs) \<longleftrightarrow>
     (\<exists>x \<in> set xs. (case x of JStr s \<Rightarrow> looks_secret s | _ \<Rightarrow> False) \<or> has_secret x)"
| "has_secret _ \<longleftrightarrow> False"

definition reject_secret_material :: "string jval \<Rightarrow> resource_error + unit" where
  "reject_secret_material doc = guardE (has_secret doc) (ResourceError ''secret-material'')"

section \<open>Checks of fields\<close>

definition text_field :: "string \<Rightarrow> string jval \<Rightarrow> resource_error + string" where
  "text_field err v = (case v of JStr s \<Rightarrow> Inr s | _ \<Rightarrow> Inl (ResourceError err))"

definition nonempty_field :: "string \<Rightarrow> string jval \<Rightarrow> resource_error + string" where
  "nonempty_field err v =
     bindE (text_field err v) (\<lambda>s. if s = '''' then Inl (ResourceError err) else Inr s)"

definition node_field :: "string \<Rightarrow> string jval \<Rightarrow> resource_error + string" where
  "node_field err v =
     bindE (text_field err v) (\<lambda>s. if node_ok s then Inr s else Inl (ResourceError err))"

definition member_field :: "string list \<Rightarrow> string \<Rightarrow> string jval \<Rightarrow> resource_error + string" where
  "member_field vs err v =
     bindE (text_field err v) (\<lambda>s. if s \<in> set vs then Inr s else Inl (ResourceError err))"

definition instant_field :: "string \<Rightarrow> string jval \<Rightarrow> resource_error + (string \<times> int)" where
  "instant_field err v =
     bindE (text_field err v) (\<lambda>s.
       case parse_instant s of Some t \<Rightarrow> Inr (s, t) | None \<Rightarrow> Inl (ResourceError err))"

definition sequence_field :: "string \<Rightarrow> string jval \<Rightarrow> resource_error + int" where
  "sequence_field err v =
     (case v of JInt i \<Rightarrow> if i < 1 then Inl (ResourceError err) else Inr i | _ \<Rightarrow> Inl (ResourceError err))"

definition resource_id_field :: "string jval \<Rightarrow> resource_error + string" where
  \<comment> \<open>\<open>_validate_resource_id\<close>\<close>
  "resource_id_field v = bindE (parse_resource_id v) (\<lambda>_. text_field ''resource-id'' v)"

definition pairs_doc :: "(string \<times> string) list \<Rightarrow> string jval" where
  "pairs_doc ps = JArr (map (\<lambda>p. JArr [JStr (fst p), JStr (snd p)]) ps)"

section \<open>Offers\<close>

record resource_offer =
  of_resource_id :: string
  of_provider :: string
  of_quantity :: quantity
  of_valid_from :: string
  of_expires_at :: string
  of_sequence :: int
  of_conditions :: "(string \<times> string) list"
  of_evidence_refs :: "string list"
  of_provenance :: string
  of_offer_id :: string

record raw_offer =
  ro_resource_id :: "string jval"
  ro_provider :: "string jval"
  ro_quantity :: quantity
  ro_valid_from :: "string jval"
  ro_expires_at :: "string jval"
  ro_sequence :: "string jval"
  ro_conditions :: "(string \<times> string) list"
  ro_evidence_refs :: "string jval list"
  ro_provenance :: "string jval"
  ro_offer_id :: string

definition offer_signed_view :: "resource_offer \<Rightarrow> string jval" where
  "offer_signed_view f = JObj
     [(''resource_id'', JStr (of_resource_id f)),
      (''provider_node_id'', JStr (of_provider f)),
      (''quantity'', quantity_to_dict (of_quantity f)),
      (''conditions'', pairs_doc (of_conditions f)),
      (''valid_from'', JStr (of_valid_from f)),
      (''expires_at'', JStr (of_expires_at f)),
      (''sequence'', JInt (of_sequence f)),
      (''evidence_refs'', JArr (map JStr (of_evidence_refs f))),
      (''provenance'', JStr (of_provenance f))]"

definition offer_to_dict :: "resource_offer \<Rightarrow> string jval" where
  "offer_to_dict f =
     (case offer_signed_view f of JObj kvs \<Rightarrow> JObj ((''offer_id'', JStr (of_offer_id f)) # kvs) | v \<Rightarrow> v)"

definition offer_signature_input :: "resource_offer \<Rightarrow> resource_error + bytes" where
  "offer_signature_input f =
     (case canonical_bytes (offer_signed_view f) of
        Inl _ \<Rightarrow> Inl (ResourceError ''canonicalization'') | Inr b \<Rightarrow> Inr b)"

definition derive_offer_id :: "(bytes \<Rightarrow> string) \<Rightarrow> resource_offer \<Rightarrow> resource_error + string" where
  "derive_offer_id sha256_hex f = bindE (offer_signature_input f) (\<lambda>b. Inr (''sha256:'' @ sha256_hex b))"

definition checked_offer :: "raw_offer \<Rightarrow> resource_error + resource_offer" where
  \<comment> \<open>the checks of \<open>__post_init__\<close> up to the secret scan; conditions reach it as pairs of
     strings, whose canonicalisation cannot fail\<close>
  "checked_offer raw =
     bindE (resource_id_field (ro_resource_id raw)) (\<lambda>rid.
     bindE (node_field ''offer-provider'' (ro_provider raw)) (\<lambda>provider.
     bindE (sequence_field ''offer-sequence'' (ro_sequence raw)) (\<lambda>seq.
     bindE (instant_field ''offer-temporal'' (ro_valid_from raw)) (\<lambda>(valid_from, issued).
     bindE (instant_field ''offer-temporal'' (ro_expires_at raw)) (\<lambda>(expires_at, expires).
     bindE (guardE (expires < issued) (ResourceError ''offer-temporal'')) (\<lambda>_.
     bindE (mapE (nonempty_field ''offer-evidence'') (ro_evidence_refs raw)) (\<lambda>refs.
     bindE (text_field ''offer-provenance'' (ro_provenance raw)) (\<lambda>prov.
       Inr \<lparr>of_resource_id = rid, of_provider = provider, of_quantity = ro_quantity raw,
            of_valid_from = valid_from, of_expires_at = expires_at, of_sequence = seq,
            of_conditions = ro_conditions raw, of_evidence_refs = refs, of_provenance = prov,
            of_offer_id = ro_offer_id raw\<rparr>))))))))"

definition make_offer :: "(bytes \<Rightarrow> string) \<Rightarrow> raw_offer \<Rightarrow> resource_error + resource_offer" where
  "make_offer sha256_hex raw =
     bindE (checked_offer raw) (\<lambda>f.
     bindE (reject_secret_material (offer_to_dict f)) (\<lambda>_.
     bindE (derive_offer_id sha256_hex f) (\<lambda>derived.
       if of_offer_id f = '''' then Inr (f\<lparr>of_offer_id := derived\<rparr>)
       else if of_offer_id f \<noteq> derived then Inl (ResourceError ''offer-id'')
       else Inr f)))"

section \<open>Python's view of documents\<close>

definition py_falsy :: "string jval \<Rightarrow> bool" where
  "py_falsy v \<longleftrightarrow> v = JNull \<or> v = JBool False \<or> v = JInt 0 \<or> v = JStr '''' \<or> v = JArr [] \<or> v = JObj []"

definition py_iter :: "string jval \<Rightarrow> resource_error + string jval list" where
  \<comment> \<open>the items of \<open>for x in v\<close> and \<open>tuple(v)\<close>\<close>
  "py_iter v =
     (case v of
        JArr xs \<Rightarrow> Inr xs
      | JStr s \<Rightarrow> Inr (map (\<lambda>c. JStr [c]) s)
      | JObj kvs \<Rightarrow> Inr (map (\<lambda>kv. JStr (fst kv)) kvs)
      | _ \<Rightarrow> Inl PyTypeError)"

definition unpack_pair :: "string jval \<Rightarrow> resource_error + (string \<times> string)" where
  \<comment> \<open>\<open>k, v = item\<close> followed by \<open>(str(k), str(v))\<close>\<close>
  "unpack_pair item =
     bindE (py_iter item) (\<lambda>xs.
       case xs of [k, v] \<Rightarrow> Inr (py_str k, py_str v) | _ \<Rightarrow> Inl PyValueError)"

definition pairs_field :: "string jval \<Rightarrow> resource_error + (string \<times> string) list" where
  \<comment> \<open>\<open>tuple((str(k), str(v)) for k, v in (x or []))\<close>\<close>
  "pairs_field v =
     (if py_falsy v then Inr [] else bindE (py_iter v) (mapE unpack_pair))"

definition py_getitem :: "string jval \<Rightarrow> string \<Rightarrow> resource_error + string jval" where
  \<comment> \<open>\<open>v[key]\<close> with a string key\<close>
  "py_getitem v k =
     (case v of
        JObj d \<Rightarrow> (case dget d k of Some x \<Rightarrow> Inr x | None \<Rightarrow> Inl PyKeyError)
      | _ \<Rightarrow> Inl PyTypeError)"

definition quantity_of :: "string jval \<Rightarrow> resource_error + quantity" where
  \<comment> \<open>\<open>Quantity(v["value"], v["unit"], v.get("dimension", ""))\<close>\<close>
  "quantity_of v =
     bindE (py_getitem v ''value'') (\<lambda>x.
     bindE (py_getitem v ''unit'') (\<lambda>u.
       make_quantity x u (case v of JObj d \<Rightarrow> dgetd d ''dimension'' (JStr '''') | _ \<Rightarrow> JNull)))"

definition id_field :: "string \<Rightarrow> (string, string jval) dict \<Rightarrow> string \<Rightarrow> resource_error + string" where
  "id_field err d k =
     (case dgetd d k (JStr '''') of JNull \<Rightarrow> Inr '''' | JStr s \<Rightarrow> Inr s | _ \<Rightarrow> Inl (ResourceError err))"

definition offer_members :: "string list" where
  "offer_members = [''resource_id'', ''provider_node_id'', ''quantity'', ''valid_from'', ''expires_at'', ''sequence'',
     ''conditions'', ''evidence_refs'', ''provenance'']"

definition offer_from_mapping :: "(bytes \<Rightarrow> string) \<Rightarrow> string jval \<Rightarrow> resource_error + resource_offer" where
  "offer_from_mapping sha256_hex data =
     (case data of
        JObj d \<Rightarrow>
          if \<exists>k \<in> set offer_members. dget d k = None then Inl (ResourceError ''missing'')
          else if \<not> is_mapping (the (dget d ''quantity'')) then Inl (ResourceError ''offer-quantity'')
          else
            bindE (quantity_of (the (dget d ''quantity''))) (\<lambda>q.
            bindE (pairs_field (the (dget d ''conditions''))) (\<lambda>conditions.
            bindE (id_field ''offer-id'' d ''offer_id'') (\<lambda>oid.
            bindE (py_iter (the (dget d ''evidence_refs''))) (\<lambda>refs.
              make_offer sha256_hex
                \<lparr>ro_resource_id = the (dget d ''resource_id''), ro_provider = the (dget d ''provider_node_id''),
                 ro_quantity = q, ro_valid_from = the (dget d ''valid_from''),
                 ro_expires_at = the (dget d ''expires_at''), ro_sequence = the (dget d ''sequence''),
                 ro_conditions = conditions, ro_evidence_refs = refs,
                 ro_provenance = the (dget d ''provenance''), ro_offer_id = oid\<rparr>))))
      | _ \<Rightarrow> Inl (ResourceError ''offer''))"

section \<open>Measurements\<close>

datatype measured = MQuantity quantity | MEnergy energy_state

definition measured_to_dict :: "measured \<Rightarrow> string jval" where
  "measured_to_dict v = (case v of MQuantity q \<Rightarrow> quantity_to_dict q | MEnergy e \<Rightarrow> energy_to_dict e)"

record resource_measurement =
  rm_resource_id :: string
  rm_source :: string
  rm_observed_at :: string
  rm_freshness_until :: string
  rm_value :: measured
  rm_method_ref :: string
  rm_source_class :: string
  rm_sequence :: int
  rm_uncertainty :: "quantity option"
  rm_context :: "(string \<times> string) list"
  rm_evidence_refs :: "string list"
  rm_provenance :: string
  rm_measurement_id :: string

record raw_measurement =
  xm_resource_id :: "string jval"
  xm_source :: "string jval"
  xm_observed_at :: "string jval"
  xm_freshness_until :: "string jval"
  xm_value :: measured
  xm_method_ref :: "string jval"
  xm_source_class :: "string jval"
  xm_sequence :: "string jval"
  xm_uncertainty :: "quantity option"
  xm_context :: "(string \<times> string) list"
  xm_evidence_refs :: "string jval list"
  xm_provenance :: "string jval"
  xm_measurement_id :: string

definition measurement_signed_view :: "resource_measurement \<Rightarrow> string jval" where
  "measurement_signed_view x = JObj
     [(''resource_id'', JStr (rm_resource_id x)),
      (''source_node_id'', JStr (rm_source x)),
      (''source_class'', JStr (rm_source_class x)),
      (''observed_at'', JStr (rm_observed_at x)),
      (''freshness_until'', JStr (rm_freshness_until x)),
      (''value'', measured_to_dict (rm_value x)),
      (''method_ref'', JStr (rm_method_ref x)),
      (''uncertainty'', case rm_uncertainty x of None \<Rightarrow> JNull | Some q \<Rightarrow> quantity_to_dict q),
      (''context'', pairs_doc (rm_context x)),
      (''sequence'', JInt (rm_sequence x)),
      (''evidence_refs'', JArr (map JStr (rm_evidence_refs x))),
      (''provenance'', JStr (rm_provenance x))]"

definition measurement_to_dict :: "resource_measurement \<Rightarrow> string jval" where
  "measurement_to_dict x =
     (case measurement_signed_view x of
        JObj kvs \<Rightarrow> JObj ((''measurement_id'', JStr (rm_measurement_id x)) # kvs) | v \<Rightarrow> v)"

definition measurement_signature_input :: "resource_measurement \<Rightarrow> resource_error + bytes" where
  "measurement_signature_input x =
     (case canonical_bytes (measurement_signed_view x) of
        Inl _ \<Rightarrow> Inl (ResourceError ''canonicalization'') | Inr b \<Rightarrow> Inr b)"

definition derive_measurement_id :: "(bytes \<Rightarrow> string) \<Rightarrow> resource_measurement \<Rightarrow> resource_error + string" where
  "derive_measurement_id sha256_hex x =
     bindE (measurement_signature_input x) (\<lambda>b. Inr (''sha256:'' @ sha256_hex b))"

definition checked_measurement :: "raw_measurement \<Rightarrow> resource_error + resource_measurement" where
  "checked_measurement raw =
     bindE (resource_id_field (xm_resource_id raw)) (\<lambda>rid.
     bindE (node_field ''measurement-source'' (xm_source raw)) (\<lambda>source.
     bindE (member_field measurement_sources ''measurement-source-class'' (xm_source_class raw)) (\<lambda>source_class.
     bindE (instant_field ''measurement-temporal'' (xm_observed_at raw)) (\<lambda>(observed_at, observed).
     bindE (instant_field ''measurement-temporal'' (xm_freshness_until raw)) (\<lambda>(freshness_until, fresh).
     bindE (guardE (fresh < observed) (ResourceError ''measurement-temporal'')) (\<lambda>_.
     bindE (nonempty_field ''measurement-method'' (xm_method_ref raw)) (\<lambda>method_ref.
     bindE (sequence_field ''measurement-sequence'' (xm_sequence raw)) (\<lambda>seq.
     bindE (mapE (nonempty_field ''measurement-evidence'') (xm_evidence_refs raw)) (\<lambda>refs.
     bindE (text_field ''measurement-provenance'' (xm_provenance raw)) (\<lambda>prov.
       Inr \<lparr>rm_resource_id = rid, rm_source = source, rm_observed_at = observed_at,
            rm_freshness_until = freshness_until, rm_value = xm_value raw, rm_method_ref = method_ref,
            rm_source_class = source_class, rm_sequence = seq, rm_uncertainty = xm_uncertainty raw,
            rm_context = xm_context raw, rm_evidence_refs = refs, rm_provenance = prov,
            rm_measurement_id = xm_measurement_id raw\<rparr>))))))))))"

definition make_measurement :: "(bytes \<Rightarrow> string) \<Rightarrow> raw_measurement \<Rightarrow> resource_error + resource_measurement" where
  "make_measurement sha256_hex raw =
     bindE (checked_measurement raw) (\<lambda>x.
     bindE (reject_secret_material (measurement_to_dict x)) (\<lambda>_.
     bindE (derive_measurement_id sha256_hex x) (\<lambda>derived.
       if rm_measurement_id x = '''' then Inr (x\<lparr>rm_measurement_id := derived\<rparr>)
       else if rm_measurement_id x \<noteq> derived then Inl (ResourceError ''measurement-id'')
       else Inr x)))"

definition is_self_observation :: "resource_measurement \<Rightarrow> string \<Rightarrow> bool" where
  "is_self_observation x owner \<longleftrightarrow> rm_source_class x = ''self-observation'' \<and> rm_source x = owner"

definition measurement_members :: "string list" where
  "measurement_members = [''resource_id'', ''source_node_id'', ''observed_at'', ''freshness_until'', ''value'', ''method_ref'',
     ''source_class'', ''sequence'', ''context'', ''evidence_refs'', ''provenance'']"

definition measured_of :: "string jval \<Rightarrow> resource_error + measured" where
  "measured_of v =
     (case v of
        JObj d \<Rightarrow>
          if dget d ''energy_level'' \<noteq> None then
            bindE (py_getitem v ''energy_level'') (\<lambda>el.
            bindE (py_getitem v ''energy_capacity'') (\<lambda>ec.
            bindE (py_getitem v ''power_draw'') (\<lambda>pd.
            bindE (quantity_of el) (\<lambda>l. bindE (quantity_of ec) (\<lambda>c. bindE (quantity_of pd) (\<lambda>p.
            bindE (make_energy_state l c p) (\<lambda>e. Inr (MEnergy e))))))))
          else bindE (quantity_of v) (\<lambda>q. Inr (MQuantity q))
      | _ \<Rightarrow> Inl (ResourceError ''measurement-value''))"

definition measurement_from_mapping ::
    "(bytes \<Rightarrow> string) \<Rightarrow> string jval \<Rightarrow> resource_error + resource_measurement" where
  "measurement_from_mapping sha256_hex data =
     (case data of
        JObj d \<Rightarrow>
          if \<exists>k \<in> set measurement_members. dget d k = None then Inl (ResourceError ''missing'')
          else
            bindE (measured_of (the (dget d ''value''))) (\<lambda>val.
            bindE (case dgetd d ''uncertainty'' JNull of
                     JNull \<Rightarrow> Inr None
                   | JObj u \<Rightarrow> bindE (quantity_of (JObj u)) (\<lambda>q. Inr (Some q))
                   | _ \<Rightarrow> Inl (ResourceError ''measurement-uncertainty'')) (\<lambda>unc.
            bindE (pairs_field (the (dget d ''context''))) (\<lambda>ctx.
            bindE (id_field ''measurement-id'' d ''measurement_id'') (\<lambda>mid.
            bindE (py_iter (the (dget d ''evidence_refs''))) (\<lambda>refs.
              make_measurement sha256_hex
                \<lparr>xm_resource_id = the (dget d ''resource_id''), xm_source = the (dget d ''source_node_id''),
                 xm_observed_at = the (dget d ''observed_at''), xm_freshness_until = the (dget d ''freshness_until''),
                 xm_value = val, xm_method_ref = the (dget d ''method_ref''),
                 xm_source_class = the (dget d ''source_class''), xm_sequence = the (dget d ''sequence''),
                 xm_uncertainty = unc, xm_context = ctx, xm_evidence_refs = refs,
                 xm_provenance = the (dget d ''provenance''), xm_measurement_id = mid\<rparr>)))))
      | _ \<Rightarrow> Inl (ResourceError ''measurement''))"

end
