(* ===== verification/Accounts.thy ===== *)
theory Accounts
  imports Resource_Units
begin

text \<open>
  \<open>ResourceAccount\<close> of \<open>resources/model.py\<close>: the integer ledger of one resource.  An
  operation returns the account it leaves behind together with its result, because
  some exceptions are raised after the account has been changed.
\<close>

section \<open>The account\<close>

record account =
  a_resource_id :: string
  a_offered :: int
  a_reserved :: int
  a_consumed :: int
  a_offer_sequence :: int
  a_version :: int
  a_offer_id :: string
  a_operations :: "(string, string) dict"

record accounting_outcome =
  ao_accepted :: bool
  ao_code :: string

definition invariant_violation :: "account \<Rightarrow> bool" where
  \<comment> \<open>\<open>_check_invariants\<close> raises\<close>
  "invariant_violation a \<longleftrightarrow>
     a_reserved a < 0 \<or> a_consumed a < 0 \<or> a_offered a < a_reserved a + a_consumed a"

definition make_account :: "account \<Rightarrow> resource_error + account" where
  \<comment> \<open>\<open>__post_init__\<close>\<close>
  "make_account a =
     bindE (guardE (a_offered a < 0) (ResourceError ''account-offered'')) (\<lambda>_.
     bindE (guardE (a_offer_sequence a < 1) (ResourceError ''account-offer-sequence'')) (\<lambda>_.
     bindE (guardE (a_version a < 1) (ResourceError ''account-version'')) (\<lambda>_.
     bindE (guardE (invariant_violation a) (ResourceError ''account-invariant'')) (\<lambda>_. Inr a))))"

definition remaining :: "account \<Rightarrow> int" where
  "remaining a = a_offered a - a_reserved a - a_consumed a"

section \<open>Operations\<close>

type_synonym account_step = "account \<times> (resource_error + accounting_outcome)"

definition precheck :: "account \<Rightarrow> string \<Rightarrow> int \<Rightarrow> int option \<Rightarrow> (resource_error + accounting_outcome) option" where
  \<comment> \<open>the checks every operation starts with; \<open>None\<close> lets it go on\<close>
  "precheck a op_id qty expected_version =
     (if op_id = '''' then Some (Inl (ResourceError ''account-op''))
      else if qty < 0 then Some (Inl (ResourceError ''account-qty''))
      else if dget (a_operations a) op_id \<noteq> None then Some (Inr \<lparr>ao_accepted = True, ao_code = ''idempotent''\<rparr>)
      else if (case expected_version of None \<Rightarrow> False | Some v \<Rightarrow> v \<noteq> a_version a)
      then Some (Inl (ResourceError ''account-stale-version''))
      else None)"

definition commit :: "account \<Rightarrow> string \<Rightarrow> string \<Rightarrow> string \<Rightarrow> account_step" where
  \<comment> \<open>bump the version, record the operation, then check the invariants\<close>
  "commit a op_id recorded outcome =
     (let a' = a\<lparr>a_version := a_version a + 1, a_operations := dset (a_operations a) op_id recorded\<rparr>
      in (a', if invariant_violation a' then Inl (ResourceError ''account-invariant'')
              else Inr \<lparr>ao_accepted = True, ao_code = outcome\<rparr>))"

definition reserve :: "account \<Rightarrow> string \<Rightarrow> int \<Rightarrow> int option \<Rightarrow> account_step" where
  "reserve a op_id qty expected_version =
     (case precheck a op_id qty expected_version of
        Some r \<Rightarrow> (a, r)
      | None \<Rightarrow>
          if a_offered a < a_reserved a + qty then (a, Inl (ResourceError ''account-oversubscription''))
          else commit (a\<lparr>a_reserved := a_reserved a + qty\<rparr>) op_id ''reserved'' ''reserved'')"

definition release_reservation :: "account \<Rightarrow> string \<Rightarrow> int \<Rightarrow> int option \<Rightarrow> account_step" where
  "release_reservation a op_id qty expected_version =
     (case precheck a op_id qty expected_version of
        Some r \<Rightarrow> (a, r)
      | None \<Rightarrow>
          if a_reserved a < qty then (a, Inl (ResourceError ''account-release''))
          else commit (a\<lparr>a_reserved := a_reserved a - qty\<rparr>) op_id ''released-reservation'' ''released'')"

definition consume :: "account \<Rightarrow> string \<Rightarrow> int \<Rightarrow> int option \<Rightarrow> account_step" where
  "consume a op_id qty expected_version =
     (case precheck a op_id qty expected_version of
        Some r \<Rightarrow> (a, r)
      | None \<Rightarrow>
          if a_offered a - a_consumed a < qty then (a, Inl (ResourceError ''account-overconsumption''))
          else
            let transfer = (if qty \<le> a_reserved a then qty else a_reserved a)
            in commit (a\<lparr>a_reserved := a_reserved a - transfer, a_consumed := a_consumed a + qty\<rparr>)
                 op_id ''consumed'' ''consumed'')"

definition release_consumption :: "account \<Rightarrow> string \<Rightarrow> int \<Rightarrow> int option \<Rightarrow> account_step" where
  "release_consumption a op_id qty expected_version =
     (case precheck a op_id qty expected_version of
        Some r \<Rightarrow> (a, r)
      | None \<Rightarrow>
          if a_consumed a < qty then (a, Inl (ResourceError ''account-release''))
          else commit (a\<lparr>a_consumed := a_consumed a - qty\<rparr>) op_id ''released-consumption'' ''released'')"

definition account_to_dict :: "account \<Rightarrow> string jval" where
  "account_to_dict a = JObj [(''resource_id'', JStr (a_resource_id a)), (''offered'', JInt (a_offered a)),
     (''reserved'', JInt (a_reserved a)), (''consumed'', JInt (a_consumed a)), (''remaining'', JInt (remaining a)),
     (''offer_sequence'', JInt (a_offer_sequence a)), (''version'', JInt (a_version a)),
     (''offer_id'', JStr (a_offer_id a))]"

section \<open>Every history of an account\<close>

inductive account_step :: "account \<Rightarrow> account \<Rightarrow> bool" where
  reserve: "account_step a (fst (reserve a op_id qty v))"
| release_reservation: "account_step a (fst (release_reservation a op_id qty v))"
| consume: "account_step a (fst (consume a op_id qty v))"
| release_consumption: "account_step a (fst (release_consumption a op_id qty v))"

inductive reachable_account :: "account \<Rightarrow> bool" where
  start: "make_account a = Inr a' \<Longrightarrow> a_operations a = [] \<Longrightarrow> reachable_account a'"
| step: "reachable_account a \<Longrightarrow> account_step a a' \<Longrightarrow> reachable_account a'"

inductive_cases account_stepE: "account_step a a'"

lemmas operation_defs = reserve_def release_reservation_def consume_def release_consumption_def

lemma commit_fields [simp]:
  "fst (commit a op r c) = a\<lparr>a_version := a_version a + 1, a_operations := dset (a_operations a) op r\<rparr>"
  "snd (commit a op r c) = Inr x \<longleftrightarrow> \<not> invariant_violation a \<and> x = \<lparr>ao_accepted = True, ao_code = c\<rparr>"
  "snd (commit a op r c) = Inl e \<longleftrightarrow> invariant_violation a \<and> e = ResourceError ''account-invariant''"
  by (auto simp: commit_def Let_def invariant_violation_def)

text \<open>An operation either leaves the account alone or commits exactly one change.\<close>

lemma operation_cases:
  assumes "account_step a a'"
  obtains (same) "a' = a"
  | (commit) op_id qty res con r where "dget (a_operations a) op_id = None" "op_id \<noteq> ''''" "0 \<le> qty"
      "a' = a\<lparr>a_reserved := res, a_consumed := con, a_version := a_version a + 1,
              a_operations := dset (a_operations a) op_id r\<rparr>"
      "res = a_reserved a + qty \<and> con = a_consumed a \<and> res \<le> a_offered a \<or>
       res = a_reserved a - qty \<and> con = a_consumed a \<and> qty \<le> a_reserved a \<or>
       res = a_reserved a - min qty (a_reserved a) \<and> con = a_consumed a + qty \<and> con \<le> a_offered a \<or>
       res = a_reserved a \<and> con = a_consumed a - qty \<and> qty \<le> a_consumed a"
proof -
  have pre: "precheck a op q v = None \<Longrightarrow> dget (a_operations a) op = None \<and> op \<noteq> '''' \<and> 0 \<le> q" for op q v
    by (auto simp: precheck_def split: if_splits)
  from assms show thesis
  proof (rule account_stepE)
    fix op q v assume a': "a' = fst (reserve a op q v)"
    show thesis
    proof (cases "precheck a op q v = None \<and> a_reserved a + q \<le> a_offered a")
      case True
      with a' pre [of op q v] show thesis 
        by (intro commit [where op_id = op and qty = q and res = "a_reserved a + q" and con = "a_consumed a" and r = "''reserved''"])
          (simp_all add: reserve_def Let_def min_def)
    next
      case False
      with a' same show thesis by (auto simp: reserve_def split: option.splits)
    qed
  next
    fix op q v assume a': "a' = fst (release_reservation a op q v)"
    show thesis
    proof (cases "precheck a op q v = None \<and> q \<le> a_reserved a")
      case True
      with a' pre [of op q v] show thesis 
        by (intro commit [where op_id = op and qty = q and res = "a_reserved a - q" and con = "a_consumed a" and r = "''released-reservation''"])
          (simp_all add: release_reservation_def Let_def min_def)
    next
      case False
      with a' same show thesis by (auto simp: release_reservation_def split: option.splits)
    qed
  next
    fix op q v assume a': "a' = fst (consume a op q v)"
    show thesis
    proof (cases "precheck a op q v = None \<and> q \<le> a_offered a - a_consumed a")
      case True
      with a' pre [of op q v] show thesis
        by (intro commit [where op_id = op and qty = q and res = "a_reserved a - min q (a_reserved a)" and con = "a_consumed a + q" and r = "''consumed''"])
          (simp_all add: consume_def Let_def min_def)
    next
      case False
      with a' same show thesis by (auto simp: consume_def split: option.splits)
    qed
  next
    fix op q v assume a': "a' = fst (release_consumption a op q v)"
    show thesis
    proof (cases "precheck a op q v = None \<and> q \<le> a_consumed a")
      case True
      with a' pre [of op q v] show thesis 
        by (intro commit [where op_id = op and qty = q and res = "a_reserved a" and con = "a_consumed a - q" and r = "''released-consumption''"])
          (simp_all add: release_consumption_def Let_def min_def)
    next
      case False
      with a' same show thesis by (auto simp: release_consumption_def split: option.splits)
    qed
  qed
qed

definition ledger_bounds :: "account \<Rightarrow> bool" where
  "ledger_bounds a \<longleftrightarrow> 0 \<le> a_reserved a \<and> a_reserved a \<le> a_offered a \<and> 0 \<le> a_consumed a \<and> a_consumed a \<le> a_offered a \<and>
     1 \<le> a_offer_sequence a"

lemma ledger_bounds_step: "account_step a a' \<Longrightarrow> ledger_bounds a \<Longrightarrow> ledger_bounds a'"
  by (erule operation_cases) (auto simp: ledger_bounds_def min_def split: if_splits)

lemma reachable_bounds:
  "reachable_account a \<Longrightarrow> ledger_bounds a \<and> (\<exists>v. 1 \<le> v \<and> a_version a = v + int (length (a_operations a))) \<and>
     dict_wf (a_operations a)"
proof (induction rule: reachable_account.induct)
  case (start a a')
  then show ?case
    by (auto simp: make_account_def invariant_violation_def ledger_bounds_def split: if_splits)
next
  case (step a a')
  from step.hyps(2) show ?case
  proof (cases rule: operation_cases)
    case (commit op_id qty res con r)
    then show ?thesis using step.IH ledger_bounds_step [OF step.hyps(2)] by (auto simp: update_fresh)
  qed (use step.IH in simp)
qed

section \<open>Histories with their results\<close>

text \<open>
  A history of calls on one account with the result of every call, so that properties
  can tell the runs in which an operation raised an invariant error from the others.
\<close>

type_synonym account_result = "resource_error + accounting_outcome"

definition account_operations :: "(account \<Rightarrow> string \<Rightarrow> int \<Rightarrow> int option \<Rightarrow> account_step) list" where
  "account_operations = [reserve, release_reservation, consume, release_consumption]"

inductive account_run :: "account \<Rightarrow> account_result list \<Rightarrow> account \<Rightarrow> bool" where
  none: "account_run a [] a"
| call: "account_run a rs b \<Longrightarrow> f \<in> set account_operations \<Longrightarrow>
    account_run a (rs @ [snd (f b op_id qty v)]) (fst (f b op_id qty v))"

lemma account_operation_step: "f \<in> set account_operations \<Longrightarrow> account_step a (fst (f a op q v))"
  by (auto simp: account_operations_def intro: account_step.intros)

lemma account_run_reachable: "account_run a rs b \<Longrightarrow> reachable_account a \<Longrightarrow> reachable_account b"
  by (induction rule: account_run.induct) (auto intro: reachable_account.step account_operation_step)

text \<open>No operation forgets an operation id, and every new id costs one version.\<close>

definition ids_kept :: "account \<Rightarrow> account \<Rightarrow> bool" where
  "ids_kept a b \<longleftrightarrow>
     (\<forall>op. dget (a_operations a) op \<noteq> None \<longrightarrow> dget (a_operations b) op \<noteq> None) \<and>
     a_version b - int (length (a_operations b)) = a_version a - int (length (a_operations a)) \<and>
     a_resource_id b = a_resource_id a \<and> a_offer_id b = a_offer_id a \<and> a_offered b = a_offered a \<and>
     a_offer_sequence b = a_offer_sequence a"

lemma ids_kept_step: "account_step a a' \<Longrightarrow> ids_kept a a'"
  by (erule operation_cases) (auto simp: ids_kept_def update_fresh)

lemma ids_kept_run: "account_run a rs b \<Longrightarrow> ids_kept a b"
proof (induction rule: account_run.induct)
  case (call a rs b f op_id qty v)
  from ids_kept_step [OF account_operation_step [OF call.hyps(2)], of b op_id qty v] call.IH show ?case
    by (auto simp: ids_kept_def)
qed (simp add: ids_kept_def)

lemma invariant_until_raised:
  assumes "account_run a rs b" "\<not> invariant_violation a" "Inl (ResourceError ''account-invariant'') \<notin> set rs"
  shows "\<not> invariant_violation b"
  using assms
proof (induction rule: account_run.induct)
  case (call a rs b f op_id qty v)
  then have b: "\<not> invariant_violation b" and n: "snd (f b op_id qty v) \<noteq> Inl (ResourceError ''account-invariant'')" by auto
  from call.hyps(2) b n show ?case
    by (auto simp: account_operations_def operation_defs precheck_def Let_def commit_def split: option.splits if_splits)
qed

section \<open>Properties\<close>

lemma precheck_repeat:
  "dget (a_operations a) op \<noteq> None \<Longrightarrow> op \<noteq> '''' \<Longrightarrow> 0 \<le> q \<Longrightarrow>
   precheck a op q v = Some (Inr \<lparr>ao_accepted = True, ao_code = ''idempotent''\<rparr>)"
  by (auto simp: precheck_def)

lemma precheck_passed:
  "precheck a op q v = Some (Inr r) \<Longrightarrow> dget (a_operations a) op \<noteq> None \<and> op \<noteq> '''' \<and> 0 \<le> q"
  "precheck a op q v = None \<Longrightarrow> op \<noteq> '''' \<and> 0 \<le> q"
  by (auto simp: precheck_def split: if_splits)

lemma repeated_operation:
  assumes "f \<in> set account_operations" "dget (a_operations a) op \<noteq> None" "op \<noteq> ''''" "0 \<le> q"
  shows "f a op q v = (a, Inr \<lparr>ao_accepted = True, ao_code = ''idempotent''\<rparr>)"
proof -
  note p = precheck_repeat [OF assms(2-4), of v]
  from assms(1) show ?thesis by (auto simp: account_operations_def operation_defs p)
qed

lemma accepted_recorded:
  assumes "f \<in> set account_operations" "snd (f a op q v) = Inr r"
  shows "dget (a_operations (fst (f a op q v))) op \<noteq> None \<and> op \<noteq> '''' \<and> 0 \<le> q"
proof (cases "precheck a op q v")
  case None
  from assms(1) have "f = reserve \<or> f = release_reservation \<or> f = consume \<or> f = release_consumption"
    by (auto simp: account_operations_def)
  then have "dget (a_operations (fst (f a op q v))) op \<noteq> None"
    using assms(2) None by (elim disjE) (auto simp: operation_defs Let_def split: if_splits)
  with precheck_passed(2) [OF None] show ?thesis by blast
next
  case (Some x)
  from assms(1) have "f a op q v = (a, x)" by (auto simp: account_operations_def operation_defs Some)
  with assms(2) Some precheck_passed(1) [of a op q v r] show ?thesis by simp
qed

lemma negative_quantity:
  assumes "f \<in> set account_operations" "op \<noteq> ''''" "q < 0"
  shows "f a op q v = (a, Inl (ResourceError ''account-qty''))"
proof -
  have p: "precheck a op q v = Some (Inl (ResourceError ''account-qty''))" using assms(2,3) by (simp add: precheck_def)
  from assms(1) show ?thesis by (auto simp: account_operations_def operation_defs p)
qed

text \<open>
  C36: Operations are exactly-once: when an operation was accepted, then after any later
  calls whatever an operation with the same id, of any kind, quantity and expected
  version, changes nothing; it is answered as idempotent, or raises the quantity error
  when its quantity is negative.
\<close>

theorem operations_exactly_once:
  assumes "f \<in> set account_operations" "snd (f a op_id qty v) = Inr r"
    and "account_run (fst (f a op_id qty v)) rs b" "g \<in> set account_operations"
  shows "g b op_id qty' v' =
    (b, if qty' < 0 then Inl (ResourceError ''account-qty'')
        else Inr \<lparr>ao_accepted = True, ao_code = ''idempotent''\<rparr>)"
proof -
  note rec = accepted_recorded [OF assms(1,2)]
  then have "dget (a_operations b) op_id \<noteq> None" using ids_kept_run [OF assms(3)] by (simp add: ids_kept_def)
  with rec show ?thesis
    using repeated_operation [OF assms(4)] negative_quantity [OF assms(4)] by (cases "qty' < 0") simp_all
qed

definition sample_account :: "int \<Rightarrow> int \<Rightarrow> int \<Rightarrow> account" where
  "sample_account offered res con = \<lparr>a_resource_id = ''r'', a_offered = offered, a_reserved = res, a_consumed = con,
     a_offer_sequence = 1, a_version = 1, a_offer_id = ''o'', a_operations = []\<rparr>"

theorem operations_exactly_once_witness:
  "consume (fst (release_reservation (fst (reserve (sample_account 10 0 0) ''x'' 4 None)) ''y'' 1 None)) ''x'' 7 None =
    (fst (release_reservation (fst (reserve (sample_account 10 0 0) ''x'' 4 None)) ''y'' 1 None),
     Inr \<lparr>ao_accepted = True, ao_code = ''idempotent''\<rparr>)"
proof -
  let ?a = "fst (reserve (sample_account 10 0 0) ''x'' 4 None)"
  have ops: "reserve \<in> set account_operations" "release_reservation \<in> set account_operations" "consume \<in> set account_operations"
    by (simp_all add: account_operations_def)
  have "snd (reserve (sample_account 10 0 0) ''x'' 4 None) = Inr \<lparr>ao_accepted = True, ao_code = ''reserved''\<rparr>"
    by (simp add: reserve_def precheck_def sample_account_def invariant_violation_def)
  moreover have "account_run ?a ([] @ [snd (release_reservation ?a ''y'' 1 None)]) (fst (release_reservation ?a ''y'' 1 None))"
    by (rule account_run.call [OF account_run.none ops(2)])
  ultimately show ?thesis
    using operations_exactly_once [OF ops(1) _ _ ops(3), of "sample_account 10 0 0" "''x''" 4 None _ _ _ 7 None] by simp
qed

text \<open>
  C37: After any calls on a constructed account, whichever of them raised, neither the
  reserved nor the consumed quantity is negative or above the offered one, the offer the
  account was built for is untouched, and the version has grown by exactly the number of
  recorded operation ids, which are distinct.  The documented invariant, that reserved and
  consumed together stay within the offer, holds as long as no call raised it as an error.
\<close>

theorem reachable_account_bounded:
  assumes "make_account a = Inr a" "a_operations a = []" "account_run a rs b"
  shows "0 \<le> a_reserved b \<and> a_reserved b \<le> a_offered b \<and> 0 \<le> a_consumed b \<and> a_consumed b \<le> a_offered b \<and>
    a_offered b = a_offered a \<and> a_resource_id b = a_resource_id a \<and> a_offer_id b = a_offer_id a \<and>
    a_version b = a_version a + int (length (a_operations b)) \<and> distinct (map fst (a_operations b)) \<and>
    (Inl (ResourceError ''account-invariant'') \<notin> set rs \<longrightarrow> a_reserved b + a_consumed b \<le> a_offered b)"
proof -
  have "reachable_account a" by (rule reachable_account.start [OF assms(1,2)])
  from reachable_bounds [OF account_run_reachable [OF assms(3) this]]
  have l: "ledger_bounds b" "dict_wf (a_operations b)" by simp_all
  have "\<not> invariant_violation a" using assms(1) by (auto simp: make_account_def)
  from invariant_until_raised [OF assms(3) this]
  have i: "Inl (ResourceError ''account-invariant'') \<notin> set rs \<longrightarrow> a_reserved b + a_consumed b \<le> a_offered b"
    by (auto simp: invariant_violation_def)
  from ids_kept_run [OF assms(3)] l i assms(2) show ?thesis by (simp add: ids_kept_def ledger_bounds_def)
qed

theorem reachable_account_bounded_witness:
  "a_version (fst (reserve (sample_account 10 0 6) ''x'' 8 None)) = 2 \<and>
   a_reserved (fst (reserve (sample_account 10 0 6) ''x'' 8 None)) \<le> 10"
proof -
  let ?a = "sample_account 10 0 6"
  have "account_run ?a ([] @ [snd (reserve ?a ''x'' 8 None)]) (fst (reserve ?a ''x'' 8 None))"
    by (rule account_run.call [OF account_run.none]) (simp add: account_operations_def)
  moreover have "make_account ?a = Inr ?a" "a_operations ?a = []"
    by (simp_all add: make_account_def invariant_violation_def sample_account_def)
  ultimately show ?thesis
    using reachable_account_bounded [of ?a] by (fastforce simp: reserve_def precheck_def sample_account_def)
qed

text \<open>
  From an account within its invariants, releasing and consuming keep them, raise
  no invariant error and leave the account unchanged when they raise; a consumption
  that is accepted draws on the reservation first, so it reduces the remaining
  quantity only by the part that was not reserved; a reservation keeps the
  invariants when it fits beside what is already consumed.
\<close>

theorem account_invariants_kept:
  assumes "\<not> invariant_violation a"
  shows "\<not> invariant_violation (fst (release_reservation a op qty v)) \<and>
    \<not> invariant_violation (fst (consume a op qty v)) \<and>
    \<not> invariant_violation (fst (release_consumption a op qty v)) \<and>
    (snd (consume a op qty v) = Inl e \<longrightarrow> fst (consume a op qty v) = a \<and> e \<noteq> ResourceError ''account-invariant'') \<and>
    (snd (consume a op qty v) = Inr \<lparr>ao_accepted = True, ao_code = ''consumed''\<rparr> \<longrightarrow>
       remaining (fst (consume a op qty v)) = remaining a - max 0 (qty - a_reserved a)) \<and>
    (a_reserved a + a_consumed a + qty \<le> a_offered a \<longrightarrow> \<not> invariant_violation (fst (reserve a op qty v)))"
proof (intro conjI impI)
  have pre: "precheck a op qty v = None \<Longrightarrow> 0 \<le> qty" by (auto simp: precheck_def split: if_splits)
  show "\<not> invariant_violation (fst (release_reservation a op qty v))"
    using assms pre by (auto simp: release_reservation_def invariant_violation_def split: option.splits)
  show "\<not> invariant_violation (fst (consume a op qty v))"
    using assms pre by (auto simp: consume_def Let_def invariant_violation_def split: option.splits)
  show "\<not> invariant_violation (fst (release_consumption a op qty v))"
    using assms pre by (auto simp: release_consumption_def invariant_violation_def split: option.splits)
  show "\<not> invariant_violation (fst (reserve a op qty v))" if "a_reserved a + a_consumed a + qty \<le> a_offered a"
    using assms pre that by (auto simp: reserve_def invariant_violation_def split: option.splits)
  have ok: "qty \<le> a_offered a - a_consumed a \<Longrightarrow> precheck a op qty v = None \<Longrightarrow>
      \<not> invariant_violation (a\<lparr>a_reserved := a_reserved a - (if qty \<le> a_reserved a then qty else a_reserved a),
                            a_consumed := a_consumed a + qty\<rparr>)"
    using assms pre by (auto simp: invariant_violation_def)
  show "fst (consume a op qty v) = a" "e \<noteq> ResourceError ''account-invariant''" if "snd (consume a op qty v) = Inl e"
    using that ok by (auto simp: consume_def Let_def precheck_def split: option.splits if_splits)
  show "remaining (fst (consume a op qty v)) = remaining a - max 0 (qty - a_reserved a)"
    if "snd (consume a op qty v) = Inr \<lparr>ao_accepted = True, ao_code = ''consumed''\<rparr>"
    using that by (auto simp: consume_def Let_def precheck_def remaining_def split: option.splits if_splits)
qed

theorem account_invariants_kept_witness:
  "remaining (fst (consume (sample_account 10 4 0) ''x'' 6 None)) = 4"
proof -
  have "\<not> invariant_violation (sample_account 10 4 0)" by (simp add: invariant_violation_def sample_account_def)
  moreover have "snd (consume (sample_account 10 4 0) ''x'' 6 None) = Inr \<lparr>ao_accepted = True, ao_code = ''consumed''\<rparr>"
    by (simp add: consume_def precheck_def sample_account_def invariant_violation_def)
  ultimately show ?thesis
    using account_invariants_kept [of "sample_account 10 4 0" "''x''" 6 None] by (simp add: remaining_def sample_account_def)
qed

text \<open>
  A reservation that fits under the offered quantity but not beside what is
  consumed is raised as an invariant error only after it was booked: the account is
  left oversubscribed, and repeating the operation is answered as accepted.
\<close>

theorem reserve_ignores_consumed:
  assumes "dget (a_operations a) op = None" "op \<noteq> ''''" "0 \<le> qty" "v = None \<or> v = Some (a_version a)"
    and "a_reserved a + qty \<le> a_offered a" "a_offered a < a_reserved a + qty + a_consumed a"
  shows "snd (reserve a op qty v) = Inl (ResourceError ''account-invariant'') \<and>
    a_reserved (fst (reserve a op qty v)) = a_reserved a + qty \<and>
    invariant_violation (fst (reserve a op qty v)) \<and>
    snd (reserve (fst (reserve a op qty v)) op qty v') = Inr \<lparr>ao_accepted = True, ao_code = ''idempotent''\<rparr>"
proof -
  have "precheck a op qty v = None" using assms(1-4) by (auto simp: precheck_def)
  then have r: "reserve a op qty v = commit (a\<lparr>a_reserved := a_reserved a + qty\<rparr>) op ''reserved'' ''reserved''"
    using assms(5) by (simp add: reserve_def)
  have viol: "invariant_violation (fst (reserve a op qty v))"
    "snd (reserve a op qty v) = Inl (ResourceError ''account-invariant'')"
    using assms(6) unfolding r by (simp_all add: invariant_violation_def)
  have "reserve (fst (reserve a op qty v)) op qty v'
      = (fst (reserve a op qty v), Inr \<lparr>ao_accepted = True, ao_code = ''idempotent''\<rparr>)"
    by (rule repeated_operation) (use assms(2,3) in \<open>simp_all add: account_operations_def r\<close>)
  with viol show ?thesis by (simp add: r)
qed

theorem reserve_ignores_consumed_witness:
  "invariant_violation (fst (reserve (sample_account 10 0 6) ''x'' 8 None))"
  using reserve_ignores_consumed [of "sample_account 10 0 6" "''x''" 8 None] by (simp add: sample_account_def)

end
