(* ===== verification/Resource_Store.thy ===== *)
theory Resource_Store
  imports Resource_Records Accounts Convergence
begin

text \<open>
  \<open>ResourceStore\<close> of \<open>resources/model.py\<close>: registered resources, the convergent merge of
  offers and measurements, the queries, and the accounts opened from offers.  Instants
  are microseconds (aware datetimes).  An account the code shares between the store and
  its caller is the store's entry, so an operation returns the new store together with
  its result, also when it raises.
\<close>

section \<open>The store\<close>

type_synonym offer_key = "string \<times> string \<times> string"
type_synonym measurement_key = "string \<times> string \<times> string \<times> string"

definition offer_key :: "resource_offer \<Rightarrow> offer_key" where
  "offer_key f = (of_resource_id f, of_provider f, '''')"

definition measurement_dimension :: "resource_measurement \<Rightarrow> string" where
  "measurement_dimension x = (case rm_value x of MQuantity q \<Rightarrow> q_dimension q | MEnergy _ \<Rightarrow> '''')"

definition measurement_key :: "resource_measurement \<Rightarrow> measurement_key" where
  "measurement_key x = (rm_resource_id x, rm_source x, rm_method_ref x, measurement_dimension x)"

record resource_store =
  rs_resources :: "(string, resource) dict"
  rs_offers :: "(offer_key, resource_offer) dict"
  rs_offer_watermarks :: "(offer_key, int) dict"
  rs_offer_historical :: "(offer_key, resource_offer list) dict"
  rs_offer_conflicts :: "(offer_key, resource_offer list) dict"
  rs_measurements :: "(measurement_key, resource_measurement) dict"
  rs_measurement_watermarks :: "(measurement_key, int) dict"
  rs_measurement_historical :: "(measurement_key, resource_measurement list) dict"
  rs_measurement_conflicts :: "(measurement_key, resource_measurement list) dict"
  rs_accounts :: "(string, account) dict"
  rs_by_id :: "(string, resource_offer + resource_measurement) dict"

definition empty_store :: resource_store where
  "empty_store = \<lparr>rs_resources = [], rs_offers = [], rs_offer_watermarks = [], rs_offer_historical = [],
     rs_offer_conflicts = [], rs_measurements = [], rs_measurement_watermarks = [], rs_measurement_historical = [],
     rs_measurement_conflicts = [], rs_accounts = [], rs_by_id = []\<rparr>"

definition register_resource :: "resource_store \<Rightarrow> resource \<Rightarrow> resource_error + resource_store" where
  "register_resource s r =
     (case dget (rs_resources s) (r_resource_id r) of
        Some e \<Rightarrow>
          if r_owner_node_id e \<noteq> r_owner_node_id r \<or> r_kind e \<noteq> r_kind r \<or> r_availability e \<noteq> r_availability r
          then Inl (ResourceError ''register-drift'') else Inr s
      | None \<Rightarrow> Inr (s\<lparr>rs_resources := dset (rs_resources s) (r_resource_id r) r\<rparr>))"

definition get_resource :: "resource_store \<Rightarrow> string \<Rightarrow> resource option" where
  "get_resource s rid = dget (rs_resources s) rid"

definition require_resource :: "resource_store \<Rightarrow> string \<Rightarrow> resource_error + resource" where
  "require_resource s rid =
     (case dget (rs_resources s) rid of
        None \<Rightarrow> Inl (ResourceError ''resource-unknown'') | Some r \<Rightarrow> Inr r)"

section \<open>Merging\<close>

definition merge_offer :: "resource_store \<Rightarrow> resource_offer \<Rightarrow> resource_store \<times> resource_offer merge_outcome" where
  "merge_offer s f =
     (let k = offer_key f;
          wm = dgetd (rs_offer_watermarks s) k 0;
          existing = dget (rs_offers s) k;
          by_id = dset (rs_by_id s) (of_offer_id f) (Inl f)
      in if of_sequence f < wm then
           (s, \<lparr>outcome_accepted = False, outcome_code = ReplayStale, outcome_record = None\<rparr>)
         else if of_sequence f = wm then
           (if (case existing of None \<Rightarrow> False | Some e \<Rightarrow> of_offer_id e = of_offer_id f) then
              (s, \<lparr>outcome_accepted = True, outcome_code = Idempotent, outcome_record = Some f\<rparr>)
            else
              let old = dgetd (rs_offer_conflicts s) k [];
                  (bucket, cur) =
                    (case existing of
                       None \<Rightarrow> (old, rs_offers s)
                     | Some e \<Rightarrow>
                         if of_offer_id e \<notin> of_offer_id ` set old then (old @ [e], dpop (rs_offers s) k)
                         else (old, rs_offers s));
                  bucket' = (if of_offer_id f \<notin> of_offer_id ` set bucket then bucket @ [f] else bucket)
              in (s\<lparr>rs_offer_conflicts := dset (rs_offer_conflicts s) k bucket', rs_offers := cur, rs_by_id := by_id\<rparr>,
                  \<lparr>outcome_accepted = True, outcome_code = ConflictPreserved, outcome_record = Some f\<rparr>))
         else
           let hist = dgetd (rs_offer_historical s) k [];
               hist' = (case existing of None \<Rightarrow> hist | Some e \<Rightarrow> hist @ [e]);
               hist'' = hist' @ dgetd (rs_offer_conflicts s) k []
           in (s\<lparr>rs_offer_historical := dset (rs_offer_historical s) k hist'',
                 rs_offer_conflicts := dpop (rs_offer_conflicts s) k,
                 rs_offers := dset (rs_offers s) k f,
                 rs_offer_watermarks := dset (rs_offer_watermarks s) k (of_sequence f), rs_by_id := by_id\<rparr>,
               \<lparr>outcome_accepted = True, outcome_code = Accepted, outcome_record = Some f\<rparr>))"

definition validate_quantity_for_kind :: "quantity \<Rightarrow> string \<Rightarrow> resource_error + unit" where
  "validate_quantity_for_kind q kind = bindE (unit_lookup kind (q_unit q)) (\<lambda>_. Inr ())"

definition create_offer ::
    "resource_store \<Rightarrow> resource_offer \<Rightarrow> resource_error + (resource_store \<times> resource_offer merge_outcome)" where
  "create_offer s f =
     bindE (require_resource s (of_resource_id f)) (\<lambda>r.
     bindE (guardE (of_provider f \<noteq> r_owner_node_id r) (ResourceError ''offer-provider'')) (\<lambda>_.
     bindE (validate_quantity_for_kind (of_quantity f) (r_kind r)) (\<lambda>_.
       Inr (merge_offer s f))))"

definition merge_measurement ::
    "resource_store \<Rightarrow> resource_measurement \<Rightarrow> resource_store \<times> resource_measurement merge_outcome" where
  "merge_measurement s x =
     (let k = measurement_key x;
          wm = dgetd (rs_measurement_watermarks s) k 0;
          existing = dget (rs_measurements s) k;
          by_id = dset (rs_by_id s) (rm_measurement_id x) (Inr x)
      in if rm_sequence x < wm then
           (s, \<lparr>outcome_accepted = False, outcome_code = ReplayStale, outcome_record = None\<rparr>)
         else if rm_sequence x = wm then
           (if (case existing of None \<Rightarrow> False | Some e \<Rightarrow> rm_measurement_id e = rm_measurement_id x) then
              (s, \<lparr>outcome_accepted = True, outcome_code = Idempotent, outcome_record = Some x\<rparr>)
            else
              let old = dgetd (rs_measurement_conflicts s) k [];
                  (bucket, cur) =
                    (case existing of
                       None \<Rightarrow> (old, rs_measurements s)
                     | Some e \<Rightarrow>
                         if rm_measurement_id e \<notin> rm_measurement_id ` set old
                         then (old @ [e], dpop (rs_measurements s) k) else (old, rs_measurements s));
                  bucket' = (if rm_measurement_id x \<notin> rm_measurement_id ` set bucket then bucket @ [x] else bucket)
              in (s\<lparr>rs_measurement_conflicts := dset (rs_measurement_conflicts s) k bucket', rs_measurements := cur,
                    rs_by_id := by_id\<rparr>,
                  \<lparr>outcome_accepted = True, outcome_code = ConflictPreserved, outcome_record = Some x\<rparr>))
         else
           let hist = dgetd (rs_measurement_historical s) k [];
               hist' = (case existing of None \<Rightarrow> hist | Some e \<Rightarrow> hist @ [e]);
               hist'' = hist' @ dgetd (rs_measurement_conflicts s) k []
           in (s\<lparr>rs_measurement_historical := dset (rs_measurement_historical s) k hist'',
                 rs_measurement_conflicts := dpop (rs_measurement_conflicts s) k,
                 rs_measurements := dset (rs_measurements s) k x,
                 rs_measurement_watermarks := dset (rs_measurement_watermarks s) k (rm_sequence x), rs_by_id := by_id\<rparr>,
               \<lparr>outcome_accepted = True, outcome_code = Accepted, outcome_record = Some x\<rparr>))"

definition validate_measurement_value_for_kind :: "resource_measurement \<Rightarrow> string \<Rightarrow> resource_error + unit" where
  "validate_measurement_value_for_kind x kind =
     (case rm_value x of
        MEnergy _ \<Rightarrow> guardE (kind \<noteq> ''energy'') (ResourceError ''measurement-value-kind'')
      | MQuantity q \<Rightarrow>
          if kind = ''energy'' then Inl (ResourceError ''measurement-value-kind'')
          else bindE (unit_lookup kind (q_unit q)) (\<lambda>_. Inr ()))"

definition record_measurement ::
    "resource_store \<Rightarrow> resource_measurement \<Rightarrow>
     resource_error + (resource_store \<times> resource_measurement merge_outcome)" where
  "record_measurement s x =
     bindE (require_resource s (rm_resource_id x)) (\<lambda>r.
     bindE (validate_measurement_value_for_kind x (r_kind r)) (\<lambda>_.
       Inr (merge_measurement s x)))"

section \<open>Queries\<close>

definition within :: "string \<Rightarrow> string \<Rightarrow> int \<Rightarrow> bool" where
  \<comment> \<open>\<open>_is_fresh\<close> on the two texts of a record's window\<close>
  "within start stop now =
     (case (parse_instant start, parse_instant stop) of
        (Some a, Some b) \<Rightarrow> a \<le> now \<and> now \<le> b
      | _ \<Rightarrow> False)"

definition offer_fresh :: "resource_offer \<Rightarrow> int \<Rightarrow> bool" where
  "offer_fresh f now = within (of_valid_from f) (of_expires_at f) now"

definition measurement_fresh :: "resource_measurement \<Rightarrow> int \<Rightarrow> bool" where
  "measurement_fresh x now = within (rm_observed_at x) (rm_freshness_until x) now"

definition offer_sort_key :: "resource_offer \<Rightarrow> string \<times> string \<times> int \<times> string" where
  "offer_sort_key f = (of_resource_id f, of_provider f, of_sequence f, of_offer_id f)"

definition measurement_sort_key :: "resource_measurement \<Rightarrow> string \<times> string \<times> string \<times> int \<times> string" where
  "measurement_sort_key x = (rm_resource_id x, rm_source x, rm_method_ref x, rm_sequence x, rm_measurement_id x)"

definition of_resource :: "string \<Rightarrow> (string \<times> 'b, 'v) dict \<Rightarrow> ((string \<times> 'b) \<times> 'v) list" where
  \<comment> \<open>the loops \<open>for key in sorted(d.keys()): if key[0] == resource_id\<close>\<close>
  "of_resource rid d = filter (\<lambda>kv. fst (fst kv) = rid) d"

definition current_offer :: "resource_store \<Rightarrow> string \<Rightarrow> int \<Rightarrow> resource_offer option" where
  \<comment> \<open>\<open>get_current_offer\<close>\<close>
  "current_offer s rid now =
     (case filter (\<lambda>kv. offer_fresh (snd kv) now) (of_resource rid (sort_key fst (rs_offers s))) of
        [] \<Rightarrow> None | kv # _ \<Rightarrow> Some (snd kv))"

definition get_historical_offers :: "resource_store \<Rightarrow> string \<Rightarrow> bool \<Rightarrow> resource_offer list" where
  "get_historical_offers s rid include_historical =
     sort_key offer_sort_key
       (map snd (of_resource rid (sort_key fst (rs_offers s)))
        @ concat (map snd (of_resource rid (sort_key fst (rs_offer_conflicts s))))
        @ (if include_historical then concat (map snd (of_resource rid (sort_key fst (rs_offer_historical s)))) else []))"

fun max_by :: "('a \<Rightarrow> 'k :: linorder) \<Rightarrow> 'a \<Rightarrow> 'a list \<Rightarrow> 'a" where
  \<comment> \<open>\<open>max(xs, key=f)\<close>: the first of the greatest\<close>
  "max_by f m [] = m"
| "max_by f m (x # xs) = max_by f (if f m < f x then x else m) xs"

definition get_current_measurement :: "resource_store \<Rightarrow> string \<Rightarrow> int \<Rightarrow> resource_measurement option" where
  "get_current_measurement s rid now =
     (case filter (\<lambda>x. measurement_fresh x now) (map snd (of_resource rid (sort_key fst (rs_measurements s)))) of
        [] \<Rightarrow> None
      | x # xs \<Rightarrow> Some (max_by (\<lambda>x. (rm_sequence x, rm_measurement_id x)) x xs))"

definition get_measurements :: "resource_store \<Rightarrow> string \<Rightarrow> bool \<Rightarrow> resource_measurement list" where
  "get_measurements s rid include_historical =
     sort_key measurement_sort_key
       (map snd (of_resource rid (sort_key fst (rs_measurements s)))
        @ concat (map snd (of_resource rid (sort_key fst (rs_measurement_conflicts s))))
        @ (if include_historical
           then concat (map snd (of_resource rid (sort_key fst (rs_measurement_historical s)))) else []))"

definition get_historical_measurements :: "resource_store \<Rightarrow> string \<Rightarrow> resource_measurement list" where
  "get_historical_measurements s rid = get_measurements s rid True"

definition get_authoritative_measurements ::
    "resource_store \<Rightarrow> string \<Rightarrow> int \<Rightarrow> resource_error + resource_measurement list" where
  "get_authoritative_measurements s rid now =
     bindE (require_resource s rid) (\<lambda>r.
       Inr (sort_key measurement_sort_key
         (filter (\<lambda>x. is_self_observation x (r_owner_node_id r) \<and> measurement_fresh x now)
           (map snd (of_resource rid (sort_key fst (rs_measurements s)))))))"

datatype conflict_entry =
    OfferConflict offer_key "resource_offer list"
  | MeasurementConflict measurement_key "resource_measurement list"

definition store_conflicts :: "resource_store \<Rightarrow> conflict_entry list" where
  \<comment> \<open>\<open>get_conflicts\<close>\<close>
  "store_conflicts s =
     map (\<lambda>kv. OfferConflict (fst kv) (sort_key of_offer_id (snd kv))) (sort_key fst (rs_offer_conflicts s))
     @ map (\<lambda>kv. MeasurementConflict (fst kv) (sort_key rm_measurement_id (snd kv)))
         (sort_key fst (rs_measurement_conflicts s))"

section \<open>Accounts of the store\<close>

definition get_account :: "resource_store \<Rightarrow> string \<Rightarrow> account option" where
  "get_account s rid = dget (rs_accounts s) rid"

definition init_account_from_offer ::
    "resource_store \<Rightarrow> string \<Rightarrow> int \<Rightarrow> resource_error + (resource_store \<times> account)" where
  "init_account_from_offer s rid now =
     bindE (require_resource s rid) (\<lambda>r.
       case current_offer s rid now of
         None \<Rightarrow> Inl (ResourceError ''account-init'')
       | Some f \<Rightarrow>
           let fresh =
             bindE (to_base (of_quantity f) (r_kind r)) (\<lambda>offered.
             bindE (make_account \<lparr>a_resource_id = rid, a_offered = offered, a_reserved = 0, a_consumed = 0,
                      a_offer_sequence = of_sequence f, a_version = 1, a_offer_id = of_offer_id f,
                      a_operations = []\<rparr>) (\<lambda>a.
               Inr (s\<lparr>rs_accounts := dset (rs_accounts s) rid a\<rparr>, a)))
           in (case dget (rs_accounts s) rid of
                 None \<Rightarrow> fresh
               | Some e \<Rightarrow>
                   if of_sequence f < a_offer_sequence e then Inl (ResourceError ''account-stale-offer'')
                   else if of_sequence f = a_offer_sequence e then
                     (if a_offer_id e = of_offer_id f then Inr (s, e)
                      else Inl (ResourceError ''account-offer-conflict''))
                   else if 0 < a_reserved e \<or> 0 < a_consumed e then Inl (ResourceError ''account-offer-advance'')
                   else fresh))"

definition require_account :: "resource_store \<Rightarrow> string \<Rightarrow> int \<Rightarrow> resource_error + (resource_store \<times> account)" where
  "require_account s rid now =
     (case dget (rs_accounts s) rid of
        None \<Rightarrow> init_account_from_offer s rid now | Some a \<Rightarrow> Inr (s, a))"

type_synonym store_step = "resource_store \<times> (resource_error + accounting_outcome)"

definition on_account ::
    "(account \<Rightarrow> string \<Rightarrow> int \<Rightarrow> int option \<Rightarrow> account_step) \<Rightarrow>
     resource_store \<Rightarrow> string \<Rightarrow> string \<Rightarrow> quantity \<Rightarrow> int \<Rightarrow> int option \<Rightarrow> store_step" where
  \<comment> \<open>the common body of the four accounting operations of the store\<close>
  "on_account f s rid op_id q now expected_version =
     (case require_account s rid now of
        Inl e \<Rightarrow> (s, Inl e)
      | Inr (s', a) \<Rightarrow>
          (case bindE (require_resource s' rid) (\<lambda>r. to_base q (r_kind r)) of
             Inl e \<Rightarrow> (s', Inl e)
           | Inr qty \<Rightarrow>
               let (a', result) = f a op_id qty expected_version
               in (s'\<lparr>rs_accounts := dset (rs_accounts s') rid a'\<rparr>, result)))"

definition store_reserve ::
    "resource_store \<Rightarrow> string \<Rightarrow> string \<Rightarrow> quantity \<Rightarrow> int \<Rightarrow> int option \<Rightarrow> store_step" where
  "store_reserve = on_account reserve"

definition store_release_reservation ::
    "resource_store \<Rightarrow> string \<Rightarrow> string \<Rightarrow> quantity \<Rightarrow> int \<Rightarrow> int option \<Rightarrow> store_step" where
  "store_release_reservation = on_account release_reservation"

definition store_consume ::
    "resource_store \<Rightarrow> string \<Rightarrow> string \<Rightarrow> quantity \<Rightarrow> int \<Rightarrow> int option \<Rightarrow> store_step" where
  "store_consume = on_account consume"

definition store_release_consumption ::
    "resource_store \<Rightarrow> string \<Rightarrow> string \<Rightarrow> quantity \<Rightarrow> int \<Rightarrow> int option \<Rightarrow> store_step" where
  "store_release_consumption = on_account release_consumption"

section \<open>Snapshot\<close>

definition sorted_docs :: "('a \<Rightarrow> string jval) \<Rightarrow> ('a \<Rightarrow> string) \<Rightarrow> ('k :: linorder, 'a list) dict \<Rightarrow> string jval" where
  "sorted_docs doc rec_id d = JArr (concat (map (\<lambda>kv. map doc (sort_key rec_id (snd kv))) (sort_key fst d)))"

definition store_snapshot :: "resource_store \<Rightarrow> string jval" where
  "store_snapshot s = JObj
     [(''resources'', JArr (map (resource_to_dict \<circ> snd) (sort_key fst (rs_resources s)))),
      (''offers'', JArr (map (offer_to_dict \<circ> snd) (sort_key fst (rs_offers s)))),
      (''offer_conflicts'', sorted_docs offer_to_dict of_offer_id (rs_offer_conflicts s)),
      (''offer_historical'', sorted_docs offer_to_dict of_offer_id (rs_offer_historical s)),
      (''measurements'', JArr (map (measurement_to_dict \<circ> snd) (sort_key fst (rs_measurements s)))),
      (''measurement_conflicts'', sorted_docs measurement_to_dict rm_measurement_id (rs_measurement_conflicts s)),
      (''measurement_historical'', sorted_docs measurement_to_dict rm_measurement_id (rs_measurement_historical s)),
      (''offer_watermarks'', JArr (map (\<lambda>((rid, provider, _), w).
          JObj [(''resource_id'', JStr rid), (''provider'', JStr provider), (''watermark'', JInt w)])
        (sort_key fst (rs_offer_watermarks s)))),
      (''measurement_watermarks'', JArr (map (\<lambda>((rid, source, method_ref, dimension), w).
          JObj [(''resource_id'', JStr rid), (''source'', JStr source), (''method_ref'', JStr method_ref),
                (''dimension'', JStr dimension), (''watermark'', JInt w)])
        (sort_key fst (rs_measurement_watermarks s)))),
      (''accounts'', JArr (map (account_to_dict \<circ> snd) (sort_key fst (rs_accounts s))))]"

definition store_canonical_bytes :: "resource_store \<Rightarrow> canon_error + bytes" where
  "store_canonical_bytes s = canonical_bytes (store_snapshot s)"

definition store_len :: "resource_store \<Rightarrow> nat" where
  "store_len s = length (rs_offers s) + length (rs_measurements s)
     + sum_list (map (length \<circ> snd) (rs_offer_conflicts s)) + sum_list (map (length \<circ> snd) (rs_measurement_conflicts s))"

end
