(* ===== verification/Resource_Convergence.thy ===== *)
theory Resource_Convergence
  imports Resource_Store
begin

text \<open>
  The resource store as a convergent store of offers and one of measurements: both
  merges are interpretations of \<open>convergent_store\<close>, over any set of registered resources,
  and they do not disturb each other.  Queries of the live state therefore do not depend
  on the order in which offers and measurements arrive.
\<close>

section \<open>Both merges keep the contract\<close>

definition registry :: "(string, resource) dict \<Rightarrow> resource_store" where
  \<comment> \<open>a store that holds registered resources only\<close>
  "registry rs = empty_store\<lparr>rs_resources := rs\<rparr>"

interpretation offers: dictionary_store offer_key of_sequence of_offer_id merge_offer
  rs_offers rs_offer_watermarks rs_offer_conflicts rs_offer_historical "registry rs" for rs
proof (unfold_locales, goal_cases)
  case (11 c s)
  then show ?case
    by (cases "dget (rs_offers s) (offer_key c)") (auto simp: merge_offer_def Let_def)
next
  case (12 s c)
  then show ?case
    by (cases "dget (rs_offers s) (offer_key c)") (auto simp: merge_offer_def Let_def)
qed (auto simp: registry_def empty_store_def merge_offer_def Let_def split: option.splits prod.splits if_splits)

interpretation measurements: dictionary_store measurement_key rm_sequence rm_measurement_id merge_measurement
  rs_measurements rs_measurement_watermarks rs_measurement_conflicts rs_measurement_historical "registry rs" for rs
proof (unfold_locales, goal_cases)
  case (11 c s)
  then show ?case
    by (cases "dget (rs_measurements s) (measurement_key c)") (auto simp: merge_measurement_def Let_def)
next
  case (12 s c)
  then show ?case
    by (cases "dget (rs_measurements s) (measurement_key c)") (auto simp: merge_measurement_def Let_def)
qed (auto simp: registry_def empty_store_def merge_measurement_def Let_def split: option.splits prod.splits if_splits)

declare split_paired_All [simp del] split_paired_Ex [simp del]

section \<open>What a merge touches\<close>

definition offer_part where
  "offer_part s = (rs_offers s, rs_offer_watermarks s, rs_offer_historical s, rs_offer_conflicts s)"

definition measurement_part where
  "measurement_part s =
     (rs_measurements s, rs_measurement_watermarks s, rs_measurement_historical s, rs_measurement_conflicts s)"

lemma merge_offer_frame [simp]:
  "measurement_part (fst (merge_offer s f)) = measurement_part s"
  "rs_resources (fst (merge_offer s f)) = rs_resources s"
  "rs_accounts (fst (merge_offer s f)) = rs_accounts s"
  by (simp_all add: merge_offer_def measurement_part_def Let_def split: option.splits)

lemma merge_measurement_frame [simp]:
  "offer_part (fst (merge_measurement s x)) = offer_part s"
  "rs_resources (fst (merge_measurement s x)) = rs_resources s"
  "rs_accounts (fst (merge_measurement s x)) = rs_accounts s"
  by (simp_all add: merge_measurement_def offer_part_def Let_def split: option.splits)

lemma merge_offer_local:
  "offer_part s = offer_part t \<Longrightarrow> offer_part (fst (merge_offer s f)) = offer_part (fst (merge_offer t f))"
  by (simp add: merge_offer_def offer_part_def Let_def split: option.splits)

lemma merge_measurement_local:
  "measurement_part s = measurement_part t \<Longrightarrow>
   measurement_part (fst (merge_measurement s x)) = measurement_part (fst (merge_measurement t x))"
  by (simp add: merge_measurement_def measurement_part_def Let_def split: option.splits)

section \<open>Ingesting records in any order\<close>

definition ingest :: "resource_store \<Rightarrow> resource_offer + resource_measurement \<Rightarrow> resource_store" where
  \<comment> \<open>one delivered record; a refused one leaves the store as it is\<close>
  "ingest s r =
     (case r of
        Inl f \<Rightarrow> (case create_offer s f of Inl _ \<Rightarrow> s | Inr m \<Rightarrow> fst m)
      | Inr x \<Rightarrow> (case record_measurement s x of Inl _ \<Rightarrow> s | Inr m \<Rightarrow> fst m))"

definition ingest_all :: "(string, resource) dict \<Rightarrow> (resource_offer + resource_measurement) list \<Rightarrow> resource_store" where
  "ingest_all rs es = foldl ingest (registry rs) es"

definition offer_admitted :: "(string, resource) dict \<Rightarrow> resource_offer \<Rightarrow> bool" where
  "offer_admitted rs f \<longleftrightarrow>
     (\<exists>r. dget rs (of_resource_id f) = Some r \<and> of_provider f = r_owner_node_id r \<and>
          isOk (unit_lookup (r_kind r) (q_unit (of_quantity f))))"

definition measurement_admitted :: "(string, resource) dict \<Rightarrow> resource_measurement \<Rightarrow> bool" where
  "measurement_admitted rs x \<longleftrightarrow>
     (\<exists>r. dget rs (rm_resource_id x) = Some r \<and> isOk (validate_measurement_value_for_kind x (r_kind r)))"

lemma create_offer_cases:
  "create_offer s f = Inr m \<longleftrightarrow> offer_admitted (rs_resources s) f \<and> m = merge_offer s f"
  by (auto simp: create_offer_def require_resource_def offer_admitted_def validate_quantity_for_kind_def
      bindE_eq_Inr_iff isOk_iff split: option.splits)

lemma record_measurement_cases:
  "record_measurement s x = Inr m \<longleftrightarrow> measurement_admitted (rs_resources s) x \<and> m = merge_measurement s x"
  by (auto simp: record_measurement_def require_resource_def measurement_admitted_def
      bindE_eq_Inr_iff isOk_iff split: option.splits)

lemma ingest_simps:
  "ingest s (Inl f) = (if offer_admitted (rs_resources s) f then fst (merge_offer s f) else s)"
  "ingest s (Inr x) = (if measurement_admitted (rs_resources s) x then fst (merge_measurement s x) else s)"
  using create_offer_cases [of s f "merge_offer s f"] create_offer_cases [of s f]
    record_measurement_cases [of s x "merge_measurement s x"] record_measurement_cases [of s x]
  by (cases "create_offer s f"; cases "record_measurement s x"; fastforce simp: ingest_def)+

lemma ingest_all_resources: "rs_resources (ingest_all rs es) = rs"
proof (induction es rule: rev_induct)
  case (snoc e es)
  then show ?case by (cases e) (simp_all add: ingest_all_def ingest_simps)
qed (simp add: ingest_all_def registry_def)

definition offers_in :: "(string, resource) dict \<Rightarrow> (resource_offer + resource_measurement) list \<Rightarrow> resource_offer list" where
  "offers_in rs es = filter (offer_admitted rs) (concat (map (\<lambda>e. case e of Inl f \<Rightarrow> [f] | Inr _ \<Rightarrow> []) es))"

definition measurements_in ::
    "(string, resource) dict \<Rightarrow> (resource_offer + resource_measurement) list \<Rightarrow> resource_measurement list" where
  "measurements_in rs es =
     filter (measurement_admitted rs) (concat (map (\<lambda>e. case e of Inl _ \<Rightarrow> [] | Inr x \<Rightarrow> [x]) es))"

lemma set_offers_in: "set (offers_in rs es) = {f. Inl f \<in> set es \<and> offer_admitted rs f}"
  and set_measurements_in: "set (measurements_in rs es) = {x. Inr x \<in> set es \<and> measurement_admitted rs x}"
  by (force simp: offers_in_def measurements_in_def split: sum.splits)+

lemma ingest_all_parts:
  "offer_part (ingest_all rs es) = offer_part (offers.merge_all rs (offers_in rs es)) \<and>
   measurement_part (ingest_all rs es) = measurement_part (measurements.merge_all rs (measurements_in rs es))"
proof (induction es rule: rev_induct)
  case (snoc e es)
  have step: "ingest_all rs (es @ [e]) = ingest (ingest_all rs es) e" by (simp add: ingest_all_def)
  show ?case
  proof (cases e)
    case (Inl f)
    with snoc.IH show ?thesis unfolding step
      by (auto simp: ingest_simps ingest_all_resources offers_in_def measurements_in_def intro: merge_offer_local)
  next
    case (Inr x)
    with snoc.IH show ?thesis unfolding step
      by (auto simp: ingest_simps ingest_all_resources offers_in_def measurements_in_def intro: merge_measurement_local)
  qed
qed (simp add: ingest_all_def offers_in_def measurements_in_def offer_part_def measurement_part_def)

lemma ingest_live_view:
  fixes rs :: "(string, resource) dict"
  assumes "set es = set es'"
    and "inj_on of_offer_id {f. Inl f \<in> set es}" "inj_on rm_measurement_id {x. Inr x \<in> set es}"
    and "\<forall>f. Inl f \<in> set es \<longrightarrow> 1 \<le> of_sequence f" "\<forall>x. Inr x \<in> set es \<longrightarrow> 1 \<le> rm_sequence x"
  defines "s \<equiv> ingest_all rs es" and "s' \<equiv> ingest_all rs es'"
  shows "sort_key fst (rs_offers s) = sort_key fst (rs_offers s')"
    and "offers.sorted_conflicts s = offers.sorted_conflicts s'"
    and "sort_key fst (rs_measurements s) = sort_key fst (rs_measurements s')"
    and "measurements.sorted_conflicts s = measurements.sorted_conflicts s'"
proof -
  let ?fs = "offers_in rs es" and ?fs' = "offers_in rs es'"
  let ?xs = "measurements_in rs es" and ?xs' = "measurements_in rs es'"
  have f: "set ?fs = set ?fs'" "inj_on of_offer_id (set ?fs)" "\<forall>f \<in> set ?fs. 1 \<le> of_sequence f"
    using assms(1,2,4) by (auto simp: set_offers_in intro: inj_on_subset)
  have x: "set ?xs = set ?xs'" "inj_on rm_measurement_id (set ?xs)" "\<forall>x \<in> set ?xs. 1 \<le> rm_sequence x"
    using assms(1,3,5) by (auto simp: set_measurements_in intro: inj_on_subset)
  have part: "rs_offers (ingest_all rs es) = rs_offers (offers.merge_all rs (offers_in rs es))"
    "rs_offer_conflicts (ingest_all rs es) = rs_offer_conflicts (offers.merge_all rs (offers_in rs es))"
    "rs_measurements (ingest_all rs es) = rs_measurements (measurements.merge_all rs (measurements_in rs es))"
    "rs_measurement_conflicts (ingest_all rs es)
      = rs_measurement_conflicts (measurements.merge_all rs (measurements_in rs es))" for es
    using ingest_all_parts [of rs es] by (simp_all add: offer_part_def measurement_part_def)
  show "sort_key fst (rs_offers s) = sort_key fst (rs_offers s')"
    using offers.live_view_order_independent(1) [OF f] by (simp add: s_def s'_def part)
  show "offers.sorted_conflicts s = offers.sorted_conflicts s'"
    using offers.live_view_order_independent(2) [OF f, where rs = rs]
    by (simp add: s_def s'_def part offers.sorted_conflicts_def)
  show "sort_key fst (rs_measurements s) = sort_key fst (rs_measurements s')"
    using measurements.live_view_order_independent(1) [OF x] by (simp add: s_def s'_def part)
  show "measurements.sorted_conflicts s = measurements.sorted_conflicts s'"
    using measurements.live_view_order_independent(2) [OF x, where rs = rs]
    by (simp add: s_def s'_def part measurements.sorted_conflicts_def)
qed

lemma ingest_all_filed:
  assumes "\<forall>f. Inl f \<in> set es \<longrightarrow> 1 \<le> of_sequence f" "\<forall>x. Inr x \<in> set es \<longrightarrow> 1 \<le> rm_sequence x"
  shows "offers.filed {f. Inl f \<in> set es \<and> offer_admitted rs f} (ingest_all rs es)"
    and "offers.well_kept (ingest_all rs es)"
    and "measurements.filed {x. Inr x \<in> set es \<and> measurement_admitted rs x} (ingest_all rs es)"
    and "measurements.well_kept (ingest_all rs es)"
proof -
  note parts = ingest_all_parts [of rs es, unfolded offer_part_def measurement_part_def prod.inject]
  show "offers.filed {f. Inl f \<in> set es \<and> offer_admitted rs f} (ingest_all rs es)"
    using offers.filed_all [where rs = rs, of "offers_in rs es"] parts
    by (simp add: offers.filed_def offers.held_def set_offers_in)
  show "measurements.filed {x. Inr x \<in> set es \<and> measurement_admitted rs x} (ingest_all rs es)"
    using measurements.filed_all [where rs = rs, of "measurements_in rs es"] parts
    by (simp add: measurements.filed_def measurements.held_def set_measurements_in)
  show "offers.well_kept (ingest_all rs es)"
    using offers.well_kept_all [where rs = rs, of "offers_in rs es"] parts assms(1)
    by (simp add: offers.well_kept_def set_offers_in)
  show "measurements.well_kept (ingest_all rs es)"
    using measurements.well_kept_all [where rs = rs, of "measurements_in rs es"] parts assms(2)
    by (simp add: measurements.well_kept_def set_measurements_in)
qed

lemma get_measurements_alt:
  assumes "inj_on rm_measurement_id C" "measurements.filed C s" "measurements.well_kept s"
  shows "get_measurements s rid False = sort_key measurement_sort_key
    (map snd (of_resource rid (sort_key fst (rs_measurements s)))
     @ concat (map snd (of_resource rid (measurements.sorted_conflicts s))))"
proof -
  have "set (map snd (of_resource rid (sort_key fst (rs_measurements s)))
     @ concat (map snd (of_resource rid (sort_key fst (rs_measurement_conflicts s))))) \<subseteq> C"
    unfolding of_resource_def by (rule measurements.live_view_members [OF assms(2,3)])
  then have "inj_on measurement_sort_key (set (map snd (of_resource rid (sort_key fst (rs_measurements s)))
     @ concat (map snd (of_resource rid (sort_key fst (rs_measurement_conflicts s))))))"
    using assms(1) unfolding inj_on_def measurement_sort_key_def by blast
  then show ?thesis
    unfolding get_measurements_def of_resource_def measurements.sorted_conflicts_def
    by (subst sort_key_buckets [symmetric]) simp_all
qed

lemma get_historical_offers_alt:
  assumes "inj_on of_offer_id C" "offers.filed C s" "offers.well_kept s"
  shows "get_historical_offers s rid False = sort_key offer_sort_key
    (map snd (of_resource rid (sort_key fst (rs_offers s)))
     @ concat (map snd (of_resource rid (offers.sorted_conflicts s))))"
proof -
  have "set (map snd (of_resource rid (sort_key fst (rs_offers s)))
     @ concat (map snd (of_resource rid (sort_key fst (rs_offer_conflicts s))))) \<subseteq> C"
    unfolding of_resource_def by (rule offers.live_view_members [OF assms(2,3)])
  then have "inj_on offer_sort_key (set (map snd (of_resource rid (sort_key fst (rs_offers s)))
     @ concat (map snd (of_resource rid (sort_key fst (rs_offer_conflicts s))))))"
    using assms(1) unfolding inj_on_def offer_sort_key_def by blast
  then show ?thesis
    unfolding get_historical_offers_def of_resource_def offers.sorted_conflicts_def
    by (subst sort_key_buckets [symmetric]) simp_all
qed

lemma store_conflicts_alt:
  "store_conflicts s = map (\<lambda>(k, fs). OfferConflict k fs) (offers.sorted_conflicts s)
     @ map (\<lambda>(k, xs). MeasurementConflict k xs) (measurements.sorted_conflicts s)"
  by (simp add: store_conflicts_def offers.sorted_conflicts_def measurements.sorted_conflicts_def)

lemma authoritative_own:
  assumes "\<forall>f. Inl f \<in> set es \<longrightarrow> 1 \<le> of_sequence f" "\<forall>x. Inr x \<in> set es \<longrightarrow> 1 \<le> rm_sequence x"
    and "get_authoritative_measurements (ingest_all rs es) rid now = Inr xs" "x \<in> set xs"
  shows "\<exists>r. dget rs rid = Some r \<and> Inr x \<in> set es \<and> rm_resource_id x = rid \<and> rm_source x = r_owner_node_id r \<and>
    rm_source_class x = ''self-observation'' \<and> measurement_fresh x now"
proof -
  from assms(3,4) obtain r k where r: "dget rs rid = Some r" and x: "is_self_observation x (r_owner_node_id r)"
    "measurement_fresh x now" "(k, x) \<in> set (rs_measurements (ingest_all rs es))" "fst k = rid"
    by (auto simp: get_authoritative_measurements_def bindE_eq_Inr_iff require_resource_def ingest_all_resources
        of_resource_def split: option.splits)
  from measurements.filed_current_mem [OF ingest_all_filed(3,4) [OF assms(1,2)] x(3)]
  have "Inr x \<in> set es" "measurement_key x = k" by auto
  with r x show ?thesis by (auto simp: is_self_observation_def measurement_key_def)
qed

end
