(* ===== verification/Resource_Documents.thy ===== *)
theory Resource_Documents
  imports Resource_Records
begin

text \<open>
  What the constructors of offers and measurements guarantee: the well-formedness
  predicates they decide, derived ids that commit to the whole record, the absence of
  secret hints, and the round trips through JSON documents.
\<close>

section \<open>Fields\<close>

named_theorems field_simps_Inr \<open>when the check of a field passes\<close>

lemma field_Inr [field_simps_Inr]:
  "text_field e v = Inr s \<longleftrightarrow> v = JStr s"
  "nonempty_field e v = Inr s \<longleftrightarrow> v = JStr s \<and> s \<noteq> ''''"
  "node_field e v = Inr s \<longleftrightarrow> v = JStr s \<and> node_ok s"
  "member_field vs e v = Inr s \<longleftrightarrow> v = JStr s \<and> s \<in> set vs"
  "sequence_field e v = Inr i \<longleftrightarrow> v = JInt i \<and> 1 \<le> i"
  by (auto simp: text_field_def nonempty_field_def node_field_def member_field_def sequence_field_def
      bindE_eq_Inr_iff split: jval.splits)

lemma instant_field_Inr [field_simps_Inr]:
  "instant_field e v = Inr st \<longleftrightarrow> v = JStr (fst st) \<and> parse_instant (fst st) = Some (snd st)"
  by (cases st) (auto simp: instant_field_def bindE_eq_Inr_iff field_Inr split: option.splits)

lemma resource_id_field_Inr [field_simps_Inr]:
  "resource_id_field v = Inr s \<longleftrightarrow> v = JStr s \<and> isOk (parse_resource_id (JStr s))"
  by (cases v) (auto simp: resource_id_field_def bindE_eq_Inr_iff field_Inr isOk_iff parse_resource_id_def)

lemma evidence_refs_Inr [field_simps_Inr]:
  "mapE (nonempty_field e) vs = Inr ss \<longleftrightarrow> vs = map JStr ss \<and> list_all (\<lambda>s. s \<noteq> '''') ss"
proof -
  have "list_all2 (\<lambda>v s. nonempty_field e v = Inr s) vs ss \<longleftrightarrow> vs = map JStr ss \<and> list_all (\<lambda>s. s \<noteq> '''') ss"
    unfolding field_Inr by (induction vs arbitrary: ss; case_tac ss) auto
  then show ?thesis by (simp add: mapE_eq_Inr_iff)
qed

lemma make_quantity_Inr:
  "make_quantity v u d = Inr q \<longleftrightarrow>
     v = JInt (q_value q) \<and> u = JStr (q_unit q) \<and> d = JStr (q_dimension q) \<and> 0 \<le> q_value q \<and> q_unit q \<noteq> ''''"
  by (cases q) (auto simp: make_quantity_def bindE_eq_Inr_iff split: jval.splits)

definition quantity_ok :: "quantity \<Rightarrow> bool" where
  "quantity_ok q \<longleftrightarrow> 0 \<le> q_value q \<and> q_unit q \<noteq> ''''"

lemma quantity_of_to_dict: "quantity_ok q \<Longrightarrow> quantity_of (quantity_to_dict q) = Inr q"
  by (simp add: quantity_of_def quantity_to_dict_def py_getitem_def quantity_ok_def make_quantity_Inr)

lemma same_quantity_doc: "same_doc (quantity_to_dict q) (quantity_to_dict q') \<longleftrightarrow> q = q'"
proof
  assume "same_doc (quantity_to_dict q) (quantity_to_dict q')"
  note m = same_doc_members [OF this [unfolded quantity_to_dict_def]]
  from m [of "''value''"] m [of "''unit''"] m [of "''dimension''"] show "q = q'"
    by (cases q; cases q') simp
qed simp

lemma pairs_field_doc: "pairs_field (pairs_doc ps) = Inr ps"
proof -
  have "mapE unpack_pair (map (\<lambda>p. JArr [JStr (fst p), JStr (snd p)]) ps) = Inr ps"
    by (induction ps) (simp_all add: unpack_pair_def py_iter_def py_str_def)
  then show ?thesis by (auto simp: pairs_field_def pairs_doc_def py_iter_def py_falsy_def)
qed

lemma same_pairs_doc: "same_doc (pairs_doc ps) (pairs_doc qs) \<longleftrightarrow> ps = qs"
proof -
  have "(\<lambda>p q. same_doc (JArr [JStr (fst p), JStr (snd p)]) (JArr [JStr (fst q), JStr (snd q)])) = (=)"
    by (simp add: fun_eq_iff prod_eq_iff)
  then show ?thesis by (simp add: pairs_doc_def list_all2_map1 list_all2_map2 list.rel_eq)
qed


section \<open>Offers\<close>

definition raw_offer_of :: "resource_offer \<Rightarrow> raw_offer" where
  "raw_offer_of f = \<lparr>ro_resource_id = JStr (of_resource_id f), ro_provider = JStr (of_provider f),
     ro_quantity = of_quantity f, ro_valid_from = JStr (of_valid_from f), ro_expires_at = JStr (of_expires_at f),
     ro_sequence = JInt (of_sequence f), ro_conditions = of_conditions f,
     ro_evidence_refs = map JStr (of_evidence_refs f), ro_provenance = JStr (of_provenance f),
     ro_offer_id = of_offer_id f\<rparr>"

definition offer_ok :: "resource_offer \<Rightarrow> bool" where
  "offer_ok f \<longleftrightarrow>
     isOk (parse_resource_id (JStr (of_resource_id f))) \<and> node_ok (of_provider f) \<and> 1 \<le> of_sequence f \<and>
     (\<exists>a b. parse_instant (of_valid_from f) = Some a \<and> parse_instant (of_expires_at f) = Some b \<and> a \<le> b) \<and>
     list_all (\<lambda>r. r \<noteq> '''') (of_evidence_refs f)"

lemma checked_offer_Inr: "checked_offer raw = Inr f \<longleftrightarrow> raw = raw_offer_of f \<and> offer_ok f"
proof -
  have "checked_offer raw = Inr f \<longleftrightarrow>
    ro_resource_id raw = JStr (of_resource_id f) \<and> isOk (parse_resource_id (JStr (of_resource_id f))) \<and>
    ro_provider raw = JStr (of_provider f) \<and> node_ok (of_provider f) \<and>
    ro_sequence raw = JInt (of_sequence f) \<and> 1 \<le> of_sequence f \<and>
    ro_valid_from raw = JStr (of_valid_from f) \<and> ro_expires_at raw = JStr (of_expires_at f) \<and>
    (\<exists>a b. parse_instant (of_valid_from f) = Some a \<and> parse_instant (of_expires_at f) = Some b \<and> a \<le> b) \<and>
    ro_evidence_refs raw = map JStr (of_evidence_refs f) \<and> list_all (\<lambda>r. r \<noteq> '''') (of_evidence_refs f) \<and>
    ro_provenance raw = JStr (of_provenance f) \<and> ro_quantity raw = of_quantity f \<and>
    ro_conditions raw = of_conditions f \<and> ro_offer_id raw = of_offer_id f"
    unfolding checked_offer_def bindE_eq_Inr_iff field_simps_Inr split_beta
    by (cases f) (auto simp: not_less)
  then show ?thesis by (cases raw) (auto simp: raw_offer_of_def offer_ok_def)
qed

lemma offer_id_irrelevant [simp]:
  "offer_signed_view (f\<lparr>of_offer_id := x\<rparr>) = offer_signed_view f"
  "derive_offer_id H (f\<lparr>of_offer_id := x\<rparr>) = derive_offer_id H f"
  "has_secret (offer_to_dict (f\<lparr>of_offer_id := x\<rparr>)) = has_secret (offer_to_dict f)"
  "offer_ok (f\<lparr>of_offer_id := x\<rparr>) = offer_ok f"
  by (simp_all add: derive_offer_id_def offer_signature_input_def offer_signed_view_def offer_to_dict_def offer_ok_def)

lemma make_offer_Inr:
  assumes "make_offer H raw = Inr f"
  shows "offer_ok f" "derive_offer_id H f = Inr (of_offer_id f)" "\<not> has_secret (offer_to_dict f)"
    "of_quantity f = ro_quantity raw"
proof -
  from assms obtain g x where g: "raw = raw_offer_of g" "offer_ok g" "\<not> has_secret (offer_to_dict g)"
    "derive_offer_id H g = Inr x"
    and s: "(if of_offer_id g = '''' then Inr (g\<lparr>of_offer_id := x\<rparr>)
       else if of_offer_id g \<noteq> x then Inl (ResourceError ''offer-id'') else Inr g) = Inr f"
    unfolding make_offer_def bindE_eq_Inr_iff checked_offer_Inr reject_secret_material_def guardE_eq_Inr_iff by blast
  from s have "f = g\<lparr>of_offer_id := x\<rparr>" by (cases g) (auto split: if_splits)
  with g show "offer_ok f" "derive_offer_id H f = Inr (of_offer_id f)" "\<not> has_secret (offer_to_dict f)"
    "of_quantity f = ro_quantity raw" by (simp_all add: raw_offer_of_def)
qed

lemma make_offer_raw_of:
  assumes "offer_ok f" "derive_offer_id H f = Inr (of_offer_id f)" "\<not> has_secret (offer_to_dict f)"
  shows "make_offer H (raw_offer_of f) = Inr f"
  using assms checked_offer_Inr [of "raw_offer_of f" f]
  by (simp add: make_offer_def reject_secret_material_def guardE_def)

lemma offer_from_mapping_to_dict:
  assumes "make_offer H raw = Inr f" "quantity_ok (ro_quantity raw)"
  shows "offer_from_mapping H (offer_to_dict f) = Inr f"
proof -
  note f = make_offer_Inr [OF assms(1)]
  have "make_offer H (raw_offer_of f) = Inr f" by (rule make_offer_raw_of) (rule f)+
  moreover have "quantity_of (quantity_to_dict (of_quantity f)) = Inr (of_quantity f)"
    using quantity_of_to_dict assms(2) f(4) by simp
  ultimately show ?thesis
    by (simp add: offer_from_mapping_def offer_to_dict_def offer_signed_view_def offer_members_def raw_offer_of_def
        is_mapping_def quantity_to_dict_def pairs_field_doc id_field_def py_iter_def)
qed

lemma offer_view_inj:
  assumes "same_doc (offer_signed_view f) (offer_signed_view g)"
  shows "f\<lparr>of_offer_id := ''''\<rparr> = g\<lparr>of_offer_id := ''''\<rparr>"
proof -
  note m = same_doc_members [OF assms [unfolded offer_signed_view_def]]
  from m [of "''resource_id''"] m [of "''provider_node_id''"] m [of "''quantity''"] m [of "''conditions''"]
    m [of "''valid_from''"] m [of "''expires_at''"] m [of "''sequence''"] m [of "''evidence_refs''"]
    m [of "''provenance''"]
  show ?thesis by (cases f; cases g) (simp add: same_quantity_doc same_pairs_doc same_texts)
qed

lemma offer_id_inj:
  assumes "make_offer H raw = Inr f" "make_offer H raw' = Inr g" "of_offer_id f = of_offer_id g"
  shows "f = g \<or> (\<exists>b b'. offer_signature_input f = Inr b \<and> offer_signature_input g = Inr b' \<and> b \<noteq> b' \<and> H b = H b')"
proof -
  from make_offer_Inr(2) [OF assms(1)] obtain b where b: "offer_signature_input f = Inr b" "of_offer_id f = ''sha256:'' @ H b"
    by (auto simp: derive_offer_id_def bindE_eq_Inr_iff)
  from make_offer_Inr(2) [OF assms(2)] obtain b' where b': "offer_signature_input g = Inr b'" "of_offer_id g = ''sha256:'' @ H b'"
    by (auto simp: derive_offer_id_def bindE_eq_Inr_iff)
  show ?thesis
  proof (cases "b = b'")
    case True
    have "canonical_bytes (offer_signed_view h) = Inr c" if "offer_signature_input h = Inr c" for h c
      using that by (auto simp: offer_signature_input_def split: sum.splits)
    with b b' True have "same_doc (offer_signed_view f) (offer_signed_view g)"
      by (intro canonical_bytes_same_doc) auto
    from offer_view_inj [OF this] assms(3) show ?thesis by (cases f; cases g) simp
  next
    case False
    with b b' assms(3) show ?thesis by auto
  qed
qed

section \<open>Measurements\<close>

definition raw_measurement_of :: "resource_measurement \<Rightarrow> raw_measurement" where
  "raw_measurement_of x = \<lparr>xm_resource_id = JStr (rm_resource_id x), xm_source = JStr (rm_source x),
     xm_observed_at = JStr (rm_observed_at x), xm_freshness_until = JStr (rm_freshness_until x),
     xm_value = rm_value x, xm_method_ref = JStr (rm_method_ref x), xm_source_class = JStr (rm_source_class x),
     xm_sequence = JInt (rm_sequence x), xm_uncertainty = rm_uncertainty x, xm_context = rm_context x,
     xm_evidence_refs = map JStr (rm_evidence_refs x), xm_provenance = JStr (rm_provenance x),
     xm_measurement_id = rm_measurement_id x\<rparr>"

definition measurement_ok :: "resource_measurement \<Rightarrow> bool" where
  "measurement_ok x \<longleftrightarrow>
     isOk (parse_resource_id (JStr (rm_resource_id x))) \<and> node_ok (rm_source x) \<and>
     rm_source_class x \<in> set measurement_sources \<and> 1 \<le> rm_sequence x \<and> rm_method_ref x \<noteq> '''' \<and>
     (\<exists>a b. parse_instant (rm_observed_at x) = Some a \<and> parse_instant (rm_freshness_until x) = Some b \<and> a \<le> b) \<and>
     list_all (\<lambda>r. r \<noteq> '''') (rm_evidence_refs x)"

lemma checked_measurement_Inr: "checked_measurement raw = Inr x \<longleftrightarrow> raw = raw_measurement_of x \<and> measurement_ok x"
proof -
  have "checked_measurement raw = Inr x \<longleftrightarrow>
    xm_resource_id raw = JStr (rm_resource_id x) \<and> isOk (parse_resource_id (JStr (rm_resource_id x))) \<and>
    xm_source raw = JStr (rm_source x) \<and> node_ok (rm_source x) \<and>
    xm_source_class raw = JStr (rm_source_class x) \<and> rm_source_class x \<in> set measurement_sources \<and>
    xm_sequence raw = JInt (rm_sequence x) \<and> 1 \<le> rm_sequence x \<and>
    xm_observed_at raw = JStr (rm_observed_at x) \<and> xm_freshness_until raw = JStr (rm_freshness_until x) \<and>
    (\<exists>a b. parse_instant (rm_observed_at x) = Some a \<and> parse_instant (rm_freshness_until x) = Some b \<and> a \<le> b) \<and>
    xm_method_ref raw = JStr (rm_method_ref x) \<and> rm_method_ref x \<noteq> '''' \<and>
    xm_evidence_refs raw = map JStr (rm_evidence_refs x) \<and> list_all (\<lambda>r. r \<noteq> '''') (rm_evidence_refs x) \<and>
    xm_provenance raw = JStr (rm_provenance x) \<and> xm_value raw = rm_value x \<and>
    xm_uncertainty raw = rm_uncertainty x \<and> xm_context raw = rm_context x \<and>
    xm_measurement_id raw = rm_measurement_id x"
    unfolding checked_measurement_def bindE_eq_Inr_iff field_simps_Inr split_beta
    by (cases x) (auto simp: not_less)
  then show ?thesis by (cases raw) (auto simp: raw_measurement_of_def measurement_ok_def)
qed

lemma measurement_id_irrelevant [simp]:
  "measurement_signed_view (x\<lparr>rm_measurement_id := i\<rparr>) = measurement_signed_view x"
  "derive_measurement_id H (x\<lparr>rm_measurement_id := i\<rparr>) = derive_measurement_id H x"
  "has_secret (measurement_to_dict (x\<lparr>rm_measurement_id := i\<rparr>)) = has_secret (measurement_to_dict x)"
  "measurement_ok (x\<lparr>rm_measurement_id := i\<rparr>) = measurement_ok x"
  by (simp_all add: derive_measurement_id_def measurement_signature_input_def measurement_signed_view_def
      measurement_to_dict_def measurement_ok_def)

lemma make_measurement_Inr:
  assumes "make_measurement H raw = Inr x"
  shows "measurement_ok x" "derive_measurement_id H x = Inr (rm_measurement_id x)"
    "\<not> has_secret (measurement_to_dict x)" "rm_value x = xm_value raw" "rm_uncertainty x = xm_uncertainty raw"
proof -
  from assms obtain g i where g: "raw = raw_measurement_of g" "measurement_ok g"
    "\<not> has_secret (measurement_to_dict g)" "derive_measurement_id H g = Inr i"
    and s: "(if rm_measurement_id g = '''' then Inr (g\<lparr>rm_measurement_id := i\<rparr>)
       else if rm_measurement_id g \<noteq> i then Inl (ResourceError ''measurement-id'') else Inr g) = Inr x"
    unfolding make_measurement_def bindE_eq_Inr_iff checked_measurement_Inr reject_secret_material_def
      guardE_eq_Inr_iff by blast
  from s have "x = g\<lparr>rm_measurement_id := i\<rparr>" by (cases g) (auto split: if_splits)
  with g show "measurement_ok x" "derive_measurement_id H x = Inr (rm_measurement_id x)"
    "\<not> has_secret (measurement_to_dict x)" "rm_value x = xm_value raw" "rm_uncertainty x = xm_uncertainty raw"
    by (simp_all add: raw_measurement_of_def)
qed

lemma make_measurement_raw_of:
  assumes "measurement_ok x" "derive_measurement_id H x = Inr (rm_measurement_id x)"
    "\<not> has_secret (measurement_to_dict x)"
  shows "make_measurement H (raw_measurement_of x) = Inr x"
  using assms checked_measurement_Inr [of "raw_measurement_of x" x]
  by (simp add: make_measurement_def reject_secret_material_def guardE_def)

definition measured_ok :: "measured \<Rightarrow> bool" where
  \<comment> \<open>built by the constructors of \<open>Quantity\<close> and \<open>EnergyState\<close>\<close>
  "measured_ok v =
     (case v of
        MQuantity q \<Rightarrow> quantity_ok q
      | MEnergy e \<Rightarrow> quantity_ok (energy_level e) \<and> quantity_ok (energy_capacity e) \<and> quantity_ok (power_draw e) \<and>
          make_energy_state (energy_level e) (energy_capacity e) (power_draw e) = Inr e)"

lemma measured_of_to_dict: "measured_ok v \<Longrightarrow> measured_of (measured_to_dict v) = Inr v"
proof (cases v)
  case (MQuantity q)
  assume "measured_ok v"
  with MQuantity quantity_of_to_dict [of q] show ?thesis
    by (simp add: measured_of_def measured_to_dict_def measured_ok_def quantity_to_dict_def)
next
  case (MEnergy e)
  assume "measured_ok v"
  with MEnergy show ?thesis
    by (simp add: measured_of_def measured_to_dict_def measured_ok_def energy_to_dict_def py_getitem_def
        quantity_of_to_dict)
qed

lemma measurement_from_mapping_to_dict:
  assumes "make_measurement H raw = Inr x" "measured_ok (xm_value raw)" "\<forall>q \<in> set_option (xm_uncertainty raw). quantity_ok q"
  shows "measurement_from_mapping H (measurement_to_dict x) = Inr x"
proof -
  note x = make_measurement_Inr [OF assms(1)]
  have "make_measurement H (raw_measurement_of x) = Inr x" by (rule make_measurement_raw_of) (rule x)+
  moreover have "measured_of (measured_to_dict (rm_value x)) = Inr (rm_value x)"
    using measured_of_to_dict assms(2) x(4) by simp
  moreover have "(case (case rm_uncertainty x of None \<Rightarrow> JNull | Some q \<Rightarrow> quantity_to_dict q) of
                     JNull \<Rightarrow> Inr None
                   | JObj u \<Rightarrow> bindE (quantity_of (JObj u)) (\<lambda>q. Inr (Some q))
                   | _ \<Rightarrow> Inl (ResourceError ''measurement-uncertainty'')) = Inr (rm_uncertainty x)"
  proof (cases "rm_uncertainty x")
    case (Some q)
    then have "quantity_ok q" using assms(3) x(5) by simp
    from quantity_of_to_dict [OF this] Some show ?thesis by (simp add: quantity_to_dict_def)
  qed simp
  ultimately show ?thesis
    by (simp add: measurement_from_mapping_def measurement_to_dict_def measurement_signed_view_def
        measurement_members_def raw_measurement_of_def pairs_field_doc id_field_def py_iter_def)
qed

section \<open>Secret hints\<close>

lemma has_secret_pairs:
  "\<not> has_secret (pairs_doc ps) \<Longrightarrow> p \<in> set ps \<Longrightarrow> \<not> looks_secret (fst p) \<and> \<not> looks_secret (snd p)"
  by (auto simp: pairs_doc_def)

lemma has_secret_texts: "\<not> has_secret (JArr (map JStr ss)) \<Longrightarrow> s \<in> set ss \<Longrightarrow> \<not> looks_secret s"
  by auto

section \<open>Properties\<close>

definition sample_offer :: "int \<Rightarrow> int \<Rightarrow> string \<Rightarrow> resource_offer" where
  \<comment> \<open>offers of a storage resource, for the witnesses\<close>
  "sample_offer val seq oid =
     \<lparr>of_resource_id = r_resource_id (sample_resource ''storage''), of_provider = sample_node CHR ''a'',
      of_quantity = \<lparr>q_value = val, q_unit = ''bytes'', q_dimension = ''''\<rparr>,
      of_valid_from = ''2024-01-01T00:00:00Z'', of_expires_at = ''2024-03-01T00:00:00Z'', of_sequence = seq,
      of_conditions = [(''tier'', ''gold'')], of_evidence_refs = [''ref''], of_provenance = '''', of_offer_id = oid\<rparr>"

definition sample_measurement :: "string \<Rightarrow> string \<Rightarrow> int \<Rightarrow> string \<Rightarrow> resource_measurement" where
  "sample_measurement source cls seq mid =
     \<lparr>rm_resource_id = r_resource_id (sample_resource ''storage''), rm_source = source,
      rm_observed_at = ''2024-01-01T00:00:00Z'', rm_freshness_until = ''2024-03-01T00:00:00Z'',
      rm_value = MQuantity \<lparr>q_value = 7, q_unit = ''bytes'', q_dimension = ''''\<rparr>, rm_method_ref = ''probe'',
      rm_source_class = cls, rm_sequence = seq, rm_uncertainty = None, rm_context = [], rm_evidence_refs = [],
      rm_provenance = '''', rm_measurement_id = mid\<rparr>"

lemma sample_resource_parses: "parse_resource_id (JStr (r_resource_id (sample_resource ''storage'')))
    = Inr (sample_node CHR ''a'', ''storage'', replicate 16 CHR ''a'')"
  by (simp add: parse_resource_id_iff sample_resource_def kind_segment_def lower_alnum_def lower_hex_def less_eq_char_def
      list_all_iff)

lemma sample_offer_made:
  assumes "1 \<le> seq"
  shows "make_offer sample_hash (raw_offer_of (sample_offer val seq (''sha256:'' @ replicate 64 CHR ''a'')))
    = Inr (sample_offer val seq (''sha256:'' @ replicate 64 CHR ''a''))"
proof (rule make_offer_raw_of)
  let ?f = "sample_offer val seq (''sha256:'' @ replicate 64 CHR ''a'')"
  show "offer_ok ?f"
    using assms sample_resource_parses by (simp add: offer_ok_def sample_offer_def sample_times lower_hex_def less_eq_char_def)
  have "isOk (canonical_bytes (offer_signed_view ?f))"
    by (simp add: canonical_bytes_def canonical_json_bytes_ok offer_signed_view_def MAX_CANONICAL_DEPTH_def
        quantity_to_dict_def pairs_doc_def inj_lit sample_offer_def)
  then show "derive_offer_id sample_hash ?f = Inr (of_offer_id ?f)"
    by (auto simp: derive_offer_id_def offer_signature_input_def isOk_iff sample_hash_def sample_offer_def)
  show "\<not> has_secret (offer_to_dict ?f)"
    by (simp add: offer_to_dict_def offer_signed_view_def sample_offer_def quantity_to_dict_def pairs_doc_def
        looks_secret_def ascii_lower_def secret_hints_def less_eq_char_def)
qed

lemma sample_measurement_made:
  assumes "cls \<in> set measurement_sources" "1 \<le> seq" "lower_hex c"
  shows "make_measurement sample_hash (raw_measurement_of (sample_measurement (sample_node c) cls seq (''sha256:'' @ replicate 64 CHR ''a'')))
    = Inr (sample_measurement (sample_node c) cls seq (''sha256:'' @ replicate 64 CHR ''a''))"
proof (rule make_measurement_raw_of)
  let ?x = "sample_measurement (sample_node c) cls seq (''sha256:'' @ replicate 64 CHR ''a'')"
  show "measurement_ok ?x"
    using assms sample_resource_parses by (simp add: measurement_ok_def sample_measurement_def sample_times)
  have "isOk (canonical_bytes (measurement_signed_view ?x))"
    by (simp add: canonical_bytes_def canonical_json_bytes_ok measurement_signed_view_def MAX_CANONICAL_DEPTH_def
        measured_to_dict_def quantity_to_dict_def pairs_doc_def inj_lit sample_measurement_def)
  then show "derive_measurement_id sample_hash ?x = Inr (rm_measurement_id ?x)"
    by (auto simp: derive_measurement_id_def measurement_signature_input_def isOk_iff sample_hash_def sample_measurement_def)
  show "\<not> has_secret (measurement_to_dict ?x)"
    by (simp add: measurement_to_dict_def measurement_signed_view_def sample_measurement_def measured_to_dict_def
        quantity_to_dict_def pairs_doc_def looks_secret_def ascii_lower_def secret_hints_def less_eq_char_def)
qed

text \<open>
  C40: Accepted resource records survive their JSON documents: rebuilding an offer or a
  measurement from \<open>to_dict()\<close> passes every check again, the derived id included, and
  returns the same record.
\<close>

theorem resource_documents_roundtrip:
  assumes "make_offer sha256_hex raw = Inr f" "quantity_ok (ro_quantity raw)"
    and "make_measurement sha256_hex raw' = Inr x" "measured_ok (xm_value raw')"
    and "\<forall>q \<in> set_option (xm_uncertainty raw'). quantity_ok q"
  shows "offer_from_mapping sha256_hex (offer_to_dict f) = Inr f \<and>
    measurement_from_mapping sha256_hex (measurement_to_dict x) = Inr x"
  using offer_from_mapping_to_dict [OF assms(1,2)] measurement_from_mapping_to_dict [OF assms(3-5)] by (rule conjI)

theorem resource_documents_roundtrip_witness:
  "offer_from_mapping sample_hash (offer_to_dict (sample_offer 9 2 (''sha256:'' @ replicate 64 CHR ''a'')))
     = Inr (sample_offer 9 2 (''sha256:'' @ replicate 64 CHR ''a'')) \<and>
   measurement_from_mapping sample_hash
     (measurement_to_dict (sample_measurement (sample_node CHR ''b'') ''remote-relay'' 3 (''sha256:'' @ replicate 64 CHR ''a'')))
     = Inr (sample_measurement (sample_node CHR ''b'') ''remote-relay'' 3 (''sha256:'' @ replicate 64 CHR ''a''))"
proof (rule resource_documents_roundtrip)
  show "make_offer sample_hash (raw_offer_of (sample_offer 9 2 (''sha256:'' @ replicate 64 CHR ''a'')))
      = Inr (sample_offer 9 2 (''sha256:'' @ replicate 64 CHR ''a''))"
    by (rule sample_offer_made) simp
  show "make_measurement sample_hash (raw_measurement_of
        (sample_measurement (sample_node CHR ''b'') ''remote-relay'' 3 (''sha256:'' @ replicate 64 CHR ''a'')))
      = Inr (sample_measurement (sample_node CHR ''b'') ''remote-relay'' 3 (''sha256:'' @ replicate 64 CHR ''a''))"
    by (rule sample_measurement_made) (simp_all add: measurement_sources_def lower_hex_def less_eq_char_def)
qed (simp_all add: raw_offer_of_def raw_measurement_of_def sample_offer_def sample_measurement_def quantity_ok_def
    measured_ok_def)

text \<open>
  An offer id commits to the whole offer: two accepted offers with the same id are
  the same offer, unless their signature inputs are a collision of the hash.
\<close>

theorem offer_id_commits:
  assumes "make_offer sha256_hex raw = Inr f" "make_offer sha256_hex raw' = Inr g" "of_offer_id f = of_offer_id g"
  shows "f = g \<or>
    (\<exists>b b'. offer_signature_input f = Inr b \<and> offer_signature_input g = Inr b' \<and> b \<noteq> b' \<and> sha256_hex b = sha256_hex b')"
  using assms by (rule offer_id_inj)

theorem offer_id_commits_witness:
  "\<exists>b b'. offer_signature_input (sample_offer 9 1 (''sha256:'' @ replicate 64 CHR ''a'')) = Inr b \<and>
    offer_signature_input (sample_offer 9 2 (''sha256:'' @ replicate 64 CHR ''a'')) = Inr b' \<and>
    b \<noteq> b' \<and> sample_hash b = sample_hash b'"
proof -
  have "sample_offer 9 1 (''sha256:'' @ replicate 64 CHR ''a'') \<noteq> sample_offer 9 2 (''sha256:'' @ replicate 64 CHR ''a'')"
    by (simp add: sample_offer_def)
  with offer_id_commits [OF sample_offer_made [of 1 9] sample_offer_made [of 2 9]] show ?thesis
    by (simp add: sample_offer_def)
qed

text \<open>
  No accepted record carries a text that looks like secret material as a key or
  value of its conditions or context, or as an evidence reference, in any letter case.
\<close>

theorem accepted_records_carry_no_secret:
  assumes "make_offer sha256_hex raw = Inr f" "make_measurement sha256_hex raw' = Inr x"
  shows "(\<forall>p \<in> set (of_conditions f) \<union> set (rm_context x). \<not> looks_secret (fst p) \<and> \<not> looks_secret (snd p)) \<and>
    (\<forall>r \<in> set (of_evidence_refs f) \<union> set (rm_evidence_refs x). \<not> looks_secret r)"
proof -
  from make_offer_Inr(3) [OF assms(1)]
  have f: "\<not> has_secret (pairs_doc (of_conditions f))" "\<not> has_secret (JArr (map JStr (of_evidence_refs f)))"
    by (simp_all add: offer_to_dict_def offer_signed_view_def)
  from make_measurement_Inr(3) [OF assms(2)]
  have x: "\<not> has_secret (pairs_doc (rm_context x))" "\<not> has_secret (JArr (map JStr (rm_evidence_refs x)))"
    by (simp_all add: measurement_to_dict_def measurement_signed_view_def)
  show ?thesis
    using has_secret_pairs [OF f(1)] has_secret_pairs [OF x(1)] has_secret_texts [OF f(2)] has_secret_texts [OF x(2)]
    by blast
qed

theorem accepted_records_carry_no_secret_witness:
  "\<not> looks_secret ''gold'' \<and> \<not> looks_secret ''ref''"
proof -
  have "make_measurement sample_hash (raw_measurement_of
        (sample_measurement (sample_node CHR ''b'') ''remote-relay'' 3 (''sha256:'' @ replicate 64 CHR ''a'')))
      = Inr (sample_measurement (sample_node CHR ''b'') ''remote-relay'' 3 (''sha256:'' @ replicate 64 CHR ''a''))"
    by (rule sample_measurement_made) (simp_all add: measurement_sources_def lower_hex_def less_eq_char_def)
  from accepted_records_carry_no_secret [OF sample_offer_made [of 1 9] this] show ?thesis
    by (simp add: sample_offer_def)
qed

text \<open>
  The offer parser does not fail closed on every contract violation: on a document
  with every required member whose quantity lacks its value, the built-in \<open>KeyError\<close>
  escapes instead of a \<open>ResourceError\<close>, and on conditions that are a number, \<open>TypeError\<close>.
\<close>

theorem malformed_offer_escapes:
  assumes "list_all (\<lambda>k. dget d k \<noteq> None) offer_members" "dget d ''quantity'' = Some (JObj q)"
  shows "(dget q ''value'' = None \<longrightarrow> offer_from_mapping sha256_hex (JObj d) = Inl PyKeyError) \<and>
    (isOk (quantity_of (JObj q)) \<and> dget d ''conditions'' = Some (JInt 5) \<longrightarrow>
       offer_from_mapping sha256_hex (JObj d) = Inl PyTypeError)"
proof -
  have "\<not> (\<exists>k \<in> set offer_members. dget d k = None)" using assms(1) by (auto simp: list_all_iff)
  then show ?thesis
    using assms(2) unfolding offer_from_mapping_def
    by (auto simp: is_mapping_def quantity_of_def py_getitem_def pairs_field_def py_falsy_def py_iter_def isOk_iff
        bindE_eq_Inr_iff)
qed

theorem malformed_offer_escapes_witness:
  "offer_from_mapping sample_hash (JObj (map (\<lambda>k. (k, if k = ''quantity'' then JObj [] else JNull)) offer_members))
   = Inl PyKeyError"
proof -
  let ?d = "map (\<lambda>k. (k, if k = ''quantity'' then JObj [] else JNull)) offer_members"
  have "list_all (\<lambda>k. dget ?d k \<noteq> None) offer_members" "dget ?d ''quantity'' = Some (JObj [])"
    by (simp_all add: offer_members_def)
  from malformed_offer_escapes [OF this] show ?thesis by simp
qed

end
