(* ===== verification/Resource_Lifecycle.thy ===== *)
theory Resource_Lifecycle
  imports Resource_Convergence Resource_Documents
begin

text \<open>
  Histories of the resource store: every operation that changes it as a step relation,
  the invariant of reachable stores, and what follows for the accounts: no step but the
  account's own operations touches a live account, and two of the error branches of
  \<open>init_account_from_offer\<close> cannot be reached.
\<close>

declare split_paired_All [simp del] split_paired_Ex [simp del]

section \<open>Steps\<close>

inductive store_step :: "resource_store \<Rightarrow> resource_store \<Rightarrow> bool" where
  register: "register_resource s r = Inr s' \<Longrightarrow> store_step s s'"
| offer: "create_offer s f = Inr (s', out) \<Longrightarrow> store_step s s'"
| measurement: "record_measurement s x = Inr (s', out) \<Longrightarrow> store_step s s'"
| init: "init_account_from_offer s rid now = Inr (s', a) \<Longrightarrow> store_step s s'"
| account: "f \<in> set account_operations \<Longrightarrow> store_step s (fst (on_account f s rid op_id q now v))"

inductive reachable_store :: "resource_store \<Rightarrow> bool" where
  start: "reachable_store empty_store"
| step: "reachable_store s \<Longrightarrow> store_step s s' \<Longrightarrow> reachable_store s'"

section \<open>The invariant\<close>

definition owner_key :: "resource \<Rightarrow> offer_key" where
  "owner_key r = (r_resource_id r, r_owner_node_id r, '''')"

definition resources_ok :: "resource_store \<Rightarrow> bool" where
  "resources_ok s \<longleftrightarrow> (\<forall>rid r. dget (rs_resources s) rid = Some r \<longrightarrow> r_resource_id r = rid)"

definition offers_ok :: "resource_store \<Rightarrow> bool" where
  \<comment> \<open>a current offer is its resource owner's, at the watermark of its key\<close>
  "offers_ok s \<longleftrightarrow> dict_wf (rs_offers s) \<and>
     (\<forall>k f. dget (rs_offers s) k = Some f \<longrightarrow>
        k = offer_key f \<and> of_sequence f = dgetd (rs_offer_watermarks s) k 0 \<and>
        (\<exists>r. dget (rs_resources s) (of_resource_id f) = Some r \<and> of_provider f = r_owner_node_id r))"

definition account_ok :: "resource_store \<Rightarrow> string \<Rightarrow> account \<Rightarrow> bool" where
  \<comment> \<open>the account is reachable by its own operations and was opened from an offer no newer
     than the owner's, the current offer itself if their sequences agree\<close>
  "account_ok s rid a \<longleftrightarrow> reachable_account a \<and> a_resource_id a = rid \<and>
     (\<exists>r. dget (rs_resources s) rid = Some r \<and>
        a_offer_sequence a \<le> dgetd (rs_offer_watermarks s) (owner_key r) 0 \<and>
        (\<forall>f. dget (rs_offers s) (owner_key r) = Some f \<longrightarrow> of_sequence f = a_offer_sequence a \<longrightarrow>
             of_offer_id f = a_offer_id a))"

definition store_ok :: "resource_store \<Rightarrow> bool" where
  "store_ok s \<longleftrightarrow> resources_ok s \<and> offers_ok s \<and>
     (\<forall>rid a. dget (rs_accounts s) rid = Some a \<longrightarrow> account_ok s rid a)"

lemma store_ok_empty: "store_ok empty_store"
  by (simp add: store_ok_def resources_ok_def offers_ok_def empty_store_def)

lemma current_offer_owner:
  assumes "store_ok s" "dget (rs_resources s) rid = Some r" "current_offer s rid now = Some f"
  shows "dget (rs_offers s) (owner_key r) = Some f \<and> offer_fresh f now \<and> of_resource_id f = rid"
proof -
  let ?c = "filter (\<lambda>kv. offer_fresh (snd kv) now) (of_resource rid (sort_key fst (rs_offers s)))"
  from assms(3) have "?c \<noteq> [] \<and> f = snd (hd ?c)" by (cases ?c) (auto simp: current_offer_def)
  then have "hd ?c \<in> set ?c" "f = snd (hd ?c)" by (blast intro: hd_in_set)+
  then obtain k where "(k, f) \<in> set (of_resource rid (sort_key fst (rs_offers s)))" "offer_fresh f now"
    by (metis (no_types, lifting) filter_is_subset mem_Collect_eq prod.collapse set_filter subsetD)
  then have k: "(k, f) \<in> set (rs_offers s)" "fst k = rid" and fresh: "offer_fresh f now"
    by (auto simp: of_resource_def)
  with assms(1) have g: "dget (rs_offers s) k = Some f" by (simp add: store_ok_def offers_ok_def)
  with assms(1) obtain r' where "k = offer_key f" "dget (rs_resources s) (of_resource_id f) = Some r'"
    "of_provider f = r_owner_node_id r'"
    unfolding store_ok_def offers_ok_def by blast
  moreover have "r_resource_id r = rid" using assms(1,2) by (simp add: store_ok_def resources_ok_def)
  ultimately show ?thesis using assms(2) k(2) g fresh by (simp add: offer_key_def owner_key_def)
qed

section \<open>Every step keeps the invariant\<close>

lemma store_ok_extend:
  assumes ok: "store_ok s" and same: "rs_offers s' = rs_offers s" "rs_offer_watermarks s' = rs_offer_watermarks s"
      "rs_accounts s' = rs_accounts s"
    and keep: "\<And>rid r. dget (rs_resources s) rid = Some r \<Longrightarrow> dget (rs_resources s') rid = Some r"
    and res: "resources_ok s'"
  shows "store_ok s'"
proof -
  have "offers_ok s'" using ok keep unfolding store_ok_def offers_ok_def same by blast
  moreover have "account_ok s' rid a" if "dget (rs_accounts s) rid = Some a" for rid a
  proof -
    from ok that have "account_ok s rid a" by (simp add: store_ok_def)
    with keep show ?thesis unfolding account_ok_def same by blast
  qed
  ultimately show ?thesis using res by (simp add: store_ok_def same)
qed

lemma store_ok_register: "register_resource s r = Inr s' \<Longrightarrow> store_ok s \<Longrightarrow> store_ok s'"
proof -
  assume reg: "register_resource s r = Inr s'" and ok: "store_ok s"
  show "store_ok s'"
  proof (cases "dget (rs_resources s) (r_resource_id r)")
    case None
    then have s': "s' = s\<lparr>rs_resources := dset (rs_resources s) (r_resource_id r) r\<rparr>"
      using reg by (simp add: register_resource_def)
    show ?thesis
      by (rule store_ok_extend [OF ok]) (use None ok in \<open>auto simp: s' store_ok_def resources_ok_def\<close>)
  next
    case (Some e)
    with reg ok show ?thesis by (simp add: register_resource_def split: if_splits)
  qed
qed

lemma store_ok_measurement: "record_measurement s x = Inr (s', out) \<Longrightarrow> store_ok s \<Longrightarrow> store_ok s'"
proof -
  assume "record_measurement s x = Inr (s', out)" and ok: "store_ok s"
  then have s': "s' = fst (merge_measurement s x)" by (metis fst_conv record_measurement_cases)
  have "offer_part s' = offer_part s" by (simp add: s')
  then show ?thesis
    by (intro store_ok_extend [OF ok]) (use ok in \<open>simp_all add: offer_part_def s' store_ok_def resources_ok_def\<close>)
qed

lemma store_ok_offer: "create_offer s f = Inr (s', out) \<Longrightarrow> store_ok s \<Longrightarrow> store_ok s'"
proof -
  assume "create_offer s f = Inr (s', out)" and ok: "store_ok s"
  then have adm: "offer_admitted (rs_resources s) f" and s': "s' = fst (merge_offer s f)"
    by (metis create_offer_cases, metis fst_conv create_offer_cases)
  have same: "rs_resources s' = rs_resources s" "rs_accounts s' = rs_accounts s" by (simp_all add: s')
  have mono: "dgetd (rs_offer_watermarks s) k 0 \<le> dgetd (rs_offer_watermarks s') k 0" for k
    unfolding s' by (rule offers.watermark_mono)
  have cur: "dget (rs_offers s') k = Some g \<Longrightarrow>
      g = f \<and> k = offer_key f \<and> dgetd (rs_offer_watermarks s) k 0 < of_sequence f \<and>
        dgetd (rs_offer_watermarks s') k 0 = of_sequence f
      \<or> dget (rs_offers s) k = Some g \<and> dgetd (rs_offer_watermarks s') k 0 = dgetd (rs_offer_watermarks s) k 0" for k g
    unfolding s' by (auto simp: merge_offer_def Let_def split: if_splits option.splits)
  have "dict_wf (rs_offers s')" unfolding s' using ok by (intro offers.dicts) (simp add: store_ok_def offers_ok_def)
  moreover have "k = offer_key g \<and> of_sequence g = dgetd (rs_offer_watermarks s') k 0 \<and>
        (\<exists>r. dget (rs_resources s) (of_resource_id g) = Some r \<and> of_provider g = r_owner_node_id r)"
    if "dget (rs_offers s') k = Some g" for k g
    using cur [OF that] ok adm unfolding store_ok_def offers_ok_def offer_admitted_def by metis
  ultimately have "offers_ok s'" unfolding offers_ok_def same by blast
  moreover have "account_ok s' rid a" if "dget (rs_accounts s') rid = Some a" for rid a
  proof -
    from ok that same obtain r where r: "dget (rs_resources s) rid = Some r"
      "a_offer_sequence a \<le> dgetd (rs_offer_watermarks s) (owner_key r) 0"
      "\<And>g. dget (rs_offers s) (owner_key r) = Some g \<Longrightarrow> of_sequence g = a_offer_sequence a \<Longrightarrow>
             of_offer_id g = a_offer_id a"
      and a: "reachable_account a" "a_resource_id a = rid"
      unfolding store_ok_def account_ok_def by metis
    have "a_offer_sequence a \<le> dgetd (rs_offer_watermarks s') (owner_key r) 0"
      using r(2) mono by (rule order_trans)
    moreover have "of_offer_id g = a_offer_id a"
      if "dget (rs_offers s') (owner_key r) = Some g" "of_sequence g = a_offer_sequence a" for g
      using cur [OF that(1)] r(2,3) that(2) by auto
    ultimately show ?thesis using r(1) a unfolding account_ok_def same by blast
  qed
  ultimately show ?thesis using ok by (simp add: store_ok_def resources_ok_def same)
qed

lemma require_resource_Inr: "require_resource s rid = Inr r \<longleftrightarrow> dget (rs_resources s) rid = Some r"
  by (simp add: require_resource_def split: option.splits)

lemma make_account_same: "make_account a = Inr b \<Longrightarrow> b = a"
  by (simp add: make_account_def)

definition opened_account :: "string \<Rightarrow> resource_offer \<Rightarrow> int \<Rightarrow> account" where
  "opened_account rid f offered = \<lparr>a_resource_id = rid, a_offered = offered, a_reserved = 0, a_consumed = 0,
     a_offer_sequence = of_sequence f, a_version = 1, a_offer_id = of_offer_id f, a_operations = []\<rparr>"

lemma init_cases:
  assumes "init_account_from_offer s rid now = Inr (s', a)"
  obtains (kept) "dget (rs_accounts s) rid = Some a" "s' = s"
  | (opened) r f offered where "dget (rs_resources s) rid = Some r" "current_offer s rid now = Some f"
      "to_base (of_quantity f) (r_kind r) = Inr offered" "make_account (opened_account rid f offered) = Inr a"
      "s' = s\<lparr>rs_accounts := dset (rs_accounts s) rid a\<rparr>"
      "\<And>e. dget (rs_accounts s) rid = Some e \<Longrightarrow>
         a_offer_sequence e < of_sequence f \<and> a_reserved e \<le> 0 \<and> a_consumed e \<le> 0"
proof -
  from assms obtain r f where r: "dget (rs_resources s) rid = Some r" and f: "current_offer s rid now = Some f"
    by (auto simp: init_account_from_offer_def bindE_eq_Inr_iff require_resource_Inr split: option.splits)
  let ?fresh = "bindE (to_base (of_quantity f) (r_kind r)) (\<lambda>offered.
      bindE (make_account (opened_account rid f offered)) (\<lambda>a. Inr (s\<lparr>rs_accounts := dset (rs_accounts s) rid a\<rparr>, a)))"
  have eq: "init_account_from_offer s rid now =
      (case dget (rs_accounts s) rid of
         None \<Rightarrow> ?fresh
       | Some e \<Rightarrow>
           if of_sequence f < a_offer_sequence e then Inl (ResourceError ''account-stale-offer'')
           else if of_sequence f = a_offer_sequence e then
             (if a_offer_id e = of_offer_id f then Inr (s, e) else Inl (ResourceError ''account-offer-conflict''))
           else if 0 < a_reserved e \<or> 0 < a_consumed e then Inl (ResourceError ''account-offer-advance'')
           else ?fresh)"
    unfolding init_account_from_offer_def require_resource_def Let_def opened_account_def r f by simp
  have fresh: thesis if "?fresh = Inr (s', a)"
    "\<And>e. dget (rs_accounts s) rid = Some e \<Longrightarrow>
       a_offer_sequence e < of_sequence f \<and> a_reserved e \<le> 0 \<and> a_consumed e \<le> 0"
    using that opened [OF r f] by (auto simp: bindE_eq_Inr_iff)
  show thesis
  proof (cases "dget (rs_accounts s) rid")
    case None
    with assms fresh show thesis by (simp add: eq)
  next
    case (Some e)
    with assms fresh kept show thesis by (auto simp: eq split: if_splits)
  qed
qed

lemma store_ok_set_account:
  assumes "store_ok s" "account_ok s rid a"
  shows "store_ok (s\<lparr>rs_accounts := dset (rs_accounts s) rid a\<rparr>)"
proof -
  let ?s = "s\<lparr>rs_accounts := dset (rs_accounts s) rid a\<rparr>"
  have same: "account_ok ?s = account_ok s" "offers_ok ?s = offers_ok s" "resources_ok ?s = resources_ok s"
    by (simp_all add: account_ok_def offers_ok_def resources_ok_def fun_eq_iff)
  show ?thesis using assms unfolding store_ok_def same by simp
qed

lemma store_ok_init:
  assumes "init_account_from_offer s rid now = Inr (s', a)" "store_ok s"
  shows "store_ok s' \<and> dget (rs_accounts s') rid = Some a"
  using assms(1)
proof (cases rule: init_cases)
  case (opened r f offered)
  have a: "a = opened_account rid f offered" using opened(4) by (rule make_account_same)
  have "reachable_account a"
    using opened(4) by (rule reachable_account.start) (simp add: opened_account_def)
  moreover have "dget (rs_offers s) (owner_key r) = Some f"
    using current_offer_owner [OF assms(2) opened(1,2)] by simp
  moreover from this have "of_sequence f = dgetd (rs_offer_watermarks s) (owner_key r) 0"
    using assms(2) unfolding store_ok_def offers_ok_def by metis
  ultimately have "account_ok s rid a" using opened(1) by (simp add: account_ok_def a opened_account_def)
  from store_ok_set_account [OF assms(2) this] show ?thesis by (simp add: opened(5))
qed (use assms(2) in simp)

lemma require_account_ok:
  assumes "require_account s rid now = Inr (s', a)" "store_ok s"
  shows "store_ok s' \<and> dget (rs_accounts s') rid = Some a"
  using assms store_ok_init by (auto simp: require_account_def split: option.splits)

lemma operation_keeps_offer:
  "account_step a a' \<Longrightarrow> a_offer_sequence a' = a_offer_sequence a \<and> a_offer_id a' = a_offer_id a \<and>
     a_resource_id a' = a_resource_id a \<and> a_offered a' = a_offered a"
  by (erule operation_cases) simp_all

lemma store_ok_account:
  assumes "f \<in> set account_operations" "store_ok s"
  shows "store_ok (fst (on_account f s rid op_id q now v))"
proof (cases "require_account s rid now")
  case (Inr sa)
  obtain s' a where sa: "sa = (s', a)" by (cases sa)
  from require_account_ok [OF Inr [unfolded sa] assms(2)]
  have ok: "store_ok s'" and a: "dget (rs_accounts s') rid = Some a" by auto
  have kept: "account_ok s' rid (fst (f a op_id qty v))" for qty
  proof -
    have step: "account_step a (fst (f a op_id qty v))" using assms(1) by (rule account_operation_step)
    from ok a have "account_ok s' rid a" by (simp add: store_ok_def)
    with operation_keeps_offer [OF step] reachable_account.step [OF _ step] show ?thesis
      unfolding account_ok_def by metis
  qed
  have "store_ok (s'\<lparr>rs_accounts := dset (rs_accounts s') rid (fst (f a op_id qty v))\<rparr>)" for qty
    using ok kept by (rule store_ok_set_account)
  then show ?thesis
    using Inr sa ok by (simp add: on_account_def split_beta Let_def split: sum.split)
qed (use assms(2) in \<open>simp add: on_account_def\<close>)

lemma store_ok_step: "store_step s s' \<Longrightarrow> store_ok s \<Longrightarrow> store_ok s'"
  by (induction rule: store_step.induct)
    (auto dest: store_ok_register store_ok_offer store_ok_measurement store_ok_init intro: store_ok_account)

lemma reachable_store_ok: "reachable_store s \<Longrightarrow> store_ok s"
  by (induction rule: reachable_store.induct) (auto intro: store_ok_empty store_ok_step)

section \<open>Live accounts\<close>

lemma on_account_present:
  assumes "dget (rs_accounts s) rid = Some a"
  shows "fst (on_account f s rid op_id q now v) = s \<or>
    (\<exists>qty. fst (on_account f s rid op_id q now v)
       = s\<lparr>rs_accounts := dset (rs_accounts s) rid (fst (f a op_id qty v))\<rparr>)"
  using assms by (auto simp: on_account_def require_account_def split_beta Let_def split: sum.split)

lemma require_account_other:
  assumes "require_account s rid now = Inr (s', a)" "rid' \<noteq> rid"
  shows "dget (rs_accounts s') rid' = dget (rs_accounts s) rid'"
  using assms by (auto simp: require_account_def split: option.splits elim!: init_cases)

lemma on_account_other:
  assumes "rid' \<noteq> rid"
  shows "dget (rs_accounts (fst (on_account f s rid op_id q now v))) rid' = dget (rs_accounts s) rid'"
proof (cases "require_account s rid now")
  case (Inr sa)
  then have "dget (rs_accounts (fst sa)) rid' = dget (rs_accounts s) rid'"
    using require_account_other [of s rid now "fst sa" "snd sa" rid'] assms by simp
  then show ?thesis using Inr assms by (simp add: on_account_def split_beta Let_def split: sum.split)
qed (simp add: on_account_def)

lemma live_account_step:
  assumes "store_step s s'" "dget (rs_accounts s) rid = Some a" "0 < a_reserved a \<or> 0 < a_consumed a"
  shows "\<exists>a'. dget (rs_accounts s') rid = Some a' \<and> (a' = a \<or> account_step a a')"
  using assms(1)
proof (cases rule: store_step.cases)
  case (register r)
  then show ?thesis using assms(2) by (auto simp: register_resource_def split: option.splits if_splits)
next
  case (offer f out)
  then have "s' = fst (merge_offer s f)" by (metis create_offer_cases fst_conv)
  then show ?thesis using assms(2) by simp
next
  case (measurement x out)
  then have "s' = fst (merge_measurement s x)" by (metis record_measurement_cases fst_conv)
  then show ?thesis using assms(2) by simp
next
  case (init rid' now b)
  show ?thesis
  proof (cases "rid' = rid")
    case True
    from init show ?thesis
      by (cases rule: init_cases) (use assms(2,3) True in auto)
  next
    case False
    from init have "dget (rs_accounts s') rid = dget (rs_accounts s) rid"
      by (cases rule: init_cases) (use False in auto)
    with assms(2) show ?thesis by simp
  qed
next
  case (account f rid' op_id q now v)
  show ?thesis
  proof (cases "rid' = rid")
    case True
    from on_account_present [OF assms(2), of f op_id q now v] account True show ?thesis
      using assms(2) account_operation_step [OF account(2), of a op_id _ v] by auto
  next
    case False
    with account assms(2) on_account_other [of rid rid' f s op_id q now v] show ?thesis by simp
  qed
qed

section \<open>A sample history\<close>

definition sample_id :: string where
  "sample_id = r_resource_id (sample_resource ''storage'')"

definition sample_registered :: resource_store where
  "sample_registered = empty_store\<lparr>rs_resources := [(sample_id, (sample_resource ''storage'')\<lparr>r_base_unit := ''bytes''\<rparr>)]\<rparr>"

definition sample_offered :: resource_store where
  "sample_offered = fst (merge_offer sample_registered (sample_offer 9 1 ''o1''))"

definition sample_live :: resource_store where
  "sample_live = fst (store_reserve sample_offered sample_id ''x'' \<lparr>q_value = 4, q_unit = ''bytes'', q_dimension = ''''\<rparr>
     63839664000000000 None)"

definition live_account :: account where
  "live_account = \<lparr>a_resource_id = sample_id, a_offered = 9, a_reserved = 4, a_consumed = 0, a_offer_sequence = 1,
     a_version = 2, a_offer_id = ''o1'', a_operations = [(''x'', ''reserved'')]\<rparr>"

lemma sample_resource_fields:
  "r_resource_id (sample_resource k) = ''adcos:resource:'' @ sample_node CHR ''a'' @ '':'' @ k @ '':'' @ replicate 16 CHR ''a''"
  "r_owner_node_id (sample_resource k) = sample_node CHR ''a''" "r_kind (sample_resource k) = k"
  by (simp_all add: sample_resource_def)

lemma storage_bytes: "unit_lookup ''storage'' ''bytes'' = Inr (''bytes'', 1)"
  by (simp add: unit_lookup_def unit_registry_def)

lemma sample_offer_simps [simp]:
  "of_resource_id (sample_offer v n i) = sample_id" "of_provider (sample_offer v n i) = sample_node CHR ''a''"
  "of_quantity (sample_offer v n i) = \<lparr>q_value = v, q_unit = ''bytes'', q_dimension = ''''\<rparr>"
  "of_sequence (sample_offer v n i) = n" "of_offer_id (sample_offer v n i) = i"
  "offer_fresh (sample_offer v n i) now \<longleftrightarrow> 63839664000000000 \<le> now \<and> now \<le> 63844848000000000"
  by (simp_all add: sample_offer_def sample_id_def offer_fresh_def within_def sample_times)

lemma sample_registered_step: "store_step empty_store sample_registered"
  by (rule store_step.register [where r = "(sample_resource ''storage'')\<lparr>r_base_unit := ''bytes''\<rparr>"])
    (simp add: register_resource_def sample_registered_def sample_id_def empty_store_def)

lemma sample_admitted: "offer_admitted (rs_resources sample_registered) (sample_offer v n i)"
  by (simp add: offer_admitted_def sample_registered_def sample_resource_fields storage_bytes)

lemma sample_offered_step: "store_step sample_registered sample_offered"
  by (rule store_step.offer [where f = "sample_offer 9 1 ''o1''" and out = "snd (merge_offer sample_registered (sample_offer 9 1 ''o1''))"])
    (simp add: create_offer_cases sample_admitted sample_offered_def)

lemma sample_live_step: "store_step sample_offered sample_live"
  unfolding sample_live_def store_reserve_def by (rule store_step.account) (simp add: account_operations_def)

lemma sample_live_reachable: "reachable_store sample_live"
  using reachable_store.start sample_registered_step sample_offered_step sample_live_step
  by (blast intro: reachable_store.step)

lemma sample_live_account: "rs_accounts sample_live = [(sample_id, live_account)]"
  by (simp add: sample_live_def store_reserve_def on_account_def require_account_def init_account_from_offer_def
      sample_offered_def merge_offer_def sample_registered_def empty_store_def require_resource_def current_offer_def
      of_resource_def offer_key_def to_base_def unit_multiplier_for_def storage_bytes sample_resource_fields
      make_account_def invariant_violation_def reserve_def precheck_def commit_def live_account_def Let_def)

lemma live_account_fields:
  "a_offered live_account = 9" "a_offer_id live_account = ''o1''" "a_offer_sequence live_account = 1"
  "a_reserved live_account = 4"
  by (simp_all add: live_account_def)

section \<open>Properties\<close>

text \<open>
  C39: In every reachable store a live account (something reserved or consumed) survives
  every step: it is never reset or removed by an offer, a measurement, a registration or
  a re-initialisation, only its own four operations change it, and they keep the offered
  quantity, the originating offer and the ledger's bounds.
\<close>

theorem live_account_never_reset:
  assumes "reachable_store s" "dget (rs_accounts s) rid = Some a" "0 < a_reserved a \<or> 0 < a_consumed a"
    and "store_step s s'"
  shows "\<exists>a'. dget (rs_accounts s') rid = Some a' \<and> (a' = a \<or> account_step a a') \<and> ledger_bounds a' \<and>
    a_offered a' = a_offered a \<and> a_offer_id a' = a_offer_id a \<and> a_offer_sequence a' = a_offer_sequence a"
proof -
  from live_account_step [OF assms(4,2,3)] obtain a' where
    a': "dget (rs_accounts s') rid = Some a'" "a' = a \<or> account_step a a'" by blast
  have "store_ok s'" using assms(1,4) reachable_store.step reachable_store_ok by blast
  with a'(1) have "reachable_account a'" by (simp add: store_ok_def account_ok_def)
  with a' operation_keeps_offer [of a a'] reachable_bounds [of a'] show ?thesis by auto
qed

theorem live_account_never_reset_witness:
  "\<exists>a'. dget (rs_accounts (fst (merge_offer sample_live (sample_offer 20 2 ''o2'')))) sample_id = Some a' \<and>
     (a' = live_account \<or> account_step live_account a') \<and> ledger_bounds a' \<and> a_offered a' = 9 \<and> a_offer_id a' = ''o1'' \<and>
     a_offer_sequence a' = 1"
proof -
  have acc: "dget (rs_accounts sample_live) sample_id = Some live_account"
    and live: "0 < a_reserved live_account \<or> 0 < a_consumed live_account"
    by (simp_all add: sample_live_account live_account_fields)
  have "store_step sample_live (fst (merge_offer sample_live (sample_offer 20 2 ''o2'')))"
  proof (rule store_step.offer)
    have "rs_resources sample_live = rs_resources sample_registered"
      by (simp add: sample_live_def store_reserve_def on_account_def require_account_def init_account_from_offer_def
          sample_offered_def merge_offer_def sample_registered_def empty_store_def require_resource_def current_offer_def
          of_resource_def offer_key_def to_base_def unit_multiplier_for_def storage_bytes sample_resource_fields
          make_account_def invariant_violation_def Let_def split_beta)
    then show "create_offer sample_live (sample_offer 20 2 ''o2'') =
        Inr (fst (merge_offer sample_live (sample_offer 20 2 ''o2'')), snd (merge_offer sample_live (sample_offer 20 2 ''o2'')))"
      by (simp add: create_offer_cases sample_admitted)
  qed
  from live_account_never_reset [OF sample_live_reachable acc live this] show ?thesis
    by (simp only: live_account_fields)
qed

text \<open>
  Two fail-closed branches of \<open>init_account_from_offer\<close> are never taken: no history
  of the store makes it meet a current offer older than its account, or a different
  current offer of the account's own sequence.
\<close>

theorem offer_branches_unreachable:
  assumes "reachable_store s"
  shows "init_account_from_offer s rid now \<noteq> Inl (ResourceError ''account-stale-offer'') \<and>
    init_account_from_offer s rid now \<noteq> Inl (ResourceError ''account-offer-conflict'')"
proof -
  have ok: "store_ok s" using assms by (rule reachable_store_ok)
  have "\<not> of_sequence f < a_offer_sequence e \<and> (of_sequence f = a_offer_sequence e \<longrightarrow> a_offer_id e = of_offer_id f)"
    if f: "dget (rs_resources s) rid = Some r" "current_offer s rid now = Some f" and e: "dget (rs_accounts s) rid = Some e"
    for r f e
  proof -
    have g: "dget (rs_offers s) (owner_key r) = Some f" using current_offer_owner [OF ok f] by simp
    then have "of_sequence f = dgetd (rs_offer_watermarks s) (owner_key r) 0"
      using ok unfolding store_ok_def offers_ok_def by metis
    moreover have "account_ok s rid e" using ok e by (simp add: store_ok_def)
    ultimately show ?thesis using f(1) g by (auto simp: account_ok_def)
  qed
  moreover have "to_base q k \<noteq> Inl (ResourceError c)" if "c \<in> {''account-stale-offer'', ''account-offer-conflict''}" for q k c
    using that by (auto simp: to_base_def unit_multiplier_for_def unit_lookup_def bindE_eq_Inl_iff split: option.splits)
  moreover have "make_account b \<noteq> Inl (ResourceError c)" if "c \<in> {''account-stale-offer'', ''account-offer-conflict''}" for b c
    using that by (auto simp: make_account_def)
  ultimately show ?thesis
    by (auto simp: init_account_from_offer_def require_resource_def bindE_eq_Inl_iff Let_def
        split: option.splits if_splits)
qed

theorem offer_branches_unreachable_witness:
  "init_account_from_offer sample_live sample_id 63839664000000000 \<noteq> Inl (ResourceError ''account-stale-offer'')"
  using offer_branches_unreachable [OF sample_live_reachable] by simp

text \<open>
  Re-initialising an idle account from a newer offer forgets the operations already
  applied, so a delayed repetition of one of them is booked a second time instead of
  being answered as idempotent.
\<close>

theorem reset_forgets_operations:
  assumes "init_account_from_offer s rid now = Inr (s', a)" "dget (rs_accounts s) rid = Some e"
    and "a_offer_sequence e < a_offer_sequence a"
    and "dget (a_operations e) op_id \<noteq> None" "op_id \<noteq> ''''" "0 \<le> qty" "qty \<le> a_offered a"
  shows "get_account s' rid = Some a \<and>
    snd (reserve e op_id qty None) = Inr \<lparr>ao_accepted = True, ao_code = ''idempotent''\<rparr> \<and>
    snd (reserve a op_id qty None) = Inr \<lparr>ao_accepted = True, ao_code = ''reserved''\<rparr> \<and>
    a_reserved (fst (reserve a op_id qty None)) = qty"
  using assms(1)
proof (cases rule: init_cases)
  case (opened r f offered)
  then have a: "a = opened_account rid f offered" by (intro make_account_same)
  have "snd (reserve e op_id qty None) = Inr \<lparr>ao_accepted = True, ao_code = ''idempotent''\<rparr>"
    using repeated_operation [of reserve e op_id qty None] assms(4-6) by (simp add: account_operations_def)
  moreover have "precheck a op_id qty None = None" using assms(5,6) by (simp add: precheck_def a opened_account_def)
  then have "reserve a op_id qty None = commit (a\<lparr>a_reserved := qty\<rparr>) op_id ''reserved'' ''reserved''"
    using assms(7) by (simp add: reserve_def a opened_account_def)
  ultimately show ?thesis using assms(6,7) opened(5)
    by (simp add: get_account_def invariant_violation_def a opened_account_def)
qed (use assms(2,3) in simp)

theorem reset_forgets_operations_witness:
  "snd (reserve (opened_account sample_id (sample_offer 20 2 ''o2'') 20) ''x'' 4 None)
   = Inr \<lparr>ao_accepted = True, ao_code = ''reserved''\<rparr>"
proof -
  let ?e = "live_account\<lparr>a_reserved := 0\<rparr>"
  let ?s = "fst (merge_offer (sample_offered\<lparr>rs_accounts := [(sample_id, ?e)]\<rparr>) (sample_offer 20 2 ''o2''))"
  have "init_account_from_offer ?s sample_id 63839664000000000 = Inr
     (?s\<lparr>rs_accounts := dset (rs_accounts ?s) sample_id (opened_account sample_id (sample_offer 20 2 ''o2'') 20)\<rparr>,
      opened_account sample_id (sample_offer 20 2 ''o2'') 20)"
    by (simp add: init_account_from_offer_def sample_offered_def merge_offer_def sample_registered_def empty_store_def
        require_resource_def current_offer_def of_resource_def offer_key_def to_base_def unit_multiplier_for_def
        storage_bytes sample_resource_fields make_account_def invariant_violation_def live_account_def opened_account_def
        Let_def)
  moreover have "dget (rs_accounts ?s) sample_id = Some ?e" by simp
  ultimately show ?thesis
    using reset_forgets_operations [where e = "?e" and op_id = "''x''" and qty = 4] by (simp add: live_account_def opened_account_def)
qed

section \<open>Properties of the live view\<close>

lemma sample_measurement_simps [simp]:
  "rm_sequence (sample_measurement src cls n i) = n" "rm_measurement_id (sample_measurement src cls n i) = i"
  "rm_resource_id (sample_measurement src cls n i) = sample_id" "rm_source (sample_measurement src cls n i) = src"
  "rm_source_class (sample_measurement src cls n i) = cls"
  "measurement_key (sample_measurement src cls n i) = (sample_id, src, ''probe'', '''')"
  "measurement_fresh (sample_measurement src cls n i) now \<longleftrightarrow> 63839664000000000 \<le> now \<and> now \<le> 63844848000000000"
  "measurement_admitted (rs_resources sample_registered) (sample_measurement src cls n i)"
  by (simp_all add: sample_measurement_def sample_id_def measurement_key_def measurement_dimension_def
      measurement_fresh_def within_def sample_times)
    (simp add: measurement_admitted_def sample_registered_def validate_measurement_value_for_kind_def storage_bytes
      sample_resource_fields sample_id_def)

text \<open>
  C38: The store converges: delivering the same offers and measurements in any
  interleaving and with any repetition, the refused ones included, gives the same answer
  to every query of the live state.
\<close>

theorem store_converges:
  assumes "set es = set es'"
    and "inj_on of_offer_id {f. Inl f \<in> set es}" "inj_on rm_measurement_id {x. Inr x \<in> set es}"
    and "\<forall>f. Inl f \<in> set es \<longrightarrow> 1 \<le> of_sequence f" "\<forall>x. Inr x \<in> set es \<longrightarrow> 1 \<le> rm_sequence x"
  shows "current_offer (ingest_all rs es) rid now = current_offer (ingest_all rs es') rid now \<and>
    get_historical_offers (ingest_all rs es) rid False = get_historical_offers (ingest_all rs es') rid False \<and>
    get_current_measurement (ingest_all rs es) rid now = get_current_measurement (ingest_all rs es') rid now \<and>
    get_measurements (ingest_all rs es) rid False = get_measurements (ingest_all rs es') rid False \<and>
    get_authoritative_measurements (ingest_all rs es) rid now = get_authoritative_measurements (ingest_all rs es') rid now \<and>
    store_conflicts (ingest_all rs es) = store_conflicts (ingest_all rs es')"
proof -
  note view = ingest_live_view [OF assms, where rs = rs]
  have pos: "\<forall>f. Inl f \<in> set es' \<longrightarrow> 1 \<le> of_sequence f" "\<forall>x. Inr x \<in> set es' \<longrightarrow> 1 \<le> rm_sequence x"
    using assms(1,4,5) by simp_all
  note filed = ingest_all_filed [OF assms(4,5), where rs = rs] and filed' = ingest_all_filed [OF pos, where rs = rs]
  have inj: "inj_on of_offer_id {f. Inl f \<in> set es \<and> offer_admitted rs f}"
    "inj_on rm_measurement_id {x. Inr x \<in> set es \<and> measurement_admitted rs x}"
    using assms(2,3) by (auto intro: inj_on_subset)
  have "get_historical_offers (ingest_all rs es) rid False = get_historical_offers (ingest_all rs es') rid False"
    using get_historical_offers_alt [OF inj(1) filed(1,2)] get_historical_offers_alt [OF inj(1) filed'(1,2) [folded assms(1)]]
    by (simp only: view)
  moreover have "get_measurements (ingest_all rs es) rid False = get_measurements (ingest_all rs es') rid False"
    using get_measurements_alt [OF inj(2) filed(3,4)] get_measurements_alt [OF inj(2) filed'(3,4) [folded assms(1)]]
    by (simp only: view)
  ultimately show ?thesis
    unfolding current_offer_def get_current_measurement_def get_authoritative_measurements_def store_conflicts_alt
      require_resource_def ingest_all_resources view by simp
qed

theorem store_converges_witness:
  "current_offer (ingest_all (rs_resources sample_registered)
      [Inl (sample_offer 9 1 ''o1''), Inr (sample_measurement (sample_node CHR ''b'') ''remote-relay'' 1 ''m''),
       Inl (sample_offer 20 2 ''o2'')]) sample_id 63839664000000000 =
   current_offer (ingest_all (rs_resources sample_registered)
      [Inl (sample_offer 20 2 ''o2''), Inl (sample_offer 9 1 ''o1''), Inl (sample_offer 9 1 ''o1''),
       Inr (sample_measurement (sample_node CHR ''b'') ''remote-relay'' 1 ''m'')]) sample_id 63839664000000000"
proof -
  let ?o = "sample_offer 9 1 ''o1''" and ?p = "sample_offer 20 2 ''o2''"
    and ?m = "sample_measurement (sample_node CHR ''b'') ''remote-relay'' 1 ''m''"
  have e: "set [Inl ?o, Inr ?m, Inl ?p] = set [Inl ?p, Inl ?o, Inl ?o, Inr ?m]" by auto
  have o: "inj_on of_offer_id {f. Inl f \<in> set [Inl ?o, Inr ?m, Inl ?p]}" by (auto simp: inj_on_def)
  have m: "inj_on rm_measurement_id {x. Inr x \<in> set [Inl ?o, Inr ?m, Inl ?p]}" by (auto simp: inj_on_def)
  have p: "\<forall>f. Inl f \<in> set [Inl ?o, Inr ?m, Inl ?p] \<longrightarrow> 1 \<le> of_sequence f" by auto
  have q: "\<forall>x. Inr x \<in> set [Inl ?o, Inr ?m, Inl ?p] \<longrightarrow> 1 \<le> rm_sequence x" by auto
  from store_converges [OF e o m p q] show ?thesis by (rule conjunct1)
qed

text \<open>
  A relayed measurement never becomes authoritative: the authoritative measurements of
  a resource are fresh self-observations by its registered owner, whatever was delivered.
\<close>

theorem authoritative_measurements_are_own:
  assumes "\<forall>f. Inl f \<in> set es \<longrightarrow> 1 \<le> of_sequence f" "\<forall>x. Inr x \<in> set es \<longrightarrow> 1 \<le> rm_sequence x"
    and "get_authoritative_measurements (ingest_all rs es) rid now = Inr xs" "x \<in> set xs"
  shows "\<exists>r. dget rs rid = Some r \<and> Inr x \<in> set es \<and> rm_resource_id x = rid \<and> rm_source x = r_owner_node_id r \<and>
    rm_source_class x = ''self-observation'' \<and> measurement_fresh x now"
  using assms by (rule authoritative_own)

theorem authoritative_measurements_are_own_witness:
  "measurement_fresh (sample_measurement (sample_node CHR ''a'') ''self-observation'' 1 ''m'') 63839664000000000"
proof -
  let ?m = "sample_measurement (sample_node CHR ''a'') ''self-observation'' 1 ''m''"
  have adm: "measurement_admitted (rs_resources sample_registered) ?m" by simp
  have "get_authoritative_measurements (ingest_all (rs_resources sample_registered) [Inr ?m]) sample_id 63839664000000000
      = Inr [?m]"
    using adm
    by (simp add: ingest_all_def ingest_simps registry_def empty_store_def merge_measurement_def Let_def
        get_authoritative_measurements_def require_resource_def of_resource_def is_self_observation_def
        sample_registered_def sample_resource_fields)
  moreover have "\<forall>f. Inl f \<in> set [Inr ?m] \<longrightarrow> 1 \<le> of_sequence f" "\<forall>x. Inr x \<in> set [Inr ?m] \<longrightarrow> 1 \<le> rm_sequence x"
    by simp_all
  ultimately show ?thesis using authoritative_measurements_are_own [of "[Inr ?m]"] by fastforce
qed

end
