(* ===== verification/Policy_Model.thy ===== *)
theory Policy_Model
  imports Temporal Text_Guards
begin

text \<open>
  \<open>policy/model.py\<close>: the frozen vocabularies, conditions, rules, policy sets, evaluation
  contexts and decisions with the checks of their constructors and their documents.
  Fields have their annotated types; the checks of \<open>isinstance\<close> are the types.
\<close>

section \<open>Vocabularies\<close>

datatype policy_error = PolicyError string

definition effect_values :: "string list" where
  "effect_values = [''allow'', ''deny'', ''require-review'']"

definition decision_codes :: "string list" where
  "decision_codes = [''allow'', ''deny'', ''default-deny'', ''fail-closed'', ''policy-expired'',
     ''policy-not-yet-valid'', ''missing-fact'', ''unsupported-predicate'', ''conflict'', ''invalid-subject'',
     ''invalid-policy'']"

definition policy_domains :: "string list" where
  "policy_domains = [''identity'', ''resource'', ''locality'', ''federation'', ''privacy'', ''emergency'',
     ''service'', ''energy'', ''trust'']"

definition policy_operations :: "string list" where
  "policy_operations = [''resource.reserve'', ''resource.consume'', ''resource.release'', ''session.create'',
     ''session.modify'', ''session.terminate'', ''federation.join'', ''federation.accept-peer'',
     ''federation.resource-export'', ''federation.resource-import'', ''service.invoke'',
     ''privacy.requirement-override'', ''emergency.preempt'', ''telemetry.topology-promote'',
     ''management.role-assign'']"

definition is_privileged :: "string \<Rightarrow> bool" where
  "is_privileged operation \<longleftrightarrow> operation \<in> set
     [''resource.reserve'', ''resource.consume'', ''resource.release'', ''session.create'',
      ''session.modify'', ''session.terminate'', ''federation.join'', ''federation.accept-peer'',
      ''federation.resource-export'', ''federation.resource-import'', ''service.invoke'',
      ''privacy.requirement-override'', ''emergency.preempt'', ''telemetry.topology-promote'',
      ''management.role-assign'']"

definition predicate_kinds :: "string list" where
  "predicate_kinds = [''subject-equals'', ''credential-active'', ''resource-owner'', ''resource-kind'',
     ''locality-equals'', ''federation-domain'', ''privacy-required'', ''emergency-true'', ''service-class'',
     ''energy-reserve-gte'', ''trust-min-class'', ''capability-required'', ''topology-evidence-present'',
     ''intent-present'']"

definition MAX_PRIORITY :: int where
  "MAX_PRIORITY = 1000000"

definition MAX_SPECIFICITY :: int where
  "MAX_SPECIFICITY = 1000000"

definition is_valid_content_digest :: "string \<Rightarrow> bool" where
  \<comment> \<open>\<open>re.match\<close> with \<open>^[0-9a-f]{64}$\<close>: \<open>$\<close> also matches before a final line feed\<close>
  "is_valid_content_digest v \<longleftrightarrow> digest_ok v \<or> v \<noteq> '''' \<and> last v = CHR 0x0A \<and> digest_ok (butlast v)"

section \<open>Conditions and rules\<close>

record condition =
  cd_predicate :: string
  cd_arguments :: "(string, string jval) dict"

definition make_condition :: "condition \<Rightarrow> policy_error + condition" where
  "make_condition c =
     bindE (guardE (cd_predicate c = '''') (PolicyError ''predicate'')) (\<lambda>_.
     bindE (guardE (cd_predicate c \<notin> set predicate_kinds) (PolicyError ''predicate'')) (\<lambda>_. Inr c))"

definition condition_to_dict :: "condition \<Rightarrow> string jval" where
  "condition_to_dict c = JObj
     ((''predicate'', JStr (cd_predicate c)) #
      (if cd_arguments c = [] then [] else [(''arguments'', JObj (cd_arguments c))]))"

record policy_rule =
  pr_rule_id :: string
  pr_domain :: string
  pr_effect :: string
  pr_operation :: string
  pr_subjects :: "string list"
  pr_conditions :: "condition list"
  pr_priority :: int
  pr_specificity :: int
  pr_valid_from :: string
  pr_valid_until :: string
  pr_provenance :: string
  pr_version :: int
  pr_extensions :: "string jval list"

definition make_rule :: "policy_rule \<Rightarrow> policy_error + policy_rule" where
  "make_rule r =
     bindE (guardE (pr_rule_id r = '''') (PolicyError ''rule-id'')) (\<lambda>_.
     bindE (guardE (pr_domain r \<notin> set policy_domains) (PolicyError ''domain'')) (\<lambda>_.
     bindE (guardE (pr_effect r \<notin> set effect_values) (PolicyError ''effect'')) (\<lambda>_.
     bindE (guardE (pr_operation r \<notin> set policy_operations) (PolicyError ''operation'')) (\<lambda>_.
     bindE (guardE (pr_priority r < 0 \<or> MAX_PRIORITY < pr_priority r) (PolicyError ''priority'')) (\<lambda>_.
     bindE (guardE (pr_specificity r < 0 \<or> MAX_SPECIFICITY < pr_specificity r) (PolicyError ''specificity'')) (\<lambda>_.
     bindE (guardE (pr_version r < 0) (PolicyError ''version'')) (\<lambda>_.
     bindE (guardE (\<not> list_all is_mapping (pr_extensions r)) (PolicyError ''extensions'')) (\<lambda>_. Inr r))))))))"

definition text_member :: "string \<Rightarrow> string \<Rightarrow> (string, string jval) dict" where
  \<comment> \<open>\<open>if value: out[key] = value\<close>\<close>
  "text_member k s = (if s = '''' then [] else [(k, JStr s)])"

definition texts_member :: "string \<Rightarrow> string list \<Rightarrow> (string, string jval) dict" where
  "texts_member k ss = (if ss = [] then [] else [(k, texts_doc ss)])"

definition rule_to_dict :: "policy_rule \<Rightarrow> string jval" where
  "rule_to_dict r = JObj
     ([(''rule_id'', JStr (pr_rule_id r)), (''domain'', JStr (pr_domain r)), (''effect'', JStr (pr_effect r)),
       (''operation'', JStr (pr_operation r))]
      @ texts_member ''subjects'' (pr_subjects r)
      @ (if pr_conditions r = [] then [] else [(''conditions'', JArr (map condition_to_dict (pr_conditions r)))])
      @ (if pr_priority r = 0 then [] else [(''priority'', JInt (pr_priority r))])
      @ (if pr_specificity r = 0 then [] else [(''specificity'', JInt (pr_specificity r))])
      @ text_member ''valid_from'' (pr_valid_from r) @ text_member ''valid_until'' (pr_valid_until r)
      @ text_member ''provenance'' (pr_provenance r)
      @ (if pr_version r = 0 then [] else [(''version'', JInt (pr_version r))])
      @ (if pr_extensions r = [] then [] else [(''extensions'', JArr (pr_extensions r))]))"

section \<open>Policy sets\<close>

record policy_set =
  ps_set_id :: string
  ps_version :: int
  ps_rules :: "policy_rule list"
  ps_issuer_node_id :: string
  ps_valid_from :: string
  ps_valid_until :: string
  ps_default_effect :: string
  ps_domain_precedence :: "string list"
  ps_extensions :: "string jval list"

definition make_policy_set :: "policy_set \<Rightarrow> policy_error + policy_set" where
  "make_policy_set p =
     bindE (guardE (ps_set_id p = '''') (PolicyError ''set-id'')) (\<lambda>_.
     bindE (guardE (ps_version p < 0) (PolicyError ''version'')) (\<lambda>_.
     bindE (guardE (ps_issuer_node_id p = '''') (PolicyError ''issuer'')) (\<lambda>_.
     bindE (guardE (ps_default_effect p \<notin> {''allow'', ''deny''}) (PolicyError ''default-effect'')) (\<lambda>_.
     bindE (guardE (\<not> set (ps_domain_precedence p) \<subseteq> set policy_domains) (PolicyError ''domain-precedence'')) (\<lambda>_.
     bindE (guardE (\<not> distinct (ps_domain_precedence p)) (PolicyError ''domain-precedence'')) (\<lambda>_.
     bindE (guardE (\<not> list_all is_mapping (ps_extensions p)) (PolicyError ''extensions'')) (\<lambda>_. Inr p)))))))"

definition set_to_dict :: "policy_set \<Rightarrow> string jval" where
  "set_to_dict p = JObj
     ([(''set_id'', JStr (ps_set_id p)), (''version'', JInt (ps_version p))]
      @ text_member ''issuer_node_id'' (ps_issuer_node_id p)
      @ text_member ''valid_from'' (ps_valid_from p) @ text_member ''valid_until'' (ps_valid_until p)
      @ [(''default_effect'', JStr (ps_default_effect p))]
      @ texts_member ''domain_precedence'' (ps_domain_precedence p)
      @ [(''rules'', JArr (map rule_to_dict (ps_rules p)))]
      @ (if ps_extensions p = [] then [] else [(''extensions'', JArr (ps_extensions p))]))"

definition set_canonical_bytes :: "policy_set \<Rightarrow> policy_error + bytes" where
  "set_canonical_bytes p =
     (case canonical_bytes (set_to_dict p) of Inl _ \<Rightarrow> Inl (PolicyError ''canonical'') | Inr b \<Rightarrow> Inr b)"

section \<open>Evaluation contexts\<close>

record policy_context =
  pc_operation :: string
  pc_requester :: string
  pc_credential_active :: "bool option"
  pc_intent_digest :: string
  pc_resource_refs :: "string list"
  pc_resource_owner :: string
  pc_resource_kind :: string
  pc_topology_evidence_refs :: "string list"
  pc_locality_labels :: "string list"
  pc_federation_domain :: string
  pc_privacy_requirements :: "string list"
  pc_emergency :: bool
  pc_service_class :: string
  pc_energy_current :: "int option"
  pc_energy_threshold :: "int option"
  pc_capability_refs :: "string list"
  pc_trust_assertions :: "(string \<times> string) list"
  pc_evaluation_instant :: string
  pc_extensions :: "string jval list"

definition energy_ok :: "int option \<Rightarrow> bool" where
  "energy_ok v = (case v of None \<Rightarrow> True | Some e \<Rightarrow> 0 \<le> e)"

definition make_policy_context :: "policy_context \<Rightarrow> policy_error + policy_context" where
  "make_policy_context c =
     bindE (guardE (pc_operation c \<notin> set policy_operations) (PolicyError ''operation'')) (\<lambda>_.
     bindE (guardE (pc_intent_digest c \<noteq> '''' \<and> \<not> is_valid_content_digest (pc_intent_digest c))
              (PolicyError ''intent-digest'')) (\<lambda>_.
     bindE (guardE (\<not> energy_ok (pc_energy_current c)) (PolicyError ''energy'')) (\<lambda>_.
     bindE (guardE (\<not> energy_ok (pc_energy_threshold c)) (PolicyError ''energy'')) (\<lambda>_.
     bindE (guardE (\<not> list_all is_mapping (pc_extensions c)) (PolicyError ''extensions'')) (\<lambda>_. Inr c)))))"

section \<open>Decisions\<close>

record policy_decision =
  pd_decision_id :: string
  pd_effect :: string
  pd_code :: string
  pd_detail :: string
  pd_matched_rule_ids :: "string list"
  pd_policy_set_id :: string
  pd_policy_set_version :: int
  pd_evaluation_instant :: string
  pd_conflict_trace :: "string list"
  pd_extensions :: "string jval list"

definition policy_content :: "policy_decision \<Rightarrow> string jval" where
  \<comment> \<open>\<open>PolicyDecision.content_dict\<close>\<close>
  "policy_content d = JObj
     ([(''effect'', JStr (pd_effect d)), (''code'', JStr (pd_code d)),
       (''policy_set_id'', JStr (pd_policy_set_id d)), (''policy_set_version'', JInt (pd_policy_set_version d))]
      @ (if pd_evaluation_instant d = '''' then [] else [(''evaluation_instant'', JStr (pd_evaluation_instant d))])
      @ (if pd_matched_rule_ids d = [] then [] else [(''matched_rule_ids'', texts_doc (pd_matched_rule_ids d))])
      @ (if pd_conflict_trace d = [] then [] else [(''conflict_trace'', texts_doc (pd_conflict_trace d))])
      @ (if pd_detail d = '''' then [] else [(''detail'', JStr (pd_detail d))])
      @ (if pd_extensions d = [] then [] else [(''extensions'', JArr (pd_extensions d))]))"

definition make_policy_decision :: "policy_decision \<Rightarrow> policy_error + policy_decision" where
  "make_policy_decision d =
     bindE (guardE (pd_decision_id d = '''') (PolicyError ''decision-id'')) (\<lambda>_.
     bindE (guardE (pd_effect d \<notin> {''allow'', ''deny''}) (PolicyError ''effect'')) (\<lambda>_.
     bindE (guardE (pd_code d \<notin> set decision_codes) (PolicyError ''code'')) (\<lambda>_.
     bindE (guardE (pd_policy_set_id d = '''') (PolicyError ''policy-set-id'')) (\<lambda>_.
     bindE (guardE (pd_policy_set_version d < 0) (PolicyError ''policy-set-version'')) (\<lambda>_.
     bindE (guardE (\<not> list_all is_mapping (pd_extensions d)) (PolicyError ''extensions'')) (\<lambda>_. Inr d))))))"

record policy_result =
  pe_ok :: bool
  pe_code :: string
  pe_decision :: "policy_decision option"

end
