(* ===== verification/Routing_Model.thy ===== *)
theory Routing_Model
  imports Topology Resource_Store Policy_Model
begin

text \<open>
  \<open>routing/model.py\<close>: link facts, their aggregation along a path, paths with their
  content-derived ids, the evaluation context and the decision.  Values the engine only
  reads from the intent and policy packages (\<open>Constraint\<close>, \<open>NormalizedIntent\<close>,
  \<open>PolicyDecision\<close>) are records of the fields it uses.  Free-text diagnostics of single
  candidates are left out; the detail of a decision is part of its id and is modelled.
\<close>

section \<open>Errors and reason codes\<close>

datatype routing_error =
    RoutingError string
  | EscapedTopologyError link_error
  | EscapedResourceError resource_error
  | EscapedCanonicalizationError canon_error
  | EscapedPolicyError string
  | PyZeroDivisionError \<comment> \<open>all but the first are not caught by \<open>evaluate\<close>\<close>

definition failure_codes :: "string list" where
  "failure_codes = [''invalid-input'', ''invalid-node'', ''inconsistent-snapshot'', ''policy-denied'',
     ''no-feasible-path'', ''hard-constraint-unsatisfied'', ''resource-unavailable'', ''topology-disconnected'',
     ''stale-input'', ''expired-path'', ''unsupported-constraint'', ''conflicting-input'']"

definition route_codes :: "string list" where
  "route_codes = ''selected'' # failure_codes"

definition candidate_rejection_codes :: "string list" where
  "candidate_rejection_codes = [''hard-constraint-unsatisfied'', ''resource-unavailable'', ''stale-input'']"

definition MAX_BASIS_POINTS :: int where
  "MAX_BASIS_POINTS = 10000"

definition require_int :: "int \<Rightarrow> int \<Rightarrow> int option \<Rightarrow> routing_error + unit" where
  "require_int v lo hi =
     guardE (v < lo \<or> (case hi of None \<Rightarrow> False | Some h \<Rightarrow> h < v)) (RoutingError ''invalid-input'')"

definition require_bp :: "int \<Rightarrow> routing_error + unit" where
  "require_bp v = require_int v 0 (Some MAX_BASIS_POINTS)"

section \<open>Link facts\<close>

record link_metrics =
  lm_latency_ms :: int
  lm_loss_basis_points :: int
  lm_capacity_bps :: int
  lm_energy_cost :: int
  lm_confidence :: int
  lm_observed_at :: string
  lm_freshness_until :: string
  lm_monetary :: "int option"
  lm_properties :: "string list"
  lm_evidence_refs :: "string list"
  lm_provenance :: string

definition check_optional_cost :: "int option \<Rightarrow> routing_error + unit" where
  "check_optional_cost c = (case c of None \<Rightarrow> Inr () | Some v \<Rightarrow> require_int v 0 None)"

definition make_link_metrics :: "link_metrics \<Rightarrow> routing_error + link_metrics" where
  \<comment> \<open>\<open>__post_init__\<close> on fields of the annotated types; its canonicalisation cannot fail\<close>
  "make_link_metrics m =
     bindE (require_int (lm_latency_ms m) 0 None) (\<lambda>_.
     bindE (require_bp (lm_loss_basis_points m)) (\<lambda>_.
     bindE (require_int (lm_capacity_bps m) 0 None) (\<lambda>_.
     bindE (require_int (lm_energy_cost m) 0 None) (\<lambda>_.
     bindE (require_bp (lm_confidence m)) (\<lambda>_.
     bindE (check_optional_cost (lm_monetary m)) (\<lambda>_.
     bindE (guardE ('''' \<in> set (lm_properties m)) (RoutingError ''invalid-input'')) (\<lambda>_.
     bindE (guardE (\<not> distinct (lm_properties m)) (RoutingError ''invalid-input'')) (\<lambda>_.
     bindE (guardE ('''' \<in> set (lm_evidence_refs m)) (RoutingError ''invalid-input'')) (\<lambda>_.
       case (parse_instant (lm_observed_at m), parse_instant (lm_freshness_until m)) of
         (Some observed, Some fresh) \<Rightarrow>
           if fresh < observed then Inl (RoutingError ''invalid-input'') else Inr m
       | _ \<Rightarrow> Inl (RoutingError ''invalid-input''))))))))))"

definition link_fresh_at :: "link_metrics \<Rightarrow> int \<Rightarrow> bool" where
  "link_fresh_at m now = within (lm_observed_at m) (lm_freshness_until m) now"

definition link_metrics_to_dict :: "link_metrics \<Rightarrow> string jval" where
  "link_metrics_to_dict m = JObj
     ([(''latency_ms'', JInt (lm_latency_ms m)),
       (''loss_basis_points'', JInt (lm_loss_basis_points m)),
       (''capacity_bps'', JInt (lm_capacity_bps m)),
       (''energy_cost_millijoules'', JInt (lm_energy_cost m)),
       (''confidence_basis_points'', JInt (lm_confidence m)),
       (''observed_at'', JStr (lm_observed_at m)),
       (''freshness_until'', JStr (lm_freshness_until m))]
      @ (case lm_monetary m of None \<Rightarrow> [] | Some c \<Rightarrow> [(''monetary_cost_units'', JInt c)])
      @ (if lm_properties m = [] then [] else [(''properties'', texts_doc (lm_properties m))])
      @ (if lm_evidence_refs m = [] then [] else [(''evidence_refs'', texts_doc (lm_evidence_refs m))])
      @ (if lm_provenance m = '''' then [] else [(''provenance'', JStr (lm_provenance m))]))"

section \<open>Path metrics\<close>

record route_metrics =
  me_hop_count :: int
  me_latency_ms :: int
  me_reliability :: int
  me_capacity_bps :: int
  me_energy_cost :: int
  me_confidence :: int
  me_expires_at :: string
  me_monetary :: "int option"

definition make_route_metrics :: "route_metrics \<Rightarrow> routing_error + route_metrics" where
  "make_route_metrics m =
     bindE (require_int (me_hop_count m) 1 None) (\<lambda>_.
     bindE (require_int (me_latency_ms m) 0 None) (\<lambda>_.
     bindE (require_bp (me_reliability m)) (\<lambda>_.
     bindE (require_int (me_capacity_bps m) 0 None) (\<lambda>_.
     bindE (require_int (me_energy_cost m) 0 None) (\<lambda>_.
     bindE (require_bp (me_confidence m)) (\<lambda>_.
     bindE (check_optional_cost (me_monetary m)) (\<lambda>_.
       if parse_instant (me_expires_at m) = None then Inl (RoutingError ''invalid-input'') else Inr m)))))))"

definition min_list_by :: "('a \<Rightarrow> 'b :: linorder) \<Rightarrow> 'a list \<Rightarrow> 'b" where
  \<comment> \<open>\<open>min(f(x) for x in xs)\<close> of a non-empty list\<close>
  "min_list_by f xs = (case xs of x # ys \<Rightarrow> foldl (\<lambda>m y. min m (f y)) (f x) ys)"

definition aggregate_link_metrics :: "link_metrics list \<Rightarrow> routing_error + route_metrics" where
  "aggregate_link_metrics links =
     (if links = [] then Inl (RoutingError ''invalid-input'')
      else make_route_metrics
        \<lparr>me_hop_count = int (length links),
         me_latency_ms = sum_list (map lm_latency_ms links),
         me_reliability = min_list_by (\<lambda>l. MAX_BASIS_POINTS - lm_loss_basis_points l) links,
         me_capacity_bps = min_list_by lm_capacity_bps links,
         me_energy_cost = sum_list (map lm_energy_cost links),
         me_confidence = min_list_by lm_confidence links,
         me_expires_at = min_list_by lm_freshness_until links,
         me_monetary =
           (if None \<in> set (map lm_monetary links) then None else Some (sum_list (map (the \<circ> lm_monetary) links)))\<rparr>)"

section \<open>Paths\<close>

record route_path =
  pa_path_id :: string
  pa_source :: string
  pa_destination :: string
  pa_hops :: "string list"
  pa_nodes :: "string list"
  pa_metrics :: route_metrics
  pa_feasible :: bool
  pa_rejection_code :: string
  pa_unmet :: "string list"
  pa_policy_eligible :: bool
  pa_policy_decision_id :: string
  pa_utility :: int
  pa_evidence_refs :: "string list"

definition path_document :: "string \<Rightarrow> string \<Rightarrow> string list \<Rightarrow> string list \<Rightarrow> string jval" where
  "path_document src dst hops nodes = JObj
     [(''source_node_id'', JStr src), (''destination_node_id'', JStr dst), (''hops'', texts_doc hops),
      (''nodes'', texts_doc nodes)]"

definition derive_path_id ::
    "(bytes \<Rightarrow> string) \<Rightarrow> string \<Rightarrow> string \<Rightarrow> string list \<Rightarrow> string list \<Rightarrow> routing_error + string" where
  "derive_path_id sha256_hex src dst hops nodes =
     (case canonical_bytes (path_document src dst hops nodes) of
        Inl _ \<Rightarrow> Inl (RoutingError ''path-id'') | Inr b \<Rightarrow> Inr (''sha256:'' @ sha256_hex b))"

definition make_path :: "(bytes \<Rightarrow> string) \<Rightarrow> route_path \<Rightarrow> routing_error + route_path" where
  \<comment> \<open>\<open>Path.__post_init__\<close>; every path built by the engine, also through \<open>replace\<close>, passes it\<close>
  "make_path sha256_hex p =
     bindE (guardE (pa_path_id p = '''') (RoutingError ''path-id'')) (\<lambda>_.
     bindE (guardE (pa_hops p = []) (RoutingError ''hops'')) (\<lambda>_.
     bindE (guardE (length (pa_nodes p) \<noteq> length (pa_hops p) + 1) (RoutingError ''nodes'')) (\<lambda>_.
     bindE (derive_path_id sha256_hex (pa_source p) (pa_destination p) (pa_hops p) (pa_nodes p)) (\<lambda>expected.
     bindE (guardE (pa_path_id p \<noteq> expected) (RoutingError ''path-id'')) (\<lambda>_.
     bindE (guardE (pa_feasible p \<and> pa_rejection_code p \<noteq> '''') (RoutingError ''verdict'')) (\<lambda>_.
     bindE (guardE (\<not> pa_feasible p \<and> pa_rejection_code p \<notin> set candidate_rejection_codes) (RoutingError ''verdict'')) (\<lambda>_.
     bindE (guardE ('''' \<in> set (pa_unmet p)) (RoutingError ''unmet-constraints'')) (\<lambda>_. Inr p))))))))"

section \<open>The evaluation context\<close>

record intent_constraint =
  ic_constraint_id :: string
  ic_dimension :: string
  ic_operator :: string
  ic_value :: "string jval"
  ic_hardness :: string
  ic_weight :: int

record normalized_intent =
  in_digest :: string
  in_issued_at :: string
  in_expires_at :: string
  in_constraints :: "intent_constraint list"

record routing_context =
  rc_source :: string
  rc_destination :: string
  rc_topology :: topology_graph
  rc_resources :: resource_store
  rc_instant :: string
  rc_intent :: "normalized_intent option"
  rc_policy :: "policy_decision option"
  rc_link_metrics :: "(string, link_metrics) dict"
  rc_link_resources :: "(string, string list) dict"
  rc_node_labels :: "(string, string list) dict"
  rc_expected_topology :: string
  rc_expected_resource :: string
  rc_expected_intent :: string
  rc_expected_policy_set :: string
  rc_expected_policy_version :: int
  rc_max_hops :: int
  rc_max_candidates :: int
  rc_min_confidence :: int
  rc_rank_by_confidence :: bool
  rc_extensions :: "string jval list"

definition bool_all_in :: "(string, string list) dict \<Rightarrow> bool" where
  \<comment> \<open>the keys and entries of a mapping to tuples are non-empty texts\<close>
  "bool_all_in d \<longleftrightarrow> (\<forall>kv \<in> set d. fst kv \<noteq> '''' \<and> '''' \<notin> set (snd kv))"

definition make_context :: "routing_context \<Rightarrow> routing_error + routing_context" where
  \<comment> \<open>\<open>RoutingContext.__post_init__\<close> on fields of the annotated types\<close>
  "make_context c =
     bindE (guardE (\<not> node_ok (rc_source c)) (RoutingError ''invalid-node'')) (\<lambda>_.
     bindE (guardE (\<not> node_ok (rc_destination c)) (RoutingError ''invalid-node'')) (\<lambda>_.
     bindE (guardE (parse_instant (rc_instant c) = None) (RoutingError ''invalid-input'')) (\<lambda>_.
     bindE (guardE ('''' \<in> fst ` set (rc_link_metrics c)) (RoutingError ''invalid-input'')) (\<lambda>_.
     bindE (guardE (\<not> bool_all_in (rc_link_resources c)) (RoutingError ''invalid-input'')) (\<lambda>_.
     bindE (mapE (\<lambda>kv.
              if fst kv = '''' then Inl (RoutingError ''invalid-input'')
              else if \<not> node_ok (fst kv) then Inl (RoutingError ''invalid-node'')
              else guardE ('''' \<in> set (snd kv)) (RoutingError ''invalid-input'')) (rc_node_labels c)) (\<lambda>_.
     bindE (require_int (rc_expected_policy_version c) (-1) None) (\<lambda>_.
     bindE (require_int (rc_max_hops c) 1 (Some 64)) (\<lambda>_.
     bindE (require_int (rc_max_candidates c) 1 (Some 1024)) (\<lambda>_.
     bindE (require_bp (rc_min_confidence c)) (\<lambda>_.
     bindE (guardE (\<not> list_all is_mapping (rc_extensions c)) (RoutingError ''invalid-input'')) (\<lambda>_. Inr c)))))))))))"

definition escape_canon :: "canon_error + bytes \<Rightarrow> routing_error + bytes" where
  "escape_canon m = (case m of Inl e \<Rightarrow> Inl (EscapedCanonicalizationError e) | Inr b \<Rightarrow> Inr b)"

definition intent_digest_of :: "routing_context \<Rightarrow> string" where
  "intent_digest_of c = (case rc_intent c of None \<Rightarrow> '''' | Some i \<Rightarrow> in_digest i)"

definition policy_id_of :: "routing_context \<Rightarrow> string" where
  "policy_id_of c = (case rc_policy c of None \<Rightarrow> '''' | Some d \<Rightarrow> pd_decision_id d)"

definition topology_digest :: "(bytes \<Rightarrow> string) \<Rightarrow> routing_context \<Rightarrow> routing_error + string" where
  "topology_digest sha256_hex c = bindE (escape_canon (graph_canonical_bytes (rc_topology c))) (\<lambda>b. Inr (sha256_hex b))"

definition resource_digest :: "(bytes \<Rightarrow> string) \<Rightarrow> routing_context \<Rightarrow> routing_error + string" where
  "resource_digest sha256_hex c = bindE (escape_canon (store_canonical_bytes (rc_resources c))) (\<lambda>b. Inr (sha256_hex b))"

definition context_content :: "(bytes \<Rightarrow> string) \<Rightarrow> routing_context \<Rightarrow> routing_error + string jval" where
  \<comment> \<open>\<open>RoutingContext.content_dict\<close>\<close>
  "context_content sha256_hex c =
     bindE (topology_digest sha256_hex c) (\<lambda>td.
     bindE (resource_digest sha256_hex c) (\<lambda>rd.
       Inr (JObj
         [(''source_node_id'', JStr (rc_source c)), (''destination_node_id'', JStr (rc_destination c)),
          (''topology_digest'', JStr td), (''resource_digest'', JStr rd),
          (''evaluation_instant'', JStr (rc_instant c)), (''intent_digest'', JStr (intent_digest_of c)),
          (''policy_decision_id'', JStr (policy_id_of c)),
          (''link_metrics'', JObj (map (\<lambda>kv. (fst kv, link_metrics_to_dict (snd kv))) (sort_key fst (rc_link_metrics c)))),
          (''link_resources'', JObj (map (\<lambda>kv. (fst kv, texts_doc (snd kv))) (sort_key fst (rc_link_resources c)))),
          (''node_labels'', JObj (map (\<lambda>kv. (fst kv, texts_doc (snd kv))) (sort_key fst (rc_node_labels c)))),
          (''max_hops'', JInt (rc_max_hops c)), (''max_candidates'', JInt (rc_max_candidates c)),
          (''min_confidence_basis_points'', JInt (rc_min_confidence c)),
          (''rank_by_confidence'', JBool (rc_rank_by_confidence c)),
          (''expected_topology_digest'', JStr (rc_expected_topology c)),
          (''expected_resource_digest'', JStr (rc_expected_resource c)),
          (''expected_intent_digest'', JStr (rc_expected_intent c)),
          (''expected_policy_set_id'', JStr (rc_expected_policy_set c)),
          (''expected_policy_set_version'', JInt (rc_expected_policy_version c))])))"

definition routing_input_digest :: "(bytes \<Rightarrow> string) \<Rightarrow> routing_context \<Rightarrow> routing_error + string" where
  "routing_input_digest sha256_hex c =
     bindE (context_content sha256_hex c) (\<lambda>doc.
       case canonical_bytes doc of
         Inl _ \<Rightarrow> Inl (RoutingError ''invalid-input'') | Inr b \<Rightarrow> Inr (sha256_hex b))"

section \<open>Decisions\<close>

record route_decision =
  rd_decision_id :: string
  rd_code :: string
  rd_detail :: string
  rd_selected :: "route_path option"
  rd_alternates :: "route_path list"
  rd_rejected :: "route_path list"
  rd_candidates_considered :: int
  rd_policy_decision_id :: string
  rd_computation_instant :: string
  rd_input_digests :: "(string \<times> string) list"
  rd_extensions :: "string jval list"

definition decision_content :: "route_decision \<Rightarrow> string jval" where
  \<comment> \<open>\<open>RouteDecision.content_dict\<close>\<close>
  "decision_content d = JObj
     ([(''code'', JStr (rd_code d)), (''candidates_considered'', JInt (rd_candidates_considered d)),
       (''computation_instant'', JStr (rd_computation_instant d)),
       (''input_digests'', pairs_doc (rd_input_digests d))]
      @ (if rd_policy_decision_id d = '''' then [] else [(''policy_decision_id'', JStr (rd_policy_decision_id d))])
      @ (case rd_selected d of None \<Rightarrow> [] | Some p \<Rightarrow> [(''selected_path_id'', JStr (pa_path_id p))])
      @ (if rd_alternates d = [] then [] else [(''alternate_path_ids'', texts_doc (map pa_path_id (rd_alternates d)))])
      @ (if rd_rejected d = [] then []
         else [(''rejected'', JArr (map (\<lambda>p. JObj [(''path_id'', JStr (pa_path_id p)), (''code'', JStr (pa_rejection_code p))])
                 (rd_rejected d)))])
      @ (if rd_detail d = '''' then [] else [(''detail'', JStr (rd_detail d))])
      @ (if rd_extensions d = [] then [] else [(''extensions'', JArr (rd_extensions d))]))"

definition make_decision :: "route_decision \<Rightarrow> routing_error + route_decision" where
  \<comment> \<open>\<open>RouteDecision.__post_init__\<close> on fields of the annotated types\<close>
  "make_decision d =
     bindE (guardE (rd_decision_id d = '''') (RoutingError ''decision-id'')) (\<lambda>_.
     bindE (guardE (rd_code d \<notin> set route_codes) (RoutingError ''code'')) (\<lambda>_.
     bindE (guardE ((rd_code d = ''selected'') \<noteq> (rd_selected d \<noteq> None)) (RoutingError ''selected'')) (\<lambda>_.
     bindE (guardE (\<not> list_all pa_feasible (rd_alternates d)) (RoutingError ''candidates'')) (\<lambda>_.
     bindE (guardE (\<not> list_all (\<lambda>p. \<not> pa_feasible p) (rd_rejected d)) (RoutingError ''candidates'')) (\<lambda>_.
     bindE (require_int (rd_candidates_considered d) 0 None) (\<lambda>_.
     bindE (guardE (parse_instant (rd_computation_instant d) = None) (RoutingError ''computation-instant'')) (\<lambda>_.
     bindE (guardE (\<not> list_all (\<lambda>p. fst p \<noteq> '''' \<and> snd p \<noteq> '''') (rd_input_digests d)) (RoutingError ''digests'')) (\<lambda>_.
     bindE (guardE (\<not> list_all is_mapping (rd_extensions d)) (RoutingError ''extensions'')) (\<lambda>_.
       Inr d)))))))))"

definition derive_decision_id :: "(bytes \<Rightarrow> string) \<Rightarrow> route_decision \<Rightarrow> routing_error + string" where
  "derive_decision_id sha256_hex d =
     (case canonical_bytes (decision_content d) of
        Inl _ \<Rightarrow> Inl (RoutingError ''decision-id'') | Inr b \<Rightarrow> Inr (''sha256:'' @ sha256_hex b))"

record route_result =
  rr_ok :: bool
  rr_code :: string
  rr_decision :: "route_decision option"

end
