(* ===== verification/Routing_Candidates.thy ===== *)
theory Routing_Candidates
  imports Routing_Model
begin

text \<open>
  \<open>routing/candidates.py\<close>: which links and transit nodes may be used, the breadth-first
  enumeration of simple paths, and the construction of candidate paths.  The search is
  characterised exactly: it returns the first \<open>max_candidates\<close> of the simple paths
  within the hop bound, listed by length and then by expansion order.
\<close>

declare split_paired_All [simp del] split_paired_Ex [simp del]

section \<open>Usable links\<close>

definition escape_link :: "link_error + 'a \<Rightarrow> routing_error + 'a" where
  "escape_link m = (case m of Inl e \<Rightarrow> Inl (EscapedTopologyError e) | Inr a \<Rightarrow> Inr a)"

definition parse_evaluation_instant :: "string \<Rightarrow> routing_error + int" where
  "parse_evaluation_instant s =
     (case parse_instant s of None \<Rightarrow> Inl (RoutingError ''invalid-input'') | Some t \<Rightarrow> Inr t)"

definition non_remote :: "topology_claim \<Rightarrow> bool" where
  "non_remote c \<longleftrightarrow> tc_source_class c \<in> {''self-advertisement'', ''direct-observation''}"

definition identity_removed :: "topology_graph \<Rightarrow> string \<Rightarrow> int \<Rightarrow> bool" where
  "identity_removed g n now \<longleftrightarrow> get_identity_state g n now = ''removed''"

definition usable_link_evidence ::
    "topology_graph \<Rightarrow> string \<Rightarrow> string \<Rightarrow> int \<Rightarrow> routing_error + (string list \<times> bool)" where
  "usable_link_evidence g a b now =
     bindE (escape_link (get_link_claims g a b now)) (\<lambda>claims.
       if claims = [] then Inr ([], False)
       else bindE (escape_link (get_link_state g a b now)) (\<lambda>state.
         if state \<noteq> ''up'' then Inr ([], False)
         else
           let supporting = sort (map tc_claim_id (filter non_remote claims))
           in Inr (if supporting = [] then ([], False) else (supporting, True))))"

definition transit_allowed :: "topology_graph \<Rightarrow> string \<Rightarrow> int \<Rightarrow> bool" where
  "transit_allowed g n now \<longleftrightarrow>
     \<not> identity_removed g n now \<and>
     (\<exists>c \<in> set (get_claims_for_subject g n False). tc_claim_type c = ''reachable'' \<and> non_remote c)"

type_synonym link_table = "(string, string \<times> string) dict"

definition add_usable_link ::
    "topology_graph \<Rightarrow> int \<Rightarrow> link_table \<Rightarrow> topology_claim \<Rightarrow> routing_error + link_table" where
  \<comment> \<open>one round of the loop of \<open>_build_usable_link_table\<close>\<close>
  "add_usable_link g now table c =
     (if tc_claim_type c \<noteq> ''link-state'' \<or> dget table (tc_subject c) \<noteq> None then Inr table
      else
        case parse_link_subject (tc_subject c) of
          Inl _ \<Rightarrow> Inr table
        | Inr (a, b) \<Rightarrow>
            if identity_removed g a now \<or> identity_removed g b now then Inr table
            else bindE (usable_link_evidence g a b now) (\<lambda>(_, usable).
              Inr (if usable then dset table (tc_subject c) (a, b) else table)))"

fun foldE :: "('s \<Rightarrow> 'a \<Rightarrow> 'e + 's) \<Rightarrow> 's \<Rightarrow> 'a list \<Rightarrow> 'e + 's" where
  \<comment> \<open>a \<open>for\<close> loop whose body may raise\<close>
  "foldE f s [] = Inr s"
| "foldE f s (x # xs) = bindE (f s x) (\<lambda>s'. foldE f s' xs)"

definition build_usable_link_table :: "topology_graph \<Rightarrow> int \<Rightarrow> routing_error + link_table" where
  "build_usable_link_table g now = foldE (add_usable_link g now) [] (get_current_observations g now)"

type_synonym adjacency = "(string, (string \<times> string) list) dict"

definition add_neighbour :: "adjacency \<Rightarrow> string \<Rightarrow> string \<times> string \<Rightarrow> adjacency" where
  "add_neighbour adj n link = dset adj n (dgetd adj n [] @ [link])"

definition adjacency_of :: "link_table \<Rightarrow> adjacency" where
  "adjacency_of table =
     map (\<lambda>kv. (fst kv, sort_key (\<lambda>l. l) (snd kv)))
       (foldl (\<lambda>adj (subject, (a, b)). add_neighbour (add_neighbour adj a (subject, b)) b (subject, a)) [] table)"

section \<open>The search\<close>

record search =
  se_source :: string
  se_destination :: string
  se_adjacency :: adjacency
  se_max_hops :: nat
  se_max_candidates :: nat
  se_require_metrics :: bool
  se_require_transit :: bool
  se_metrics_keys :: "string set"
  se_transit :: "string \<Rightarrow> bool" \<comment> \<open>\<open>_transit_allowed\<close> of the graph at the instant\<close>

type_synonym partial_path = "string list \<times> string list" \<comment> \<open>hops, nodes\<close>

record search_state =
  ss_queue :: "partial_path list"
  ss_found :: "partial_path list"
  ss_transit_blocked :: bool
  ss_metrics_blocked :: bool

fun expand_links :: "search \<Rightarrow> partial_path \<Rightarrow> (string \<times> string) list \<Rightarrow> search_state \<Rightarrow> search_state + search_state" where
  \<comment> \<open>the inner loop; \<open>Inl\<close> is its early return\<close>
  "expand_links se p [] st = Inr st"
| "expand_links se (hops, nodes) ((subject, neighbour) # links) st =
     (if neighbour \<in> set nodes then expand_links se (hops, nodes) links st
      else if se_require_metrics se \<and> subject \<notin> se_metrics_keys se then
        expand_links se (hops, nodes) links (st\<lparr>ss_metrics_blocked := True\<rparr>)
      else if se_require_transit se \<and> neighbour \<noteq> se_destination se \<and> \<not> se_transit se neighbour then
        expand_links se (hops, nodes) links (st\<lparr>ss_transit_blocked := True\<rparr>)
      else
        let q = (hops @ [subject], nodes @ [neighbour])
        in if neighbour = se_destination se then
             let st' = st\<lparr>ss_found := ss_found st @ [q]\<rparr>
             in if se_max_candidates se \<le> length (ss_found st') then Inl st'
                else expand_links se (hops, nodes) links st'
           else expand_links se (hops, nodes) links (st\<lparr>ss_queue := ss_queue st @ [q]\<rparr>))"

definition links_from :: "search \<Rightarrow> partial_path \<Rightarrow> (string \<times> string) list" where
  \<comment> \<open>\<open>adjacency.get(node, [])\<close> of the path's last node\<close>
  "links_from se p = dgetd (se_adjacency se) (last (snd p)) []"

definition degree_bound :: "search \<Rightarrow> nat" where
  "degree_bound se = Max (insert 0 (length ` snd ` set (se_adjacency se)))"

definition path_weight :: "search \<Rightarrow> partial_path \<Rightarrow> nat" where
  "path_weight se p = (degree_bound se + 2) ^ (se_max_hops se - length (fst p))"

lemma links_from_bound: "length (links_from se p) \<le> degree_bound se"
proof (cases "dget (se_adjacency se) (last (snd p))")
  case (Some ls)
  then have "(last (snd p), ls) \<in> set (se_adjacency se)" by (rule map_of_SomeD)
  then have "length ls \<in> insert 0 (length ` snd ` set (se_adjacency se))" by force
  then have "length ls \<le> degree_bound se" unfolding degree_bound_def by (intro Max_ge) auto
  with Some show ?thesis by (simp add: links_from_def dgetd_def)
qed (simp add: links_from_def dgetd_def)

definition extensions :: "search \<Rightarrow> partial_path \<Rightarrow> (string \<times> string) list \<Rightarrow> partial_path list" where
  \<comment> \<open>the paths one hop longer that the loop over the links keeps\<close>
  "extensions se p links = map (\<lambda>(subject, n). (fst p @ [subject], snd p @ [n]))
     (filter (\<lambda>(subject, n). n \<notin> set (snd p) \<and> (se_require_metrics se \<longrightarrow> subject \<in> se_metrics_keys se) \<and>
        (se_require_transit se \<longrightarrow> n \<noteq> se_destination se \<longrightarrow> se_transit se n)) links)"

definition arrived :: "search \<Rightarrow> partial_path \<Rightarrow> bool" where
  "arrived se p \<longleftrightarrow> last (snd p) = se_destination se"

lemma extensions_Nil [simp]: "extensions se p [] = []"
  by (simp add: extensions_def)

definition keeps :: "search \<Rightarrow> partial_path \<Rightarrow> string \<Rightarrow> string \<Rightarrow> bool" where
  "keeps se p s n \<longleftrightarrow> n \<notin> set (snd p) \<and> (se_require_metrics se \<longrightarrow> s \<in> se_metrics_keys se) \<and>
        (se_require_transit se \<longrightarrow> n \<noteq> se_destination se \<longrightarrow> se_transit se n)"
lemma extensions_Cons:
  "extensions se p ((s, n) # links) =
     (if keeps se p s n then (fst p @ [s], snd p @ [n]) # extensions se p links else extensions se p links)"
  by (simp add: extensions_def keeps_def)

lemma expand_links_Cons:
  obtains (skip) st' where "\<not> keeps se p s n" "ss_found st' = ss_found st" "ss_queue st' = ss_queue st"
      "expand_links se p ((s, n) # links) st = expand_links se p links st'"
  | (last) "keeps se p s n" "n = se_destination se" "se_max_candidates se \<le> Suc (length (ss_found st))"
      "expand_links se p ((s, n) # links) st = Inl (st\<lparr>ss_found := ss_found st @ [(fst p @ [s], snd p @ [n])]\<rparr>)"
  | (arrive) "keeps se p s n" "n = se_destination se" "\<not> se_max_candidates se \<le> Suc (length (ss_found st))"
      "expand_links se p ((s, n) # links) st =
        expand_links se p links (st\<lparr>ss_found := ss_found st @ [(fst p @ [s], snd p @ [n])]\<rparr>)"
  | (queue) "keeps se p s n" "n \<noteq> se_destination se"
      "expand_links se p ((s, n) # links) st =
        expand_links se p links (st\<lparr>ss_queue := ss_queue st @ [(fst p @ [s], snd p @ [n])]\<rparr>)"
proof -
  let ?m = "se_require_metrics se \<and> s \<notin> se_metrics_keys se"
  let ?t = "se_require_transit se \<and> n \<noteq> se_destination se \<and> \<not> se_transit se n"
  have eq: "expand_links se p ((s, n) # links) st =
     (if n \<in> set (snd p) then expand_links se p links st
      else if ?m then expand_links se p links (st\<lparr>ss_metrics_blocked := True\<rparr>)
      else if ?t then expand_links se p links (st\<lparr>ss_transit_blocked := True\<rparr>)
      else if n = se_destination se then
        if se_max_candidates se \<le> Suc (length (ss_found st))
        then Inl (st\<lparr>ss_found := ss_found st @ [(fst p @ [s], snd p @ [n])]\<rparr>)
        else expand_links se p links (st\<lparr>ss_found := ss_found st @ [(fst p @ [s], snd p @ [n])]\<rparr>)
      else expand_links se p links (st\<lparr>ss_queue := ss_queue st @ [(fst p @ [s], snd p @ [n])]\<rparr>))"
    by (cases p) (simp add: Let_def)
  have keeps: "keeps se p s n \<longleftrightarrow> n \<notin> set (snd p) \<and> \<not> ?m \<and> \<not> ?t" by (auto simp: keeps_def)
  consider "n \<in> set (snd p)" | "n \<notin> set (snd p)" ?m | "n \<notin> set (snd p)" "\<not> ?m" ?t
    | "n \<notin> set (snd p)" "\<not> ?m" "\<not> ?t" by blast
  then show thesis
  proof cases
    case 1 then show thesis using skip [of st] eq keeps by simp
  next
    case 2 then show thesis using skip [of "st\<lparr>ss_metrics_blocked := True\<rparr>"] eq keeps by simp
  next
    case 3
    then have "expand_links se p ((s, n) # links) st = expand_links se p links (st\<lparr>ss_transit_blocked := True\<rparr>)"
      unfolding eq by (simp only: if_False if_True simp_thms)
    then show thesis using skip [of "st\<lparr>ss_transit_blocked := True\<rparr>"] 3 keeps by simp
  next
    case 4
    with keeps have k: "keeps se p s n" by blast
    have "expand_links se p ((s, n) # links) st =
     (if n = se_destination se then
        if se_max_candidates se \<le> Suc (length (ss_found st))
        then Inl (st\<lparr>ss_found := ss_found st @ [(fst p @ [s], snd p @ [n])]\<rparr>)
        else expand_links se p links (st\<lparr>ss_found := ss_found st @ [(fst p @ [s], snd p @ [n])]\<rparr>)
      else expand_links se p links (st\<lparr>ss_queue := ss_queue st @ [(fst p @ [s], snd p @ [n])]\<rparr>))"
      using 4 unfolding eq by (simp only: if_False if_True simp_thms)
    with k last arrive queue show thesis by (simp split: if_splits)
  qed
qed

lemma expand_links_Inr:
  "expand_links se p links st = Inr st' \<Longrightarrow>
   ss_found st' = ss_found st @ filter (arrived se) (extensions se p links) \<and>
   ss_queue st' = ss_queue st @ filter (\<lambda>q. \<not> arrived se q) (extensions se p links)"
proof (induction links arbitrary: st)
  case (Cons l links)
  obtain s n where l: "l = (s, n)" by (cases l)
  note ih = Cons.IH and run = Cons.prems [unfolded l]
  show ?case
  proof (cases rule: expand_links_Cons [of se p s n st links])
    case (skip st'')
    then show ?thesis using ih [of st''] run by (simp add: l extensions_Cons)
  next
    case last
    with run show ?thesis by simp
  next
    case arrive
    then show ?thesis using ih [of "st\<lparr>ss_found := ss_found st @ [(fst p @ [s], snd p @ [n])]\<rparr>"] run
      by (simp add: l extensions_Cons arrived_def)
  next
    case queue
    then show ?thesis using ih [of "st\<lparr>ss_queue := ss_queue st @ [(fst p @ [s], snd p @ [n])]\<rparr>"] run
      by (simp add: l extensions_Cons arrived_def)
  qed
qed simp

lemma expand_links_Inl:
  "expand_links se p links st = Inl st' \<Longrightarrow> length (ss_found st) < se_max_candidates se \<Longrightarrow>
   ss_found st' = take (se_max_candidates se) (ss_found st @ filter (arrived se) (extensions se p links)) \<and>
   se_max_candidates se \<le> length (ss_found st @ filter (arrived se) (extensions se p links))"
proof (induction links arbitrary: st)
  case (Cons l links)
  obtain s n where l: "l = (s, n)" by (cases l)
  note ih = Cons.IH and run = Cons.prems [unfolded l]
  show ?case
  proof (cases rule: expand_links_Cons [of se p s n st links])
    case (skip st'')
    then show ?thesis using ih [of st''] run by (simp add: l extensions_Cons)
  next
    case last
    then have "se_max_candidates se = Suc (length (ss_found st))" using run(2) by simp
    with last run show ?thesis by (auto simp: l extensions_Cons arrived_def)
  next
    case arrive
    then show ?thesis using ih [of "st\<lparr>ss_found := ss_found st @ [(fst p @ [s], snd p @ [n])]\<rparr>"] run
      by (simp add: l extensions_Cons arrived_def)
  next
    case queue
    then show ?thesis using ih [of "st\<lparr>ss_queue := ss_queue st @ [(fst p @ [s], snd p @ [n])]\<rparr>"] run
      by (simp add: l extensions_Cons arrived_def)
  qed
qed simp

lemma expand_links_below:
  "expand_links se p links st = Inr st' \<Longrightarrow> length (ss_found st) < se_max_candidates se \<Longrightarrow>
   length (ss_found st') < se_max_candidates se"
proof (induction links arbitrary: st)
  case (Cons l links)
  obtain s n where l: "l = (s, n)" by (cases l)
  note ih = Cons.IH and run = Cons.prems [unfolded l]
  show ?case
  proof (cases rule: expand_links_Cons [of se p s n st links])
    case (skip st'')
    then show ?thesis using ih [of st''] run by simp
  next
    case arrive
    then show ?thesis using ih [of "st\<lparr>ss_found := ss_found st @ [(fst p @ [s], snd p @ [n])]\<rparr>"] run by simp
  next
    case queue
    then show ?thesis using ih [of "st\<lparr>ss_queue := ss_queue st @ [(fst p @ [s], snd p @ [n])]\<rparr>"] run by simp
  qed (use run in simp)
qed simp

lemma extensions_length: "length (filter P (extensions se p links)) \<le> length links"
  unfolding extensions_def by (metis (no_types, lifting) dual_order.trans length_filter_le length_map)

lemma extensions_hops: "q \<in> set (extensions se p links) \<Longrightarrow> length (fst q) = Suc (length (fst p))"
  by (auto simp: extensions_def)

lemma sum_list_bound: "(\<forall>x \<in> set xs. f x = (w :: nat)) \<Longrightarrow> sum_list (map f xs) = length xs * w"
  by (induction xs) auto

lemma expansion_weight:
  assumes "length (fst p) < se_max_hops se" "expand_links se p (links_from se p) (st\<lparr>ss_queue := q\<rparr>) = Inr st'"
  shows "sum_list (map (path_weight se) (ss_queue st')) < path_weight se p + sum_list (map (path_weight se) q)"
proof -
  let ?cs = "filter (\<lambda>q. \<not> arrived se q) (extensions se p (links_from se p))"
  let ?D = "degree_bound se" and ?m = "se_max_hops se - Suc (length (fst p))"
  have eq: "ss_queue st' = q @ ?cs" using expand_links_Inr [OF assms(2)] by simp
  have "length ?cs \<le> ?D" using extensions_length links_from_bound le_trans by blast
  moreover have w: "path_weight se c = (?D + 2) ^ ?m" if "c \<in> set ?cs" for c
    using extensions_hops [of c se p "links_from se p"] that by (simp add: path_weight_def)
  have "sum_list (map (path_weight se) ?cs) = length ?cs * (?D + 2) ^ ?m"
    by (rule sum_list_bound) (use w in blast)
  ultimately have "sum_list (map (path_weight se) ?cs) \<le> ?D * (?D + 2) ^ ?m" by simp
  also have "\<dots> < (?D + 2) * (?D + 2) ^ ?m" by simp
  also have "\<dots> = path_weight se p"
    using assms(1) by (simp add: path_weight_def Suc_diff_Suc flip: power_Suc)
  finally show ?thesis by (simp add: eq)
qed

function search_loop :: "search \<Rightarrow> search_state \<Rightarrow> search_state" where
  \<comment> \<open>the \<open>while queue\<close> loop\<close>
  "search_loop se st =
     (case ss_queue st of
        [] \<Rightarrow> st
      | p # q \<Rightarrow>
          if se_max_hops se \<le> length (fst p) then search_loop se (st\<lparr>ss_queue := q\<rparr>)
          else
            (case expand_links se p (links_from se p) (st\<lparr>ss_queue := q\<rparr>) of
               Inl st' \<Rightarrow> st'
             | Inr st' \<Rightarrow> search_loop se st'))"
  by pat_completeness auto

termination
proof (relation "measure (\<lambda>(se, st). sum_list (map (path_weight se) (ss_queue st)))", goal_cases)
  case (2 se st p q)
  then show ?case by (simp add: path_weight_def)
next
  case (3 se st p q st')
  then show ?case using expansion_weight [where p = p and se = se and st = st and q = q and st' = st'] by simp
qed simp

declare search_loop.simps [simp del]

definition enumerate_simple_paths :: "search \<Rightarrow> partial_path list \<times> string option" where
  "enumerate_simple_paths se =
     (if se_source se = se_destination se then ([], None)
      else
        let st = search_loop se \<lparr>ss_queue = [([], [se_source se])], ss_found = [], ss_transit_blocked = False,
                   ss_metrics_blocked = False\<rparr>
        in (ss_found st,
            if ss_found st \<noteq> [] then None
            else if ss_metrics_blocked st then Some ''metrics''
            else if ss_transit_blocked st then Some ''transit'' else None))"

section \<open>Candidate construction\<close>

record construction =
  co_paths :: "route_path list"
  co_connected :: bool
  co_detail :: string

definition metrics_of :: "routing_context \<Rightarrow> string \<Rightarrow> link_metrics" where
  \<comment> \<open>\<open>context.link_metrics[subject]\<close>; the hops of a constructed path are keys\<close>
  "metrics_of c subject = the (dget (rc_link_metrics c) subject)"

definition context_search :: "routing_context \<Rightarrow> int \<Rightarrow> adjacency \<Rightarrow> search" where
  "context_search c now adj =
     \<lparr>se_source = rc_source c, se_destination = rc_destination c, se_adjacency = adj,
      se_max_hops = nat (rc_max_hops c), se_max_candidates = nat (rc_max_candidates c),
      se_require_metrics = True, se_require_transit = True, se_metrics_keys = fst ` set (rc_link_metrics c),
      se_transit = (\<lambda>n. transit_allowed (rc_topology c) n now)\<rparr>"

definition MAX_PROBE_HOPS :: nat where
  "MAX_PROBE_HOPS = 64"

definition probe_search :: "routing_context \<Rightarrow> int \<Rightarrow> adjacency \<Rightarrow> search" where
  "probe_search c now adj = (context_search c now adj)
     \<lparr>se_max_hops := MAX_PROBE_HOPS, se_max_candidates := 1, se_require_metrics := False,
      se_require_transit := False, se_metrics_keys := {}\<rparr>"

definition hop_evidence :: "routing_context \<Rightarrow> int \<Rightarrow> string \<Rightarrow> routing_error + string list" where
  "hop_evidence c now subject =
     bindE (escape_link (parse_link_subject subject)) (\<lambda>(a, b).
     bindE (usable_link_evidence (rc_topology c) a b now) (\<lambda>(ids, _).
       Inr (ids @ lm_evidence_refs (metrics_of c subject))))"

definition build_path :: "(bytes \<Rightarrow> string) \<Rightarrow> routing_context \<Rightarrow> int \<Rightarrow> partial_path \<Rightarrow> routing_error + route_path" where
  "build_path sha256_hex c now p =
     (case p of (hops, nodes) \<Rightarrow>
        bindE (aggregate_link_metrics (map (metrics_of c) hops)) (\<lambda>metrics.
        bindE (mapE (hop_evidence c now) hops) (\<lambda>evidence.
        bindE (derive_path_id sha256_hex (rc_source c) (rc_destination c) hops nodes) (\<lambda>pid.
          make_path sha256_hex
            \<lparr>pa_path_id = pid, pa_source = rc_source c, pa_destination = rc_destination c, pa_hops = hops,
             pa_nodes = nodes, pa_metrics = metrics, pa_feasible = True, pa_rejection_code = '''', pa_unmet = [],
             pa_policy_eligible = False, pa_policy_decision_id = '''', pa_utility = 0,
             pa_evidence_refs = sort (remdups (concat evidence))\<rparr>))))"

definition blockage_detail :: "string option \<Rightarrow> string" where
  "blockage_detail b =
     (if b = Some ''metrics'' then
        ''usable links exist but required link metric facts are absent under their own authorities -- no candidate can be constructed''
      else if b = Some ''transit'' then
        ''usable links exist but a transit node lacks explicit non-remote reachability evidence -- fail closed''
      else ''no simple path within the hop bound'')"

definition construct_candidates :: "(bytes \<Rightarrow> string) \<Rightarrow> routing_context \<Rightarrow> routing_error + construction" where
  "construct_candidates sha256_hex c =
     bindE (parse_evaluation_instant (rc_instant c)) (\<lambda>now.
     bindE (guardE (rc_source c = rc_destination c) (RoutingError ''invalid-input'')) (\<lambda>_.
     bindE (build_usable_link_table (rc_topology c) now) (\<lambda>table.
       let adj = adjacency_of table
       in if fst (enumerate_simple_paths (probe_search c now adj)) = [] then
            Inr \<lparr>co_paths = [], co_connected = False,
                 co_detail = ''source and destination are disconnected over usable links (link state, evidence class, or endpoint identity)''\<rparr>
          else
            case enumerate_simple_paths (context_search c now adj) of
              ([], blockage) \<Rightarrow> Inr \<lparr>co_paths = [], co_connected = True, co_detail = blockage_detail blockage\<rparr>
            | (raw, _) \<Rightarrow>
                bindE (mapE (build_path sha256_hex c now) raw) (\<lambda>paths.
                  Inr \<lparr>co_paths = paths, co_connected = True,
                       co_detail = dec_string (int (length paths)) @ '' candidate(s)''\<rparr>))))"

section \<open>The search is exact\<close>

definition successors :: "search \<Rightarrow> partial_path \<Rightarrow> partial_path list" where
  "successors se p = extensions se p (links_from se p)"

fun level :: "search \<Rightarrow> nat \<Rightarrow> partial_path list" where
  \<comment> \<open>the unfinished paths with \<open>k\<close> hops, in expansion order\<close>
  "level se 0 = [([], [se_source se])]"
| "level se (Suc k) = filter (\<lambda>p. \<not> arrived se p) (concat (map (successors se) (level se k)))"

definition arrivals :: "search \<Rightarrow> nat \<Rightarrow> partial_path list" where
  \<comment> \<open>the finished paths with \<open>k + 1\<close> hops\<close>
  "arrivals se k = filter (arrived se) (concat (map (successors se) (level se k)))"

definition reference_paths :: "search \<Rightarrow> partial_path list" where
  \<comment> \<open>the specification of the search: all simple paths, by length, cut at the bound\<close>
  "reference_paths se = take (se_max_candidates se) (concat (map (arrivals se) [0 ..< se_max_hops se]))"

definition finishing :: "search \<Rightarrow> partial_path list \<Rightarrow> partial_path list" where
  "finishing se ps = filter (arrived se) (concat (map (successors se) ps))"

definition going_on :: "search \<Rightarrow> partial_path list \<Rightarrow> partial_path list" where
  "going_on se ps = filter (\<lambda>p. \<not> arrived se p) (concat (map (successors se) ps))"

fun remaining_paths :: "search \<Rightarrow> nat \<Rightarrow> partial_path list \<Rightarrow> partial_path list" where
  "remaining_paths se 0 ps = []"
| "remaining_paths se (Suc n) ps = finishing se ps @ remaining_paths se n (going_on se ps)"

lemma remaining_paths_levels:
  "remaining_paths se n (level se k) = concat (map (arrivals se) [k ..< k + n])"
proof (induction n arbitrary: k)
  case (Suc n)
  have "going_on se (level se k) = level se (Suc k)" by (simp add: going_on_def)
  with Suc [of "Suc k"] show ?case
    by (simp add: finishing_def arrivals_def upt_conv_Cons del: upt_Suc level.simps)
qed simp

lemma finishing_append: "finishing se (ps @ qs) = finishing se ps @ finishing se qs"
  and going_on_append: "going_on se (ps @ qs) = going_on se ps @ going_on se qs"
  by (simp_all add: finishing_def going_on_def)

lemma successors_hops: "q \<in> set (successors se p) \<Longrightarrow> length (fst q) = Suc (length (fst p))"
  unfolding successors_def by (rule extensions_hops)

text \<open>
  Working off one level \<open>ps\<close> of the queue either ends the search at the bound or leaves the
  next level queued.
\<close>

lemma search_level:
  assumes "ss_queue st = ps @ qs" "\<forall>p \<in> set ps. length (fst p) < se_max_hops se"
    and "length (ss_found st) < se_max_candidates se"
  shows "(\<exists>st'. search_loop se st = search_loop se st' \<and> ss_queue st' = qs @ going_on se ps \<and>
            ss_found st' = ss_found st @ finishing se ps \<and> length (ss_found st') < se_max_candidates se) \<or>
    ss_found (search_loop se st) = take (se_max_candidates se) (ss_found st @ finishing se ps) \<and>
      se_max_candidates se \<le> length (ss_found st @ finishing se ps)"
  using assms
proof (induction ps arbitrary: st qs)
  case Nil
  then show ?case by (auto simp: going_on_def finishing_def)
next
  case (Cons p ps)
  let ?st = "st\<lparr>ss_queue := ps @ qs\<rparr>"
  have loop: "search_loop se st = (case expand_links se p (links_from se p) ?st of
      Inl st' \<Rightarrow> st' | Inr st' \<Rightarrow> search_loop se st')"
    using Cons.prems by (subst search_loop.simps) (simp add: not_le)
  show ?case
  proof (cases "expand_links se p (links_from se p) ?st")
    case (Inl st')
    from expand_links_Inl [OF Inl] Cons.prems(3) loop Inl show ?thesis
      by (auto simp: finishing_def successors_def)
  next
    case (Inr st')
    note out = expand_links_Inr [OF Inr, folded successors_def]
    have "ss_queue st' = ps @ (qs @ filter (\<lambda>q. \<not> arrived se q) (successors se p))" using out by simp
    moreover have "length (ss_found st') < se_max_candidates se"
      using expand_links_below [OF Inr] Cons.prems(3) by simp
    ultimately have "(\<exists>st''. search_loop se st' = search_loop se st'' \<and>
          ss_queue st'' = (qs @ filter (\<lambda>q. \<not> arrived se q) (successors se p)) @ going_on se ps \<and>
          ss_found st'' = ss_found st' @ finishing se ps \<and> length (ss_found st'') < se_max_candidates se) \<or>
        ss_found (search_loop se st') = take (se_max_candidates se) (ss_found st' @ finishing se ps) \<and>
          se_max_candidates se \<le> length (ss_found st' @ finishing se ps)"
      using Cons.prems(2) by (intro Cons.IH) simp_all
    moreover have "going_on se (p # ps) = filter (\<lambda>q. \<not> arrived se q) (successors se p) @ going_on se ps"
      "ss_found st' @ finishing se ps = ss_found st @ finishing se (p # ps)"
      using out by (simp_all add: going_on_def finishing_def)
    ultimately show ?thesis using loop Inr by simp
  qed
qed

lemma search_last_level:
  "\<forall>p \<in> set (ss_queue st). se_max_hops se \<le> length (fst p) \<Longrightarrow> ss_found (search_loop se st) = ss_found st"
proof (induction "ss_queue st" arbitrary: st)
  case Nil
  then show ?case by (subst search_loop.simps) (simp split: list.split)
next
  case (Cons p q)
  note queue = Cons.hyps(2) [symmetric]
  from Cons.prems queue have "search_loop se st = search_loop se (st\<lparr>ss_queue := q\<rparr>)"
    by (subst search_loop.simps) simp
  moreover have "ss_found (search_loop se (st\<lparr>ss_queue := q\<rparr>)) = ss_found (st\<lparr>ss_queue := q\<rparr>)"
    by (rule Cons.hyps(1)) (use Cons.prems queue in simp_all)
  ultimately show ?case by simp
qed

lemma search_loop_found:
  assumes "\<forall>p \<in> set (ss_queue st). length (fst p) + n = se_max_hops se"
    and "length (ss_found st) < se_max_candidates se"
  shows "ss_found (search_loop se st) = take (se_max_candidates se) (ss_found st @ remaining_paths se n (ss_queue st))"
  using assms
proof (induction n arbitrary: st)
  case 0
  then show ?case using search_last_level [of st se] by simp
next
  case (Suc n)
  have less: "\<forall>p \<in> set (ss_queue st). length (fst p) < se_max_hops se" using Suc.prems(1) by auto
  have q: "ss_queue st = ss_queue st @ []" by simp
  from search_level [OF q less Suc.prems(2)] show ?case
  proof
    assume "\<exists>st'. search_loop se st = search_loop se st' \<and> ss_queue st' = [] @ going_on se (ss_queue st) \<and>
      ss_found st' = ss_found st @ finishing se (ss_queue st) \<and> length (ss_found st') < se_max_candidates se"
    then obtain st' where st': "search_loop se st = search_loop se st'" "ss_queue st' = going_on se (ss_queue st)"
      "ss_found st' = ss_found st @ finishing se (ss_queue st)" "length (ss_found st') < se_max_candidates se" by auto
    have "\<forall>p \<in> set (ss_queue st'). length (fst p) + n = se_max_hops se"
      unfolding st'(2) using Suc.prems(1) successors_hops by (fastforce simp: going_on_def)
    from Suc.IH [OF this st'(4)] show ?thesis by (simp add: st')
  qed (simp add: take_append)
qed

theorem enumerate_exact:
  assumes "se_source se \<noteq> se_destination se" "0 < se_max_candidates se"
  shows "fst (enumerate_simple_paths se) = reference_paths se"
proof -
  let ?st = "\<lparr>ss_queue = [([], [se_source se])], ss_found = [], ss_transit_blocked = False, ss_metrics_blocked = False\<rparr>"
  have "ss_found (search_loop se ?st) = take (se_max_candidates se) (ss_found ?st @ remaining_paths se (se_max_hops se) (ss_queue ?st))"
    by (rule search_loop_found) (use assms(2) in simp_all)
  also have "\<dots> = reference_paths se"
    using remaining_paths_levels [of se "se_max_hops se" 0] by (simp add: reference_paths_def)
  finally show ?thesis using assms(1) by (simp add: enumerate_simple_paths_def Let_def)
qed

section \<open>What the search finds\<close>

definition linked :: "search \<Rightarrow> string list \<Rightarrow> string list \<Rightarrow> bool" where
  \<comment> \<open>consecutive nodes are joined by the hops, which carry metric facts when required\<close>
  "linked se hops nodes \<longleftrightarrow> length nodes = Suc (length hops) \<and> distinct nodes \<and> hd nodes = se_source se \<and>
     (\<forall>i < length hops. (hops ! i, nodes ! Suc i) \<in> set (dgetd (se_adjacency se) (nodes ! i) [])) \<and>
     (se_require_metrics se \<longrightarrow> set hops \<subseteq> se_metrics_keys se)"

definition simple_route :: "search \<Rightarrow> partial_path \<Rightarrow> bool" where
  \<comment> \<open>a simple path from the source to the destination through permitted transit nodes\<close>
  "simple_route se p \<longleftrightarrow> linked se (fst p) (snd p) \<and> fst p \<noteq> [] \<and> last (snd p) = se_destination se \<and>
     (se_require_transit se \<longrightarrow> list_all (se_transit se) (butlast (tl (snd p))))"

definition open_route :: "search \<Rightarrow> partial_path \<Rightarrow> bool" where
  \<comment> \<open>a simple path that has not reached the destination\<close>
  "open_route se p \<longleftrightarrow> linked se (fst p) (snd p) \<and> se_destination se \<notin> set (snd p) \<and>
     (se_require_transit se \<longrightarrow> list_all (se_transit se) (tl (snd p)))"

lemma linked_snoc:
  "linked se (hops @ [s]) (nodes @ [n]) \<longleftrightarrow>
     linked se hops nodes \<and> n \<notin> set nodes \<and> (s, n) \<in> set (dgetd (se_adjacency se) (last nodes) []) \<and>
     (se_require_metrics se \<longrightarrow> s \<in> se_metrics_keys se)" if "nodes \<noteq> []"
proof (cases "length nodes = Suc (length hops)")
  case True
  let ?ok = "\<lambda>h k i. (h ! i, k ! Suc i) \<in> set (dgetd (se_adjacency se) (k ! i) [])"
  have "?ok (hops @ [s]) (nodes @ [n]) i \<longleftrightarrow> ?ok hops nodes i" if "i < length hops" for i
    using that True by (simp add: nth_append)
  moreover have "?ok (hops @ [s]) (nodes @ [n]) (length hops) \<longleftrightarrow> (s, n) \<in> set (dgetd (se_adjacency se) (last nodes) [])"
    using True \<open>nodes \<noteq> []\<close> by (simp add: nth_append last_conv_nth)
  ultimately have "(\<forall>i < Suc (length hops). ?ok (hops @ [s]) (nodes @ [n]) i) \<longleftrightarrow>
      (\<forall>i < length hops. ?ok hops nodes i) \<and> (s, n) \<in> set (dgetd (se_adjacency se) (last nodes) [])"
    by (auto simp: less_Suc_eq)
  then show ?thesis using True \<open>nodes \<noteq> []\<close> unfolding linked_def by (auto simp: hd_append)
qed (simp add: linked_def)

lemma linked_nonempty: "linked se hops nodes \<Longrightarrow> nodes \<noteq> []"
  by (auto simp: linked_def)

lemma successors_iff:
  "q \<in> set (successors se p) \<longleftrightarrow>
     (\<exists>s n. q = (fst p @ [s], snd p @ [n]) \<and> (s, n) \<in> set (dgetd (se_adjacency se) (last (snd p)) []) \<and>
        n \<notin> set (snd p) \<and> (se_require_metrics se \<longrightarrow> s \<in> se_metrics_keys se) \<and>
        (se_require_transit se \<longrightarrow> n \<noteq> se_destination se \<longrightarrow> se_transit se n))"
  by (auto simp: successors_def extensions_def links_from_def)

lemma successor_open:
  assumes "open_route se p" "q \<in> set (successors se p)"
  shows "if arrived se q then simple_route se q else open_route se q"
proof -
  have ne: "snd p \<noteq> []" using assms(1) linked_nonempty by (auto simp: open_route_def)
  then show ?thesis
    using assms unfolding successors_iff
    by (auto simp: open_route_def simple_route_def arrived_def linked_snoc butlast_append)
qed

lemma level_iff:
  assumes "se_source se \<noteq> se_destination se"
  shows "p \<in> set (level se k) \<longleftrightarrow> open_route se p \<and> length (fst p) = k"
proof (induction k arbitrary: p)
  case 0
  obtain hops nodes where p: "p = (hops, nodes)" by (cases p)
  have "open_route se (hops, nodes) \<Longrightarrow> hops = [] \<Longrightarrow> nodes = [se_source se]"
    by (cases nodes) (auto simp: open_route_def linked_def)
  with assms p show ?case by (auto simp: open_route_def linked_def)
next
  case (Suc k)
  show ?case
  proof
    assume "p \<in> set (level se (Suc k))"
    then obtain r where "r \<in> set (level se k)" "p \<in> set (successors se r)" "\<not> arrived se p" by auto
    with Suc successor_open [of se r p] successors_hops [of p se r]
    show "open_route se p \<and> length (fst p) = Suc k" by simp
  next
    assume p: "open_route se p \<and> length (fst p) = Suc k"
    then obtain hops s where h: "fst p = hops @ [s]" "length hops = k"
      by (metis length_Suc_conv_rev)
    moreover obtain nodes n where n: "snd p = nodes @ [n]" "length nodes = Suc k"
      using p by (auto simp: open_route_def linked_def length_Suc_conv_rev)
    ultimately have pq: "p = (hops @ [s], nodes @ [n])" "nodes \<noteq> []" by (auto simp: prod_eq_iff)
    with p have op: "open_route se (hops, nodes)" and
      l: "(s, n) \<in> set (dgetd (se_adjacency se) (last nodes) [])" "n \<notin> set nodes"
        "se_require_metrics se \<longrightarrow> s \<in> se_metrics_keys se" "n \<noteq> se_destination se"
        "se_require_transit se \<longrightarrow> se_transit se n"
      by (auto simp: open_route_def linked_snoc)
    then have "(hops, nodes) \<in> set (level se k)" using Suc h(2) by simp
    moreover have "p \<in> set (successors se (hops, nodes))" using l pq by (simp add: successors_iff)
    moreover have "\<not> arrived se p" using l(4) pq by (simp add: arrived_def)
    ultimately show "p \<in> set (level se (Suc k))" by auto
  qed
qed

lemma arrivals_iff:
  assumes "se_source se \<noteq> se_destination se"
  shows "p \<in> set (arrivals se k) \<longleftrightarrow> simple_route se p \<and> length (fst p) = Suc k"
proof
  assume "p \<in> set (arrivals se k)"
  then obtain r where "r \<in> set (level se k)" "p \<in> set (successors se r)" "arrived se p"
    by (auto simp: arrivals_def)
  with level_iff [OF assms] successor_open [of se r p] successors_hops [of p se r]
  show "simple_route se p \<and> length (fst p) = Suc k" by simp
next
  assume p: "simple_route se p \<and> length (fst p) = Suc k"
  then obtain hops s where h: "fst p = hops @ [s]" "length hops = k" by (metis length_Suc_conv_rev)
  moreover obtain nodes n where n: "snd p = nodes @ [n]" "length nodes = Suc k"
    using p by (auto simp: simple_route_def linked_def length_Suc_conv_rev)
  ultimately have pq: "p = (hops @ [s], nodes @ [n])" "nodes \<noteq> []" by (auto simp: prod_eq_iff)
  with p have d: "n = se_destination se" by (simp add: simple_route_def)
  with p pq have op: "open_route se (hops, nodes)" and
    l: "(s, n) \<in> set (dgetd (se_adjacency se) (last nodes) [])" "n \<notin> set nodes"
      "se_require_metrics se \<longrightarrow> s \<in> se_metrics_keys se"
    by (auto simp: simple_route_def open_route_def linked_snoc butlast_append)
  have "(hops, nodes) \<in> set (level se k)" using op h(2) level_iff [OF assms] by simp
  moreover have "p \<in> set (successors se (hops, nodes))" using l pq d by (simp add: successors_iff)
  moreover have "arrived se p" using d pq by (simp add: arrived_def)
  ultimately show "p \<in> set (arrivals se k)" by (auto simp: arrivals_def)
qed

lemma sorted_levels:
  assumes "\<And>k x. x \<in> set (g k) \<Longrightarrow> f x = Suc k"
  shows "sorted (map f (concat (map g [0 ..< n]))) \<and> (\<forall>x \<in> set (concat (map g [0 ..< n])). f x \<le> n)"
proof (induction n)
  case (Suc n)
  have "map f (g n) = replicate (length (g n)) (Suc n)" using assms by (simp add: map_replicate_const cong: map_cong)
  with Suc assms [of _ n] show ?case by (fastforce simp: sorted_append)
qed simp

lemma search_finds:
  assumes "se_source se \<noteq> se_destination se" "0 < se_max_candidates se" "fst (enumerate_simple_paths se) = ps"
  shows "length ps \<le> se_max_candidates se"
    and "p \<in> set ps \<Longrightarrow> simple_route se p \<and> length (fst p) \<le> se_max_hops se"
    and "sorted (map (\<lambda>p. length (fst p)) ps)"
    and "simple_route se p \<Longrightarrow> length (fst p) \<le> se_max_hops se \<Longrightarrow> p \<notin> set ps \<Longrightarrow>
      length ps = se_max_candidates se \<and> (\<forall>q \<in> set ps. length (fst q) \<le> length (fst p))"
proof -
  let ?all = "concat (map (arrivals se) [0 ..< se_max_hops se])"
  have ps: "ps = take (se_max_candidates se) ?all"
    using enumerate_exact [OF assms(1,2)] assms(3) by (simp add: reference_paths_def)
  note srt = sorted_levels [of "arrivals se" "\<lambda>p. length (fst p)" "se_max_hops se"]
  have lev: "q \<in> set (arrivals se k) \<Longrightarrow> length (fst q) = Suc k" for q k using arrivals_iff [OF assms(1)] by blast
  then have sorted: "sorted (map (\<lambda>p. length (fst p)) ?all)" and bound: "\<forall>q \<in> set ?all. length (fst q) \<le> se_max_hops se"
    using srt by blast+
  have sub: "set ps \<subseteq> set ?all" unfolding ps by (rule set_take_subset)
  show "length ps \<le> se_max_candidates se" by (simp add: ps)
  show "sorted (map (\<lambda>p. length (fst p)) ps)" using sorted unfolding ps by (simp add: take_map [symmetric] sorted_wrt_take)
  show "simple_route se p \<and> length (fst p) \<le> se_max_hops se" if "p \<in> set ps"
    using that sub bound arrivals_iff [OF assms(1)] by fastforce
  assume p: "simple_route se p" "length (fst p) \<le> se_max_hops se" "p \<notin> set ps"
  then have "fst p \<noteq> []" by (simp add: simple_route_def)
  then obtain k where "length (fst p) = Suc k" "k < se_max_hops se" using p(2) by (cases "length (fst p)") auto
  with p(1) have "p \<in> set ?all" using arrivals_iff [OF assms(1), of p k] by force
  with p(3) ps have rest: "p \<in> set (drop (se_max_candidates se) ?all)"
    by (metis append_take_drop_id set_append Un_iff)
  then have "drop (se_max_candidates se) ?all \<noteq> []" by auto
  then have "length ps = se_max_candidates se" unfolding ps by simp
  moreover have "length (fst q) \<le> length (fst p)" if "q \<in> set ps" for q
  proof -
    let ?len = "\<lambda>p :: partial_path. length (fst p)"
    define front rear where "front = take (se_max_candidates se) ?all" and "rear = drop (se_max_candidates se) ?all"
    have "sorted (map ?len (front @ rear))" using sorted by (simp only: front_def rear_def append_take_drop_id)
    then have "\<forall>x \<in> set (map ?len front). \<forall>y \<in> set (map ?len rear). x \<le> y"
      unfolding map_append sorted_append by blast
    moreover have "q \<in> set front" "p \<in> set rear" using that rest by (simp_all only: ps front_def rear_def)
    ultimately show ?thesis by simp
  qed
  ultimately show "length ps = se_max_candidates se \<and> (\<forall>q \<in> set ps. length (fst q) \<le> length (fst p))" by blast
qed

section \<open>The link table and the adjacency\<close>

lemma foldE_invariant:
  assumes "foldE f s xs = Inr s'" "P s" "\<And>s x s'. x \<in> set xs \<Longrightarrow> P s \<Longrightarrow> f s x = Inr s' \<Longrightarrow> P s'"
  shows "P s'"
  using assms by (induction xs arbitrary: s) (auto simp: bindE_eq_Inr_iff)

definition supported_link :: "topology_graph \<Rightarrow> int \<Rightarrow> string \<Rightarrow> string \<Rightarrow> bool" where
  \<comment> \<open>a fresh current claim of a non-remote class and no worse report, between present nodes\<close>
  "supported_link g now a b \<longleftrightarrow> \<not> identity_removed g a now \<and> \<not> identity_removed g b now \<and>
     get_link_state g a b now = Inr ''up'' \<and>
     (\<exists>claims c. get_link_claims g a b now = Inr claims \<and> c \<in> set claims \<and> non_remote c)"

lemma get_link_claims_commute: "get_link_claims g a b now = get_link_claims g b a now"
  by (simp add: get_link_claims_def make_link_subject_commute [of a b])

lemma supported_link_commute: "supported_link g now a b \<longleftrightarrow> supported_link g now b a"
  unfolding supported_link_def get_link_claims_commute [of g a b] get_link_state_commute [of g a b] by blast

lemma usable_link_evidence_True:
  assumes "usable_link_evidence g a b now = Inr (ids, True)"
  obtains claims where "get_link_claims g a b now = Inr claims" "get_link_state g a b now = Inr ''up''"
    "ids = sort (map tc_claim_id (filter non_remote claims))" "\<exists>c \<in> set claims. non_remote c"
proof -
  from assms obtain claims where c: "get_link_claims g a b now = Inr claims" "get_link_state g a b now = Inr ''up''"
    "ids = sort (map tc_claim_id (filter non_remote claims))" "ids \<noteq> []"
    by (auto simp: usable_link_evidence_def bindE_eq_Inr_iff escape_link_def Let_def split: sum.splits if_splits)
  then have "filter non_remote claims \<noteq> []" by auto
  then have "\<exists>c \<in> set claims. non_remote c" by (simp add: filter_empty_conv)
  with c(1-3) show thesis by (rule that)
qed

definition table_ok :: "topology_graph \<Rightarrow> int \<Rightarrow> link_table \<Rightarrow> bool" where
  "table_ok g now table \<longleftrightarrow> dict_wf table \<and>
     (\<forall>s a b. dget table s = Some (a, b) \<longrightarrow> parse_link_subject s = Inr (a, b) \<and> supported_link g now a b)"

lemma add_usable_link_ok:
  assumes "add_usable_link g now table c = Inr table'" "table_ok g now table"
  shows "table_ok g now table'"
proof (cases "table' = table")
  case False
  with assms(1) obtain a b ids where new: "parse_link_subject (tc_subject c) = Inr (a, b)"
    "\<not> identity_removed g a now" "\<not> identity_removed g b now" "usable_link_evidence g a b now = Inr (ids, True)"
    "table' = dset table (tc_subject c) (a, b)"
    by (auto simp: add_usable_link_def bindE_eq_Inr_iff split: if_splits sum.splits prod.splits)
  from usable_link_evidence_True [OF new(4)] new(2,3) have "supported_link g now a b"
    unfolding supported_link_def by metis
  with new assms(2) show ?thesis by (auto simp: table_ok_def)
qed (use assms in simp)

lemma build_table_ok: "build_usable_link_table g now = Inr table \<Longrightarrow> table_ok g now table"
  unfolding build_usable_link_table_def
proof (rule foldE_invariant [where P = "table_ok g now"])
  show "table_ok g now []" by (simp add: table_ok_def)
qed (auto intro: add_usable_link_ok)

lemma dget_map_values: "dget (map (\<lambda>kv. (fst kv, f (snd kv))) d) k = map_option f (dget d k)"
  by (induction d) auto

lemma adjacency_mem:
  "(s, n) \<in> set (dgetd (adjacency_of table) m []) \<longleftrightarrow>
     (\<exists>a b. (s, a, b) \<in> set table \<and> (m = a \<and> n = b \<or> m = b \<and> n = a))"
proof -
  let ?add = "\<lambda>adj (subject, (a, b)). add_neighbour (add_neighbour adj a (subject, b)) b (subject, a)"
  have "(s, n) \<in> set (dgetd (foldl ?add adj table) m []) \<longleftrightarrow>
      (s, n) \<in> set (dgetd adj m []) \<or> (\<exists>a b. (s, a, b) \<in> set table \<and> (m = a \<and> n = b \<or> m = b \<and> n = a))" for adj
  proof (induction table arbitrary: adj)
    case (Cons l table)
    obtain t x y where "l = (t, x, y)" by (cases l)
    with Cons show ?case by (auto simp: add_neighbour_def)
  qed simp
  from this [of "[]"] show ?thesis
    by (auto simp: adjacency_of_def dgetd_def dget_map_values split: option.splits)
qed

definition joins :: "string \<Rightarrow> string \<Rightarrow> string \<Rightarrow> bool" where
  \<comment> \<open>the link subject names the two nodes\<close>
  "joins s m n \<longleftrightarrow> parse_link_subject s = Inr (m, n) \<or> parse_link_subject s = Inr (n, m)"

lemma adjacency_supported:
  assumes "table_ok g now table" "(s, n) \<in> set (dgetd (adjacency_of table) m [])"
  shows "joins s m n \<and> supported_link g now m n"
proof -
  from assms(2) obtain a b where t: "(s, a, b) \<in> set table" "m = a \<and> n = b \<or> m = b \<and> n = a"
    by (auto simp: adjacency_mem)
  with assms(1) have "parse_link_subject s = Inr (a, b)" "supported_link g now a b" by (auto simp: table_ok_def)
  with t(2) supported_link_commute show ?thesis unfolding joins_def by blast
qed

section \<open>Constructed candidates\<close>

lemma make_path_same: "make_path H p = Inr q \<Longrightarrow> q = p"
  by (auto simp: make_path_def bindE_eq_Inr_iff)

lemma build_path_fields:
  assumes "build_path H c now p = Inr q"
  shows "pa_hops q = fst p \<and> pa_nodes q = snd p \<and> pa_source q = rc_source c \<and> pa_destination q = rc_destination c \<and>
    pa_feasible q \<and> aggregate_link_metrics (map (metrics_of c) (fst p)) = Inr (pa_metrics q) \<and>
    derive_path_id H (rc_source c) (rc_destination c) (fst p) (snd p) = Inr (pa_path_id q)"
  using assms by (auto simp: build_path_def bindE_eq_Inr_iff dest!: make_path_same split: prod.splits)

definition candidate_ok :: "routing_context \<Rightarrow> int \<Rightarrow> route_path \<Rightarrow> bool" where
  \<comment> \<open>what may be relied on in a constructed candidate\<close>
  "candidate_ok c now p \<longleftrightarrow>
     distinct (pa_nodes p) \<and> hd (pa_nodes p) = rc_source c \<and> last (pa_nodes p) = rc_destination c \<and>
     pa_hops p \<noteq> [] \<and> length (pa_nodes p) = Suc (length (pa_hops p)) \<and> int (length (pa_hops p)) \<le> rc_max_hops c \<and>
     (\<forall>i < length (pa_hops p). joins (pa_hops p ! i) (pa_nodes p ! i) (pa_nodes p ! Suc i) \<and>
        supported_link (rc_topology c) now (pa_nodes p ! i) (pa_nodes p ! Suc i)) \<and>
     set (pa_hops p) \<subseteq> fst ` set (rc_link_metrics c) \<and>
     list_all (\<lambda>n. transit_allowed (rc_topology c) n now) (butlast (tl (pa_nodes p)))"

lemma context_bounds:
  assumes "make_context c0 = Inr c"
  shows "1 \<le> rc_max_candidates c" "1 \<le> rc_max_hops c" "c0 = c"
  using assms by (auto simp: make_context_def bindE_eq_Inr_iff require_int_def split: if_splits)

lemma simple_route_candidate:
  assumes "table_ok (rc_topology c) now table"
    and "simple_route (context_search c now (adjacency_of table)) p" "length (fst p) \<le> nat (rc_max_hops c)"
    and "pa_hops q = fst p" "pa_nodes q = snd p" "1 \<le> rc_max_hops c"
  shows "candidate_ok c now q"
  using assms adjacency_supported [OF assms(1)]
  unfolding candidate_ok_def simple_route_def linked_def context_search_def by auto

lemma construct_candidates_cases:
  assumes "construct_candidates H c = Inr co"
  obtains now table where "parse_instant (rc_instant c) = Some now" "rc_source c \<noteq> rc_destination c"
    "build_usable_link_table (rc_topology c) now = Inr table"
    "co_connected co \<longleftrightarrow> fst (enumerate_simple_paths (probe_search c now (adjacency_of table))) \<noteq> []"
    "mapE (build_path H c now)
       (if co_connected co then fst (enumerate_simple_paths (context_search c now (adjacency_of table))) else []) = Inr (co_paths co)"
  using assms
  by (auto simp: construct_candidates_def parse_evaluation_instant_def bindE_eq_Inr_iff Let_def
      split: if_splits option.splits prod.splits list.splits)

lemma construct_candidates_ok:
  assumes "make_context c0 = Inr c" "construct_candidates H c = Inr co" "parse_instant (rc_instant c) = Some now"
  shows "length (co_paths co) \<le> nat (rc_max_candidates c)" "p \<in> set (co_paths co) \<Longrightarrow> candidate_ok c now p"
proof -
  from construct_candidates_cases [OF assms(2)] obtain table where c: "rc_source c \<noteq> rc_destination c"
    "build_usable_link_table (rc_topology c) now = Inr table"
    and m: "mapE (build_path H c now)
       (if co_connected co then fst (enumerate_simple_paths (context_search c now (adjacency_of table))) else []) = Inr (co_paths co)"
    using assms(3) by (metis option.inject)
  let ?se = "context_search c now (adjacency_of table)"
  let ?raw = "fst (enumerate_simple_paths ?se)"
  have "se_source ?se \<noteq> se_destination ?se" "0 < se_max_candidates ?se"
    using c(1) context_bounds(1) [OF assms(1)] by (simp_all add: context_search_def)
  note found = search_finds [OF this refl]
  have "length (co_paths co) \<le> length ?raw" using mapE_length [OF m] by (simp split: if_splits)
  also have "\<dots> \<le> nat (rc_max_candidates c)" using found(1) by (simp add: context_search_def)
  finally show "length (co_paths co) \<le> nat (rc_max_candidates c)" .
  assume "p \<in> set (co_paths co)"
  from mapE_mem [OF m this] obtain r where r: "r \<in> set ?raw" "build_path H c now r = Inr p"
    by (cases "co_connected co") auto
  show "candidate_ok c now p"
    by (rule simple_route_candidate [OF build_table_ok [OF c(2)]])
      (use found(2) [OF r(1)] build_path_fields [OF r(2)] context_bounds(2) [OF assms(1)] in
        \<open>simp_all add: context_search_def\<close>)
qed

end
