(* ===== verification/Routing_Judgement.thy ===== *)
theory Routing_Judgement
  imports Routing_Candidates
begin

text \<open>
  \<open>routing/feasibility.py\<close> and \<open>routing/scoring.py\<close>: the verdict on one candidate (stale
  facts, evidence confidence, hard constraints, bound resources), the utility of soft
  preferences and the frozen total order of candidates.
\<close>

section \<open>Hard constraints\<close>

definition label_dimensions :: "string list" where
  "label_dimensions = [''locality'', ''privacy'', ''service'']"

definition as_int :: "string jval \<Rightarrow> int option" where
  \<comment> \<open>\<open>isinstance(value, int)\<close>; \<open>bool\<close> is a subclass of \<open>int\<close>\<close>
  "as_int v = (case v of JInt i \<Rightarrow> Some i | JBool b \<Rightarrow> Some (if b then 1 else 0) | _ \<Rightarrow> None)"

definition as_label :: "string jval \<Rightarrow> string" where
  "as_label v = (case v of JStr s \<Rightarrow> s | _ \<Rightarrow> '''')"

definition path_metric_value :: "route_path \<Rightarrow> string \<Rightarrow> int option" where
  "path_metric_value p dimension =
     (let m = pa_metrics p in
      if dimension = ''bandwidth'' then Some (me_capacity_bps m)
      else if dimension = ''latency'' then Some (me_latency_ms m)
      else if dimension = ''reliability'' then Some (me_reliability m)
      else if dimension = ''energy'' then Some (me_energy_cost m)
      else if dimension = ''cost'' then me_monetary m
      else None)"

definition numeric_satisfied :: "int \<Rightarrow> string \<Rightarrow> int \<Rightarrow> routing_error + bool" where
  "numeric_satisfied actual operator target =
     (if operator = ''>='' then Inr (target \<le> actual)
      else if operator = ''<='' then Inr (actual \<le> target)
      else if operator = ''>'' then Inr (target < actual)
      else if operator = ''<'' then Inr (actual < target)
      else if operator = ''='' then Inr (actual = target)
      else if operator = ''!='' then Inr (actual \<noteq> target)
      else Inl (RoutingError ''unsupported-constraint''))"

definition label_satisfied :: "bool \<Rightarrow> string \<Rightarrow> routing_error + bool" where
  "label_satisfied members operator =
     (if operator = ''='' then Inr members
      else if operator = ''!='' then Inr (\<not> members)
      else Inl (RoutingError ''unsupported-constraint''))"

definition constraints_of :: "routing_context \<Rightarrow> intent_constraint list" where
  "constraints_of c = (case rc_intent c of None \<Rightarrow> [] | Some i \<Rightarrow> in_constraints i)"

definition check_unsupported_hard_constraints :: "routing_context \<Rightarrow> routing_error + unit" where
  "check_unsupported_hard_constraints c =
     guardE (\<exists>k \<in> set (constraints_of c). ic_hardness k = ''hard'' \<and> ic_dimension k \<in> set label_dimensions \<and>
               ic_operator k \<notin> {''='', ''!=''}) (RoutingError ''unsupported-constraint'')"

definition label_members :: "route_path \<Rightarrow> routing_context \<Rightarrow> string \<Rightarrow> string \<Rightarrow> bool" where
  \<comment> \<open>every node (locality) or every link of the path carries the label\<close>
  "label_members p c dimension label =
     (if dimension = ''locality''
      then list_all (\<lambda>n. label \<in> set (dgetd (rc_node_labels c) n [])) (pa_nodes p)
      else list_all (\<lambda>s. label \<in> set (lm_properties (metrics_of c s))) (pa_hops p))"

definition constraint_satisfied :: "route_path \<Rightarrow> routing_context \<Rightarrow> intent_constraint \<Rightarrow> routing_error + bool" where
  "constraint_satisfied p c k =
     (if ic_dimension k \<in> set label_dimensions
      then label_satisfied (label_members p c (ic_dimension k) (as_label (ic_value k))) (ic_operator k)
      else case path_metric_value p (ic_dimension k) of
             None \<Rightarrow> Inr False
           | Some actual \<Rightarrow>
               numeric_satisfied actual (ic_operator k) (case as_int (ic_value k) of None \<Rightarrow> 0 | Some t \<Rightarrow> t))"

definition unmet_hard_constraints :: "route_path \<Rightarrow> routing_context \<Rightarrow> routing_error + string list" where
  \<comment> \<open>\<open>_eval_hard_intent_constraints\<close> without the diagnostic text\<close>
  "unmet_hard_constraints p c =
     foldE (\<lambda>unmet k.
         if ic_hardness k \<noteq> ''hard'' then Inr unmet
         else bindE (constraint_satisfied p c k) (\<lambda>ok. Inr (if ok then unmet else unmet @ [ic_constraint_id k])))
       [] (constraints_of c)"

section \<open>Bound resources\<close>

definition demand_bps :: "routing_context \<Rightarrow> int" where
  "demand_bps c =
     foldl (\<lambda>d k.
         if ic_hardness k = ''hard'' \<and> ic_dimension k = ''bandwidth'' \<and> ic_operator k \<in> {''>='', ''>'', ''=''}
         then (case as_int (ic_value k) of None \<Rightarrow> d | Some v \<Rightarrow> max d v) else d)
       0 (constraints_of c)"

definition bindings_of :: "routing_context \<Rightarrow> string \<Rightarrow> string list" where
  "bindings_of c subject = dgetd (rc_link_resources c) subject []"

definition path_bindings :: "routing_context \<Rightarrow> route_path \<Rightarrow> (string \<times> string) list" where
  \<comment> \<open>the pairs the two nested loops run over\<close>
  "path_bindings c p = concat (map (\<lambda>s. map (Pair s) (bindings_of c s)) (pa_hops p))"

definition energy_costs :: "routing_context \<Rightarrow> route_path \<Rightarrow> (string, int) dict option" where
  \<comment> \<open>\<open>None\<close>: a bound resource id is not canonical\<close>
  "energy_costs c p =
     foldl (\<lambda>costs (s, rid).
         case (costs, parse_resource_id (JStr rid)) of
           (Some d, Inr (_, kind, _)) \<Rightarrow>
             Some (if kind = ''energy'' then dset d rid (dgetd d rid 0 + lm_energy_cost (metrics_of c s)) else d)
         | _ \<Rightarrow> None)
       (Some []) (path_bindings c p)"

definition escape_resource :: "resource_error + 'a \<Rightarrow> routing_error + 'a" where
  "escape_resource m = (case m of Inl e \<Rightarrow> Inl (EscapedResourceError e) | Inr a \<Rightarrow> Inr a)"

definition resource_available ::
    "routing_context \<Rightarrow> int \<Rightarrow> (string, int) dict \<Rightarrow> string \<Rightarrow> routing_error + bool" where
  \<comment> \<open>the checks of one bound resource\<close>
  "resource_available c now costs rid =
     (let store = rc_resources c in
      case (get_resource store rid, current_offer store rid now, get_current_measurement store rid now) of
        (Some r, Some f, Some x) \<Rightarrow>
          if r_kind r = ''bandwidth'' then
            bindE (escape_resource (to_base (of_quantity f) ''bandwidth'')) (\<lambda>offered.
              case rm_value x of
                MEnergy _ \<Rightarrow> Inr False
              | MQuantity q \<Rightarrow>
                  bindE (escape_resource (to_base q ''bandwidth'')) (\<lambda>measured.
                    let available = (case get_account store rid of
                                       None \<Rightarrow> min offered measured
                                     | Some a \<Rightarrow> min (min offered measured) (remaining a))
                    in Inr (demand_bps c \<le> available)))
          else if r_kind r = ''energy'' then
            (case rm_value x of
               MQuantity _ \<Rightarrow> Inr False
             | MEnergy e \<Rightarrow>
                 bindE (escape_resource (to_base (energy_level e) ''energy'')) (\<lambda>level.
                   Inr (dgetd costs rid 0 \<le> level)))
          else Inr True
      | _ \<Rightarrow> Inr False)"

fun all_available :: "(string \<Rightarrow> routing_error + bool) \<Rightarrow> string list \<Rightarrow> string list \<Rightarrow> routing_error + bool" where
  \<comment> \<open>the second loop: each distinct resource once, stopping at the first failure\<close>
  "all_available ok seen [] = Inr True"
| "all_available ok seen (rid # rids) =
     (if rid \<in> set seen then all_available ok seen rids
      else bindE (ok rid) (\<lambda>b. if b then all_available ok (rid # seen) rids else Inr False))"

definition resources_bound_available :: "route_path \<Rightarrow> routing_context \<Rightarrow> int \<Rightarrow> routing_error + bool" where
  \<comment> \<open>\<open>_check_resource_bindings\<close>: its only failure code is resource-unavailable\<close>
  "resources_bound_available p c now =
     (case energy_costs c p of
        None \<Rightarrow> Inr False
      | Some costs \<Rightarrow> all_available (resource_available c now costs) [] (map snd (path_bindings c p)))"

section \<open>The verdict\<close>

definition rejected_path ::
    "(bytes \<Rightarrow> string) \<Rightarrow> route_path \<Rightarrow> string \<Rightarrow> string list \<Rightarrow> routing_error + route_path" where
  "rejected_path sha256_hex p code unmet =
     make_path sha256_hex (p\<lparr>pa_feasible := False, pa_rejection_code := code, pa_unmet := unmet\<rparr>)"

definition evaluate_feasibility ::
    "(bytes \<Rightarrow> string) \<Rightarrow> route_path \<Rightarrow> routing_context \<Rightarrow> int \<Rightarrow> routing_error + route_path" where
  "evaluate_feasibility sha256_hex p c now =
     (if \<not> list_all (\<lambda>s. link_fresh_at (metrics_of c s) now) (pa_hops p)
      then rejected_path sha256_hex p ''stale-input'' []
      else if 0 < rc_min_confidence c \<and> me_confidence (pa_metrics p) < rc_min_confidence c
      then rejected_path sha256_hex p ''hard-constraint-unsatisfied'' [''evidence-confidence'']
      else bindE (unmet_hard_constraints p c) (\<lambda>unmet.
        if unmet \<noteq> [] then rejected_path sha256_hex p ''hard-constraint-unsatisfied'' unmet
        else bindE (resources_bound_available p c now) (\<lambda>available.
          if available then Inr p else rejected_path sha256_hex p ''resource-unavailable'' [])))"

section \<open>Utility\<close>

definition satisfaction_bp :: "int \<Rightarrow> string \<Rightarrow> int \<Rightarrow> routing_error + int" where
  \<comment> \<open>Python's \<open>//\<close> is \<open>div\<close>; division by zero raises\<close>
  "satisfaction_bp actual operator target =
     (if operator = ''='' then Inr (if actual = target then MAX_BASIS_POINTS else 0)
      else if operator = ''!='' then Inr (if actual \<noteq> target then MAX_BASIS_POINTS else 0)
      else if operator \<in> {''>='', ''>''} then
        if (if operator = ''>='' then target \<le> actual else target < actual) then Inr MAX_BASIS_POINTS
        else if target = 0 then Inl PyZeroDivisionError
        else Inr (MAX_BASIS_POINTS * actual div target)
      else if operator \<in> {''<='', ''<''} then
        if (if operator = ''<='' then actual \<le> target else actual < target) then Inr MAX_BASIS_POINTS
        else if actual \<le> 0 then Inr 0
        else Inr (MAX_BASIS_POINTS * target div actual)
      else Inr 0)"

definition label_satisfaction_bp :: "bool \<Rightarrow> string \<Rightarrow> int" where
  "label_satisfaction_bp members operator =
     (if operator = ''='' then if members then MAX_BASIS_POINTS else 0
      else if operator = ''!='' then if members then 0 else MAX_BASIS_POINTS
      else 0)"

definition soft_satisfaction :: "route_path \<Rightarrow> routing_context \<Rightarrow> intent_constraint \<Rightarrow> routing_error + int" where
  "soft_satisfaction p c k =
     (if ic_dimension k \<in> set label_dimensions
      then Inr (label_satisfaction_bp (label_members p c (ic_dimension k) (as_label (ic_value k))) (ic_operator k))
      else case (path_metric_value p (ic_dimension k), as_int (ic_value k)) of
             (Some actual, Some target) \<Rightarrow> satisfaction_bp actual (ic_operator k) target
           | _ \<Rightarrow> Inr 0)"

definition utility_score :: "route_path \<Rightarrow> routing_context \<Rightarrow> routing_error + int" where
  "utility_score p c =
     foldE (\<lambda>total k.
         if ic_hardness k \<noteq> ''soft'' \<or> ic_weight k \<le> 0 then Inr total
         else bindE (soft_satisfaction p c k) (\<lambda>s. Inr (total + ic_weight k * s)))
       0 (constraints_of c)"

section \<open>The total order\<close>

type_synonym rank_key =
  "nat \<times> nat \<times> int \<times> int \<times> int \<times> int \<times> int \<times> (nat \<times> int) \<times> int \<times> string"

definition rank_sort_key :: "routing_context \<Rightarrow> route_path \<Rightarrow> rank_key" where
  "rank_sort_key c p =
     (let m = pa_metrics p in
      (if pa_feasible p then 0 else 1,
       if pa_policy_eligible p then 0 else 1,
       - pa_utility p,
       - (if rc_rank_by_confidence c then me_confidence m else 0),
       me_latency_ms m, me_energy_cost m, - me_capacity_bps m,
       case me_monetary m of Some v \<Rightarrow> (0, v) | None \<Rightarrow> (1, 0),
       me_hop_count m, pa_path_id p))"

definition rank_candidates :: "routing_context \<Rightarrow> route_path list \<Rightarrow> route_path list" where
  "rank_candidates c paths = sort_key (rank_sort_key c) paths"

section \<open>Lemmas on the verdict\<close>

lemma unmet_fold:
  "foldE (\<lambda>unmet k.
         if ic_hardness k \<noteq> ''hard'' then Inr unmet
         else bindE (constraint_satisfied p c k) (\<lambda>ok. Inr (if ok then unmet else unmet @ [ic_constraint_id k])))
       acc ks = Inr unmet \<Longrightarrow>
   (\<forall>k \<in> set ks. ic_hardness k = ''hard'' \<longrightarrow> isOk (constraint_satisfied p c k)) \<and>
   unmet = acc @ map ic_constraint_id (filter (\<lambda>k. ic_hardness k = ''hard'' \<and> constraint_satisfied p c k = Inr False) ks)"
proof (induction ks arbitrary: acc)
  case (Cons k ks)
  show ?case
  proof (cases "ic_hardness k = ''hard''")
    case True
    with Cons.prems obtain ok where ok: "constraint_satisfied p c k = Inr ok"
      by (auto simp: bindE_eq_Inr_iff)
    with True Cons.prems Cons.IH [of "if ok then acc else acc @ [ic_constraint_id k]"] show ?thesis
      by (cases ok) simp_all
  qed (use Cons in simp)
qed simp

lemma unmet_hard_constraints_Inr:
  assumes "unmet_hard_constraints p c = Inr unmet"
  shows "unmet = map ic_constraint_id
      (filter (\<lambda>k. ic_hardness k = ''hard'' \<and> constraint_satisfied p c k = Inr False) (constraints_of c))"
    and "k \<in> set (constraints_of c) \<Longrightarrow> ic_hardness k = ''hard'' \<Longrightarrow> unmet = [] \<Longrightarrow> constraint_satisfied p c k = Inr True"
proof -
  from unmet_fold [OF assms [unfolded unmet_hard_constraints_def]]
  have ok: "\<forall>k \<in> set (constraints_of c). ic_hardness k = ''hard'' \<longrightarrow> isOk (constraint_satisfied p c k)"
    and eq: "unmet = map ic_constraint_id
      (filter (\<lambda>k. ic_hardness k = ''hard'' \<and> constraint_satisfied p c k = Inr False) (constraints_of c))" by simp_all
  show "unmet = map ic_constraint_id
      (filter (\<lambda>k. ic_hardness k = ''hard'' \<and> constraint_satisfied p c k = Inr False) (constraints_of c))" by (rule eq)
  assume k: "k \<in> set (constraints_of c)" "ic_hardness k = ''hard''" "unmet = []"
  then have "constraint_satisfied p c k \<noteq> Inr False" using eq by (auto simp: filter_empty_conv)
  moreover obtain b where "constraint_satisfied p c k = Inr b" using ok k(1,2) by (auto simp: isOk_iff)
  ultimately show "constraint_satisfied p c k = Inr True" by (cases b) auto
qed

lemma rejected_path_Inr:
  "rejected_path H p code unmet = Inr q \<Longrightarrow>
     q = p\<lparr>pa_feasible := False, pa_rejection_code := code, pa_unmet := unmet\<rparr>"
  unfolding rejected_path_def by (rule make_path_same)

lemma evaluate_feasibility_cases:
  assumes "evaluate_feasibility H p c now = Inr q"
  obtains (feasible) "q = p" "list_all (\<lambda>s. link_fresh_at (metrics_of c s) now) (pa_hops p)"
      "rc_min_confidence c \<le> 0 \<or> rc_min_confidence c \<le> me_confidence (pa_metrics p)"
      "unmet_hard_constraints p c = Inr []" "resources_bound_available p c now = Inr True"
  | (rejected) code unmet where "q = p\<lparr>pa_feasible := False, pa_rejection_code := code, pa_unmet := unmet\<rparr>"
      "code = ''stale-input'' \<and> unmet = [] \<and> \<not> list_all (\<lambda>s. link_fresh_at (metrics_of c s) now) (pa_hops p) \<or>
       code = ''hard-constraint-unsatisfied'' \<and> unmet = [''evidence-confidence''] \<and>
         me_confidence (pa_metrics p) < rc_min_confidence c \<or>
       code = ''hard-constraint-unsatisfied'' \<and> unmet \<noteq> [] \<and> unmet_hard_constraints p c = Inr unmet \<or>
       code = ''resource-unavailable'' \<and> unmet = [] \<and> resources_bound_available p c now = Inr False"
proof (cases "list_all (\<lambda>s. link_fresh_at (metrics_of c s) now) (pa_hops p)")
  case fresh: True
  show thesis
  proof (cases "0 < rc_min_confidence c \<and> me_confidence (pa_metrics p) < rc_min_confidence c")
    case True
    then have "rejected_path H p ''hard-constraint-unsatisfied'' [''evidence-confidence''] = Inr q"
      using fresh assms by (simp add: evaluate_feasibility_def)
    from rejected [OF rejected_path_Inr [OF this]] True show thesis by blast
  next
    case False
    with fresh assms obtain unmet where u: "unmet_hard_constraints p c = Inr unmet"
      and r: "(if unmet \<noteq> [] then rejected_path H p ''hard-constraint-unsatisfied'' unmet
        else bindE (resources_bound_available p c now) (\<lambda>available.
          if available then Inr p else rejected_path H p ''resource-unavailable'' [])) = Inr q"
      by (auto simp: evaluate_feasibility_def bindE_eq_Inr_iff split: if_splits)
    show thesis
    proof (cases "unmet = []")
      case False
      with r have "rejected_path H p ''hard-constraint-unsatisfied'' unmet = Inr q" by simp
      from rejected [OF rejected_path_Inr [OF this]] u False show thesis by blast
    next
      case True
      with r obtain b where b: "resources_bound_available p c now = Inr b"
        "(if b then Inr p else rejected_path H p ''resource-unavailable'' []) = Inr q"
        by (auto simp: bindE_eq_Inr_iff)
      show thesis
      proof (cases b)
        case True
        with b feasible fresh \<open>\<not> (0 < rc_min_confidence c \<and> _)\<close> u \<open>unmet = []\<close> show thesis by auto
      next
        case False
        with b have "rejected_path H p ''resource-unavailable'' [] = Inr q" by simp
        from rejected [OF rejected_path_Inr [OF this]] b(1) False show thesis by simp
      qed
    qed
  qed
next
  case False
  then have "rejected_path H p ''stale-input'' [] = Inr q" using assms by (simp add: evaluate_feasibility_def)
  from rejected [OF rejected_path_Inr [OF this]] False show thesis by blast
qed

lemma rank_candidates_props:
  "set (rank_candidates c ps) = set ps" "length (rank_candidates c ps) = length ps"
  "sorted (map (rank_sort_key c) (rank_candidates c ps))" "mset (rank_candidates c ps) = mset ps"
  by (simp_all add: rank_candidates_def)

lemma rank_key_path_id: "rank_sort_key c p = rank_sort_key c q \<Longrightarrow> pa_path_id p = pa_path_id q"
  by (simp add: rank_sort_key_def Let_def)

lemma rank_candidates_order:
  assumes "mset ps = mset qs" "inj_on pa_path_id (set ps)"
  shows "rank_candidates c ps = rank_candidates c qs"
  unfolding rank_candidates_def
proof (rule sort_key_inj_key_eq)
  show "mset ps = mset (sort_key (rank_sort_key c) qs)" using assms(1) by simp
  show "inj_on (rank_sort_key c) (set ps)"
    using assms(2) rank_key_path_id unfolding inj_on_def by blast
qed (simp_all)

section \<open>Lemmas on the utility\<close>

lemma satisfaction_bounds:
  assumes "satisfaction_bp actual operator target = Inr s" "0 \<le> actual" "0 \<le> target"
  shows "0 \<le> s \<and> s \<le> MAX_BASIS_POINTS"
proof -
  have d: "0 \<le> a * MAX_BASIS_POINTS div b \<and> a * MAX_BASIS_POINTS div b \<le> MAX_BASIS_POINTS"
    if "0 \<le> a" "a \<le> b" "0 < b" for a b :: int
  proof -
    have "a * MAX_BASIS_POINTS div b \<le> b * MAX_BASIS_POINTS div b"
      using that by (intro zdiv_mono1 mult_right_mono) (simp_all add: MAX_BASIS_POINTS_def)
    with that show ?thesis by (simp add: MAX_BASIS_POINTS_def pos_imp_zdiv_nonneg_iff)
  qed
  from d [of actual target] d [of target actual] assms show ?thesis
    by (auto simp: satisfaction_bp_def MAX_BASIS_POINTS_def mult.commute split: if_splits)
qed

lemma satisfaction_raises:
  "satisfaction_bp actual operator target = Inl e \<longleftrightarrow>
     e = PyZeroDivisionError \<and> target = 0 \<and> (operator = ''>='' \<and> actual < 0 \<or> operator = ''>'' \<and> actual \<le> 0)"
  by (auto simp: satisfaction_bp_def split: if_splits)

section \<open>What an avoided label means\<close>

lemma avoided_label_may_appear:
  \<comment> \<open>\<open>!=\<close> asks for one node (one link) without the label, not for every one to lack it\<close>
  assumes "ic_dimension k \<in> set label_dimensions" "ic_operator k = ''!=''"
  shows "constraint_satisfied p c k = Inr
    (if ic_dimension k = ''locality''
     then \<exists>n \<in> set (pa_nodes p). as_label (ic_value k) \<notin> set (dgetd (rc_node_labels c) n [])
     else \<exists>s \<in> set (pa_hops p). as_label (ic_value k) \<notin> set (lm_properties (metrics_of c s)))"
  using assms by (auto simp: constraint_satisfied_def label_satisfied_def label_members_def list_all_iff)

end
