(* ===== verification/Routing_Engine.thy ===== *)
theory Routing_Engine
  imports Routing_Judgement
begin

text \<open>
  \<open>routing/validation.py\<close> and \<open>routing/engine.py\<close>: the fail-closed checks of a context,
  the computation of a decision, and the engine with its optional result cache.  The
  cache is the engine's only state; a call of \<open>evaluate\<close> returns the result and the
  engine after it.
\<close>

declare split_paired_All [simp del] split_paired_Ex [simp del]

section \<open>Validation of the context\<close>

definition FORBIDDEN_PROPERTY_TOKENS :: "string list" where
  "FORBIDDEN_PROPERTY_TOKENS = [''5g'', ''6g'', ''nr'', ''lte'', ''wifi'', ''wi-fi'', ''3g'', ''4g'', ''cellular'',
     ''satellite'', ''mesh'', ''fiber'', ''ethernet'', ''vendor'', ''ran'', ''cn'',
     ''bearer'', ''apn'', ''imsi'', ''imei'', ''ssid'']"

definition leaks_technology :: "string \<Rightarrow> bool" where
  \<comment> \<open>\<open>reject_forbidden_property_tokens\<close> raises\<close>
  "leaks_technology v \<longleftrightarrow> (\<exists>w \<in> set FORBIDDEN_PROPERTY_TOKENS. has_word w True (ascii_lower v))"

definition metrics_problem :: "link_metrics \<Rightarrow> bool" where
  "metrics_problem m \<longleftrightarrow>
     list_ex looks_secret (lm_evidence_refs m) \<or> looks_secret (lm_provenance m) \<or>
     list_ex leaks_technology (lm_properties m)"

definition validate_context :: "(bytes \<Rightarrow> string) \<Rightarrow> routing_context \<Rightarrow> routing_error + unit" where
  \<comment> \<open>the problems are collected and raised together\<close>
  "validate_context sha256_hex c =
     (let canonical = bindE (context_content sha256_hex c) (\<lambda>doc. escape_canon (canonical_bytes doc))
      in guardE
           (list_ex has_secret (rc_extensions c) \<or>
            list_ex (\<lambda>kv. metrics_problem (snd kv)) (rc_link_metrics c) \<or>
            list_ex (\<lambda>kv. list_ex leaks_technology (snd kv)) (rc_node_labels c) \<or>
            \<not> isOk canonical)
           (RoutingError ''invalid-input''))"

section \<open>Snapshot, policy and intent bindings\<close>

definition check_snapshot_consistency ::
    "routing_context \<Rightarrow> string \<Rightarrow> string \<Rightarrow> routing_error + unit" where
  "check_snapshot_consistency c td rd =
     bindE (guardE (rc_expected_topology c \<noteq> '''' \<and> rc_expected_topology c \<noteq> td)
              (RoutingError ''inconsistent-snapshot'')) (\<lambda>_.
       guardE (rc_expected_resource c \<noteq> '''' \<and> rc_expected_resource c \<noteq> rd) (RoutingError ''inconsistent-snapshot''))"

definition strip_sha256 :: "string \<Rightarrow> string" where
  "strip_sha256 s = (if take 7 s = ''sha256:'' then drop 7 s else s)"

definition tamper_evident_reading ::
    "(string \<Rightarrow> ustr) \<Rightarrow> (bytes \<Rightarrow> string) \<Rightarrow> policy_decision \<Rightarrow> routing_error + bool" where
  \<comment> \<open>\<open>canonical_bytes\<close> of the decision turns a canonicalisation error into a \<open>PolicyError\<close>,
     which the handler does not list\<close>
  "tamper_evident_reading reading sha256_hex d =
     (case canonical_reading reading (policy_content d) of
        Inl _ \<Rightarrow> Inl (EscapedPolicyError ''canonical'')
      | Inr b \<Rightarrow> Inr (sha256_hex b = strip_sha256 (pd_decision_id d)))"

definition policy_decision_is_tamper_evident ::
    "(bytes \<Rightarrow> string) \<Rightarrow> policy_decision \<Rightarrow> routing_error + bool" where
  "policy_decision_is_tamper_evident sha256_hex d = tamper_evident_reading lit sha256_hex d"

lemmas tamper_evident_defs = policy_decision_is_tamper_evident_def tamper_evident_reading_def

definition check_policy_binding :: "(bytes \<Rightarrow> string) \<Rightarrow> routing_context \<Rightarrow> routing_error + unit" where
  "check_policy_binding sha256_hex c =
     (case rc_policy c of
        None \<Rightarrow> Inl (RoutingError ''policy-denied'')
      | Some d \<Rightarrow>
          bindE (guardE (pd_effect d \<noteq> ''allow'') (RoutingError ''policy-denied'')) (\<lambda>_.
          bindE (policy_decision_is_tamper_evident sha256_hex d) (\<lambda>intact.
          bindE (guardE (\<not> intact) (RoutingError ''conflicting-input'')) (\<lambda>_.
          bindE (guardE (rc_expected_policy_set c \<noteq> '''' \<and> rc_expected_policy_set c \<noteq> pd_policy_set_id d)
                   (RoutingError ''conflicting-input'')) (\<lambda>_.
          bindE (guardE (0 \<le> rc_expected_policy_version c \<and> rc_expected_policy_version c \<noteq> pd_policy_set_version d)
                   (RoutingError ''conflicting-input'')) (\<lambda>_.
            case (parse_instant (rc_instant c), parse_instant (pd_evaluation_instant d)) of
              (Some now, Some at) \<Rightarrow> guardE (now < at) (RoutingError ''conflicting-input'')
            | _ \<Rightarrow> Inl (RoutingError ''conflicting-input'')))))))"

definition check_intent_binding :: "routing_context \<Rightarrow> routing_error + unit" where
  "check_intent_binding c =
     (case rc_intent c of
        None \<Rightarrow> guardE (rc_expected_intent c \<noteq> '''') (RoutingError ''conflicting-input'')
      | Some i \<Rightarrow>
          bindE (guardE (rc_expected_intent c \<noteq> '''' \<and> rc_expected_intent c \<noteq> in_digest i)
                   (RoutingError ''conflicting-input'')) (\<lambda>_.
            case parse_instant (rc_instant c) of
              None \<Rightarrow> Inl (RoutingError ''conflicting-input'')
            | Some now \<Rightarrow>
                bindE (if in_expires_at i = '''' then Inr ()
                       else case parse_instant (in_expires_at i) of
                              None \<Rightarrow> Inl (RoutingError ''conflicting-input'')
                            | Some expires \<Rightarrow> guardE (expires < now) (RoutingError ''expired-path'')) (\<lambda>_.
                  if in_issued_at i = '''' then Inr ()
                  else case parse_instant (in_issued_at i) of
                         None \<Rightarrow> Inl (RoutingError ''conflicting-input'')
                       | Some issued \<Rightarrow> guardE (now < issued) (RoutingError ''conflicting-input''))))"

section \<open>The computation\<close>

record bindings =
  bi_topology_digest :: string
  bi_resource_digest :: string
  bi_policy_decision_id :: string
  bi_routing_input_digest :: string
  bi_input_digests :: "(string \<times> string) list"

definition check_bindings :: "(bytes \<Rightarrow> string) \<Rightarrow> routing_context \<Rightarrow> routing_error + bindings" where
  "check_bindings sha256_hex c =
     bindE (topology_digest sha256_hex c) (\<lambda>td.
     bindE (resource_digest sha256_hex c) (\<lambda>rd.
     bindE (validate_context sha256_hex c) (\<lambda>_.
     bindE (check_snapshot_consistency c td rd) (\<lambda>_.
     bindE (check_policy_binding sha256_hex c) (\<lambda>_.
     bindE (check_intent_binding c) (\<lambda>_.
     bindE (check_unsupported_hard_constraints c) (\<lambda>_.
     bindE (routing_input_digest sha256_hex c) (\<lambda>input.
       Inr \<lparr>bi_topology_digest = td, bi_resource_digest = rd, bi_policy_decision_id = policy_id_of c,
            bi_routing_input_digest = input,
            bi_input_digests =
              [(''topology'', td), (''resources'', rd),
               (''intent'', case rc_intent c of None \<Rightarrow> ''absent'' | Some i \<Rightarrow> in_digest i),
               (''policy-decision'', policy_id_of c), (''routing-input'', input)]\<rparr>))))))))"

definition finish_decision :: "(bytes \<Rightarrow> string) \<Rightarrow> route_decision \<Rightarrow> routing_error + route_decision" where
  \<comment> \<open>the placeholder, its content-derived id, and the decision carrying it\<close>
  "finish_decision sha256_hex d =
     bindE (make_decision d) (\<lambda>placeholder.
     bindE (derive_decision_id sha256_hex placeholder) (\<lambda>i.
       make_decision (placeholder\<lparr>rd_decision_id := i\<rparr>)))"

definition failure_decision ::
    "(bytes \<Rightarrow> string) \<Rightarrow> string \<Rightarrow> string \<Rightarrow> routing_context \<Rightarrow> (string \<times> string) list \<Rightarrow> route_path list \<Rightarrow> int
     \<Rightarrow> routing_error + route_decision" where
  "failure_decision sha256_hex code detail c digests rejected considered =
     finish_decision sha256_hex
       \<lparr>rd_decision_id = ''placeholder'', rd_code = code, rd_detail = detail, rd_selected = None,
        rd_alternates = [], rd_rejected = rejected, rd_candidates_considered = considered,
        rd_policy_decision_id = policy_id_of c, rd_computation_instant = rc_instant c, rd_input_digests = digests, rd_extensions = []\<rparr>"

definition judge_path ::
    "(bytes \<Rightarrow> string) \<Rightarrow> routing_context \<Rightarrow> string \<Rightarrow> int \<Rightarrow> route_path \<Rightarrow> routing_error + route_path" where
  \<comment> \<open>one round of the loop over the candidates\<close>
  "judge_path sha256_hex c policy_id now p =
     bindE (evaluate_feasibility sha256_hex p c now) (\<lambda>v.
     bindE (utility_score v c) (\<lambda>u.
       make_path sha256_hex
         (v\<lparr>pa_policy_eligible := True, pa_policy_decision_id := policy_id, pa_utility := u\<rparr>)))"

definition selected_detail :: "route_path \<Rightarrow> nat \<Rightarrow> nat \<Rightarrow> string" where
  "selected_detail p alternates rejected =
     ''selected '' @ dec_string (me_hop_count (pa_metrics p)) @ ''-hop path; '' @ dec_string (int alternates)
       @ '' alternate(s) retained; '' @ dec_string (int rejected) @ '' rejected''"

definition rejected_detail :: "route_path list \<Rightarrow> string" where
  "rejected_detail rejected =
     dec_string (int (length rejected)) @ '' candidate(s) considered; all rejected (''
       @ comma_join (sort (remdups (map pa_rejection_code rejected))) @ '')''"

definition compute_decision ::
    "(bytes \<Rightarrow> string) \<Rightarrow> routing_context \<Rightarrow> bindings \<Rightarrow> routing_error + route_decision" where
  "compute_decision sha256_hex c b =
     (let digests = bi_input_digests b in
      bindE (parse_evaluation_instant (rc_instant c)) (\<lambda>now.
      bindE (construct_candidates sha256_hex c) (\<lambda>co.
        if \<not> co_connected co
        then failure_decision sha256_hex ''topology-disconnected'' (co_detail co) c digests [] 0
        else if co_paths co = []
        then failure_decision sha256_hex ''no-feasible-path'' (co_detail co) c digests [] 0
        else
          bindE (mapE (judge_path sha256_hex c (bi_policy_decision_id b) now) (co_paths co)) (\<lambda>judged.
            let ranked = rank_candidates c judged;
                rejected = filter (\<lambda>p. \<not> pa_feasible p) ranked
            in case filter pa_feasible ranked of
                 [] \<Rightarrow> failure_decision sha256_hex ''no-feasible-path'' (rejected_detail rejected) c digests
                         rejected (int (length rejected))
               | selected # alternates \<Rightarrow>
                   finish_decision sha256_hex
                     \<lparr>rd_decision_id = ''placeholder'', rd_code = ''selected'',
                      rd_detail = selected_detail selected (length alternates) (length rejected),
                      rd_selected = Some selected, rd_alternates = alternates, rd_rejected = rejected,
                      rd_candidates_considered = int (length ranked),
                      rd_policy_decision_id = bi_policy_decision_id b,
                      rd_computation_instant = rc_instant c, rd_input_digests = digests, rd_extensions = []\<rparr>))))"

section \<open>The engine\<close>

record routing_engine =
  en_use_cache :: bool
  en_cache :: "(string, route_decision) dict"

definition make_engine :: "bool \<Rightarrow> routing_engine" where
  "make_engine use_cache = \<lparr>en_use_cache = use_cache, en_cache = []\<rparr>"

definition clear_cache :: "routing_engine \<Rightarrow> routing_engine" where
  "clear_cache en = en\<lparr>en_cache := []\<rparr>"

definition decided :: "route_decision \<Rightarrow> route_result" where
  "decided d = \<lparr>rr_ok = True, rr_code = rd_code d, rr_decision = Some d\<rparr>"

definition evaluate_inner ::
    "(bytes \<Rightarrow> string) \<Rightarrow> routing_engine \<Rightarrow> routing_context \<Rightarrow> routing_error + (route_result \<times> routing_engine)" where
  "evaluate_inner sha256_hex en c =
     bindE (check_bindings sha256_hex c) (\<lambda>b.
       let key = bi_routing_input_digest b in
       case (if en_use_cache en then dget (en_cache en) key else None) of
         Some cached \<Rightarrow> Inr (decided cached, en)
       | None \<Rightarrow>
           bindE (compute_decision sha256_hex c b) (\<lambda>d.
             Inr (decided d, if en_use_cache en then en\<lparr>en_cache := dset (en_cache en) key d\<rparr> else en)))"

definition engine_evaluate ::
    "(bytes \<Rightarrow> string) \<Rightarrow> routing_engine \<Rightarrow> routing_context \<Rightarrow> routing_error + (route_result \<times> routing_engine)" where
  \<comment> \<open>only a \<open>RoutingError\<close> becomes a result\<close>
  "engine_evaluate sha256_hex en c =
     (case evaluate_inner sha256_hex en c of
        Inl (RoutingError code) \<Rightarrow> Inr (\<lparr>rr_ok = False, rr_code = code, rr_decision = None\<rparr>, en)
      | Inl e \<Rightarrow> Inl e
      | Inr r \<Rightarrow> Inr r)"

definition evaluate :: "(bytes \<Rightarrow> string) \<Rightarrow> routing_context \<Rightarrow> routing_error + route_result" where
  "evaluate sha256_hex c =
     bindE (engine_evaluate sha256_hex (make_engine False) c) (\<lambda>(r, _). Inr r)"

section \<open>Lemmas on the engine\<close>

lemma make_decision_same: "make_decision d = Inr e \<Longrightarrow> e = d"
  by (auto simp: make_decision_def bindE_eq_Inr_iff)

lemma decision_content_id: "decision_content (d\<lparr>rd_decision_id := i\<rparr>) = decision_content d"
  by (simp add: decision_content_def)

lemma finish_decision_Inr:
  assumes "finish_decision H d0 = Inr d"
  obtains i where "d = d0\<lparr>rd_decision_id := i\<rparr>" "derive_decision_id H d = Inr i" "make_decision d = Inr d"
proof -
  from assms obtain p i where p: "make_decision d0 = Inr p" "derive_decision_id H p = Inr i"
    "make_decision (p\<lparr>rd_decision_id := i\<rparr>) = Inr d"
    by (auto simp: finish_decision_def bindE_eq_Inr_iff)
  then have "p = d0" "d = d0\<lparr>rd_decision_id := i\<rparr>" by (auto dest!: make_decision_same)
  with p show thesis by (intro that [of i]) (simp_all add: derive_decision_id_def decision_content_id)
qed

lemma check_bindings_Inr:
  assumes "check_bindings H c = Inr b"
  shows "check_policy_binding H c = Inr ()" "check_intent_binding c = Inr ()"
    "check_unsupported_hard_constraints c = Inr ()" "validate_context H c = Inr ()"
    "topology_digest H c = Inr (bi_topology_digest b)" "resource_digest H c = Inr (bi_resource_digest b)"
    "check_snapshot_consistency c (bi_topology_digest b) (bi_resource_digest b) = Inr ()"
    "routing_input_digest H c = Inr (bi_routing_input_digest b)" "bi_policy_decision_id b = policy_id_of c"
  using assms by (auto simp: check_bindings_def bindE_eq_Inr_iff)

lemma judge_path_Inr:
  assumes "judge_path H c i now p = Inr q"
  obtains v u where "evaluate_feasibility H p c now = Inr v" "utility_score v c = Inr u"
    "q = v\<lparr>pa_policy_eligible := True, pa_policy_decision_id := i, pa_utility := u\<rparr>"
  using assms by (auto simp: judge_path_def bindE_eq_Inr_iff dest!: make_path_same)

lemma compute_decision_cases:
  assumes "compute_decision H c b = Inr d"
  obtains (failed) "rd_selected d = None" "rd_alternates d = []"
      "rd_code d = ''topology-disconnected'' \<or> rd_code d = ''no-feasible-path''"
      "finish_decision H (d\<lparr>rd_decision_id := ''placeholder''\<rparr>) = Inr d"
      "rd_policy_decision_id d = policy_id_of c"
  | (selected) now co judged p where "parse_instant (rc_instant c) = Some now"
      "construct_candidates H c = Inr co"
      "mapE (judge_path H c (bi_policy_decision_id b) now) (co_paths co) = Inr judged"
      "filter pa_feasible (rank_candidates c judged) = p # rd_alternates d" "rd_selected d = Some p"
      "rd_rejected d = filter (\<lambda>p. \<not> pa_feasible p) (rank_candidates c judged)"
      "rd_candidates_considered d = int (length judged)" "rd_code d = ''selected''"
      "finish_decision H (d\<lparr>rd_decision_id := ''placeholder''\<rparr>) = Inr d"
      "rd_policy_decision_id d = bi_policy_decision_id b"
proof -
  have failure: thesis if f: "failure_decision H code detail c digests rejected n = Inr d"
    and code: "code = ''topology-disconnected'' \<or> code = ''no-feasible-path''" for code detail digests rejected n
  proof -
    from f obtain i where d: "d = \<lparr>rd_decision_id = i, rd_code = code, rd_detail = detail, rd_selected = None,
        rd_alternates = [], rd_rejected = rejected, rd_candidates_considered = n,
        rd_policy_decision_id = policy_id_of c, rd_computation_instant = rc_instant c, rd_input_digests = digests, rd_extensions = []\<rparr>"
      unfolding failure_decision_def by (elim finish_decision_Inr) simp
    show thesis by (rule failed) (use d code f in \<open>simp_all add: failure_decision_def\<close>)
  qed
  from assms obtain now co where now: "parse_instant (rc_instant c) = Some now"
    and co: "construct_candidates H c = Inr co"
    by (auto simp: compute_decision_def parse_evaluation_instant_def bindE_eq_Inr_iff Let_def split: option.splits)
  show thesis
  proof (cases "co_connected co \<and> co_paths co \<noteq> []")
    case False
    then show thesis using assms failure
      by (auto simp: compute_decision_def parse_evaluation_instant_def now co Let_def split: if_splits)
  next
    case True
    with assms obtain judged where j: "mapE (judge_path H c (bi_policy_decision_id b) now) (co_paths co) = Inr judged"
      and r: "(let ranked = rank_candidates c judged; rejected = filter (\<lambda>p. \<not> pa_feasible p) ranked
          in case filter pa_feasible ranked of
               [] \<Rightarrow> failure_decision H ''no-feasible-path'' (rejected_detail rejected) c (bi_input_digests b)
                       rejected (int (length rejected))
             | selected # alternates \<Rightarrow>
                 finish_decision H
                   \<lparr>rd_decision_id = ''placeholder'', rd_code = ''selected'',
                    rd_detail = selected_detail selected (length alternates) (length rejected),
                    rd_selected = Some selected, rd_alternates = alternates, rd_rejected = rejected,
                    rd_candidates_considered = int (length ranked),
                    rd_policy_decision_id = bi_policy_decision_id b,
                    rd_computation_instant = rc_instant c, rd_input_digests = bi_input_digests b, rd_extensions = []\<rparr>) = Inr d"
      by (auto simp: compute_decision_def parse_evaluation_instant_def now co Let_def bindE_eq_Inr_iff)
    show thesis
    proof (cases "filter pa_feasible (rank_candidates c judged)")
      case Nil
      with r show thesis by (auto simp: Let_def intro: failure)
    next
      case (Cons p ps)
      with r have f: "finish_decision H
          \<lparr>rd_decision_id = ''placeholder'', rd_code = ''selected'',
           rd_detail = selected_detail p (length ps) (length (filter (\<lambda>p. \<not> pa_feasible p) (rank_candidates c judged))),
           rd_selected = Some p, rd_alternates = ps,
           rd_rejected = filter (\<lambda>p. \<not> pa_feasible p) (rank_candidates c judged),
           rd_candidates_considered = int (length judged), rd_policy_decision_id = bi_policy_decision_id b,
           rd_computation_instant = rc_instant c, rd_input_digests = bi_input_digests b, rd_extensions = []\<rparr> = Inr d"
        by (simp add: Let_def rank_candidates_props)
      then obtain i where d: "d = \<lparr>rd_decision_id = i, rd_code = ''selected'',
           rd_detail = selected_detail p (length ps) (length (filter (\<lambda>p. \<not> pa_feasible p) (rank_candidates c judged))),
           rd_selected = Some p, rd_alternates = ps,
           rd_rejected = filter (\<lambda>p. \<not> pa_feasible p) (rank_candidates c judged),
           rd_candidates_considered = int (length judged), rd_policy_decision_id = bi_policy_decision_id b,
           rd_computation_instant = rc_instant c, rd_input_digests = bi_input_digests b, rd_extensions = []\<rparr>"
        by (elim finish_decision_Inr) simp
      show thesis by (rule selected [OF now co j]) (use d Cons f in simp_all)
    qed
  qed
qed

lemma engine_evaluate_cases:
  assumes "engine_evaluate H en c = Inr (r, en')"
  obtains (refused) code where "evaluate_inner H en c = Inl (RoutingError code)"
      "r = \<lparr>rr_ok = False, rr_code = code, rr_decision = None\<rparr>" "en' = en"
  | (cached) b d where "check_bindings H c = Inr b" "en_use_cache en"
      "dget (en_cache en) (bi_routing_input_digest b) = Some d" "r = decided d" "en' = en"
  | (computed) b d where "check_bindings H c = Inr b" "compute_decision H c b = Inr d" "r = decided d"
      "en_use_cache en \<longrightarrow> dget (en_cache en) (bi_routing_input_digest b) = None"
      "en' = (if en_use_cache en then en\<lparr>en_cache := dset (en_cache en) (bi_routing_input_digest b) d\<rparr> else en)"
proof (cases "evaluate_inner H en c")
  case (Inl e)
  with assms show thesis by (cases e) (auto simp: engine_evaluate_def intro: refused)
next
  case (Inr x)
  with assms have x: "evaluate_inner H en c = Inr (r, en')" by (simp add: engine_evaluate_def)
  then obtain b where b: "check_bindings H c = Inr b" by (auto simp: evaluate_inner_def bindE_eq_Inr_iff)
  show thesis
  proof (cases "if en_use_cache en then dget (en_cache en) (bi_routing_input_digest b) else None")
    case (Some d)
    with x b show thesis by (intro cached [of b d]) (auto simp: evaluate_inner_def split: if_splits)
  next
    case None
    with x b obtain d where "compute_decision H c b = Inr d" "r = decided d"
      "en' = (if en_use_cache en then en\<lparr>en_cache := dset (en_cache en) (bi_routing_input_digest b) d\<rparr> else en)"
      by (auto simp: evaluate_inner_def Let_def bindE_eq_Inr_iff)
    with b None show thesis by (intro computed [of b d]) (auto split: if_splits)
  qed
qed

lemma evaluate_cases:
  assumes "evaluate H c = Inr r"
  obtains (refused) code where "r = \<lparr>rr_ok = False, rr_code = code, rr_decision = None\<rparr>"
  | (computed) b d where "check_bindings H c = Inr b" "compute_decision H c b = Inr d" "r = decided d"
proof -
  from assms obtain en where "engine_evaluate H (make_engine False) c = Inr (r, en)"
    by (auto simp: evaluate_def bindE_eq_Inr_iff)
  then show thesis
    by (cases rule: engine_evaluate_cases) (use refused computed in \<open>auto simp: make_engine_def\<close>)
qed

section \<open>Admissible routes\<close>

definition policy_allows :: "(bytes \<Rightarrow> string) \<Rightarrow> routing_context \<Rightarrow> policy_decision \<Rightarrow> bool" where
  \<comment> \<open>an allowing decision whose id commits to its content and whose version is the expected one\<close>
  "policy_allows H c p \<longleftrightarrow> rc_policy c = Some p \<and> pd_effect p = ''allow'' \<and>
     (\<exists>bs. canonical_bytes (policy_content p) = Inr bs \<and> strip_sha256 (pd_decision_id p) = H bs) \<and>
     (rc_expected_policy_set c = '''' \<or> rc_expected_policy_set c = pd_policy_set_id p) \<and>
     (rc_expected_policy_version c < 0 \<or> rc_expected_policy_version c = pd_policy_set_version p) \<and>
     (\<exists>now at. parse_instant (rc_instant c) = Some now \<and> parse_instant (pd_evaluation_instant p) = Some at \<and> at \<le> now)"

definition intent_current :: "routing_context \<Rightarrow> normalized_intent \<Rightarrow> bool" where
  "intent_current c i \<longleftrightarrow> (rc_expected_intent c = '''' \<or> rc_expected_intent c = in_digest i) \<and>
     (\<exists>now. parse_instant (rc_instant c) = Some now \<and>
        (in_expires_at i = '''' \<or> (\<exists>t. parse_instant (in_expires_at i) = Some t \<and> now \<le> t)) \<and>
        (in_issued_at i = '''' \<or> (\<exists>t. parse_instant (in_issued_at i) = Some t \<and> t \<le> now)))"

lemma check_policy_binding_Inr: "check_policy_binding H c = Inr () \<Longrightarrow> \<exists>p. policy_allows H c p"
  by (auto simp: check_policy_binding_def policy_allows_def tamper_evident_defs bindE_eq_Inr_iff
      split: option.splits sum.splits)

lemma check_intent_binding_Inr: "check_intent_binding c = Inr () \<Longrightarrow> rc_intent c = Some i \<Longrightarrow> intent_current c i"
  by (auto simp: check_intent_binding_def intent_current_def bindE_eq_Inr_iff split: option.splits if_splits)

definition energy_drawn :: "routing_context \<Rightarrow> route_path \<Rightarrow> string \<Rightarrow> int" where
  \<comment> \<open>what the links of the path bound to one resource cost together\<close>
  "energy_drawn c p rid =
     sum_list (map (\<lambda>b. lm_energy_cost (metrics_of c (fst b))) (filter (\<lambda>b. snd b = rid) (path_bindings c p)))"

definition bound_resource_covers :: "routing_context \<Rightarrow> int \<Rightarrow> route_path \<Rightarrow> string \<Rightarrow> bool" where
  \<comment> \<open>offer, measurement and account cover the demand, or the measured level the energy drawn\<close>
  "bound_resource_covers c now p rid \<longleftrightarrow>
     (\<exists>r f x owner kind scope. get_resource (rc_resources c) rid = Some r \<and> current_offer (rc_resources c) rid now = Some f \<and>
        get_current_measurement (rc_resources c) rid now = Some x \<and> parse_resource_id (JStr rid) = Inr (owner, kind, scope) \<and>
        (r_kind r = ''bandwidth'' \<longrightarrow>
           (\<exists>offered measured q. to_base (of_quantity f) ''bandwidth'' = Inr offered \<and> rm_value x = MQuantity q \<and>
              to_base q ''bandwidth'' = Inr measured \<and> demand_bps c \<le> offered \<and> demand_bps c \<le> measured \<and>
              (\<forall>a. get_account (rc_resources c) rid = Some a \<longrightarrow> demand_bps c \<le> remaining a))) \<and>
        (r_kind r = ''energy'' \<longrightarrow> kind = ''energy'' \<longrightarrow>
           (\<exists>e level. rm_value x = MEnergy e \<and> to_base (energy_level e) ''energy'' = Inr level \<and>
              energy_drawn c p rid \<le> level)))"

definition route_admissible :: "routing_context \<Rightarrow> int \<Rightarrow> route_path \<Rightarrow> bool" where
  "route_admissible c now p \<longleftrightarrow>
     (\<forall>s \<in> set (pa_hops p). link_fresh_at (metrics_of c s) now) \<and>
     (rc_min_confidence c \<le> me_confidence (pa_metrics p) \<or> rc_min_confidence c \<le> 0) \<and>
     (\<forall>k \<in> set (constraints_of c). ic_hardness k = ''hard'' \<longrightarrow> constraint_satisfied p c k = Inr True) \<and>
     (\<forall>s \<in> set (pa_hops p). \<forall>rid \<in> set (bindings_of c s). bound_resource_covers c now p rid)"

lemma all_available_Inr:
  "all_available ok seen rids = Inr True \<Longrightarrow> rid \<in> set rids \<Longrightarrow> rid \<notin> set seen \<Longrightarrow> ok rid = Inr True"
  by (induction ok seen rids rule: all_available.induct) (auto simp: bindE_eq_Inr_iff split: if_splits)

lemma escape_resource_Inr [simp]: "escape_resource m = Inr a \<longleftrightarrow> m = Inr a"
  by (cases m) (simp_all add: escape_resource_def)

lemma energy_costs_total:
  assumes "energy_costs c p = Some costs"
  shows "b \<in> set (path_bindings c p) \<Longrightarrow> \<exists>owner kind scope. parse_resource_id (JStr (snd b)) = Inr (owner, kind, scope) \<and>
    (kind = ''energy'' \<longrightarrow> dgetd costs (snd b) 0 = energy_drawn c p (snd b))"
proof -
  let ?f = "\<lambda>costs (s, rid).
         case (costs, parse_resource_id (JStr rid)) of
           (Some d, Inr (_, kind, _)) \<Rightarrow>
             Some (if kind = ''energy'' then dset d rid (dgetd d rid 0 + lm_energy_cost (metrics_of c s)) else d)
         | _ \<Rightarrow> None"
  let ?drawn = "\<lambda>bs rid. sum_list (map (\<lambda>b. lm_energy_cost (metrics_of c (fst b))) (filter (\<lambda>b. snd b = rid) bs))"
  have none: "foldl ?f None bs = None" for bs by (induction bs) (simp_all add: split_beta)
  have "foldl ?f (Some d) bs = Some e \<Longrightarrow>
      (\<forall>b \<in> set bs. isOk (parse_resource_id (JStr (snd b)))) \<and>
      (\<forall>rid owner scope. parse_resource_id (JStr rid) = Inr (owner, ''energy'', scope) \<longrightarrow>
         dgetd e rid 0 = dgetd d rid 0 + ?drawn bs rid)" for bs d e
  proof (induction bs arbitrary: d)
    case (Cons b bs)
    obtain s rid where b: "b = (s, rid)" by (cases b)
    obtain o' k sc where p: "parse_resource_id (JStr rid) = Inr (o', k, sc)"
      using Cons.prems none by (cases "parse_resource_id (JStr rid)") (auto simp: b)
    from Cons.prems have "foldl ?f (Some (if k = ''energy'' then dset d rid (dgetd d rid 0 + lm_energy_cost (metrics_of c s)) else d)) bs
        = Some e" by (simp add: b p)
    from Cons.IH [OF this] show ?case by (auto simp: b p)
  qed simp
  from this [OF assms [unfolded energy_costs_def]]
  show "b \<in> set (path_bindings c p) \<Longrightarrow> \<exists>owner kind scope. parse_resource_id (JStr (snd b)) = Inr (owner, kind, scope) \<and>
    (kind = ''energy'' \<longrightarrow> dgetd costs (snd b) 0 = energy_drawn c p (snd b))"
    by (fastforce simp: isOk_iff energy_drawn_def)
qed

lemma resource_available_covers:
  assumes "resource_available c now costs rid = Inr True"
    and "parse_resource_id (JStr rid) = Inr (owner, kind, scope)"
    and "kind = ''energy'' \<longrightarrow> dgetd costs rid 0 = energy_drawn c p rid"
  shows "bound_resource_covers c now p rid"
proof -
  from assms(1) obtain r f x where rfx: "get_resource (rc_resources c) rid = Some r"
    "current_offer (rc_resources c) rid now = Some f" "get_current_measurement (rc_resources c) rid now = Some x"
    by (auto simp: resource_available_def Let_def split: option.splits)
  have "\<exists>offered measured q. to_base (of_quantity f) ''bandwidth'' = Inr offered \<and> rm_value x = MQuantity q \<and>
      to_base q ''bandwidth'' = Inr measured \<and> demand_bps c \<le> offered \<and> demand_bps c \<le> measured \<and>
      (\<forall>a. get_account (rc_resources c) rid = Some a \<longrightarrow> demand_bps c \<le> remaining a)" if "r_kind r = ''bandwidth''"
    using assms(1) that
    by (cases "rm_value x"; cases "get_account (rc_resources c) rid")
      (auto simp: resource_available_def rfx bindE_eq_Inr_iff Let_def)
  moreover have "\<exists>e level. rm_value x = MEnergy e \<and> to_base (energy_level e) ''energy'' = Inr level \<and>
      energy_drawn c p rid \<le> level" if "r_kind r = ''energy''" "kind = ''energy''"
    using assms(1,3) that by (cases "rm_value x") (auto simp: resource_available_def rfx bindE_eq_Inr_iff Let_def)
  ultimately show ?thesis using rfx assms(2) unfolding bound_resource_covers_def by blast
qed

lemma resources_bound_covers:
  assumes "resources_bound_available p c now = Inr True" "s \<in> set (pa_hops p)" "rid \<in> set (bindings_of c s)"
  shows "bound_resource_covers c now p rid"
proof -
  from assms(1) obtain costs where costs: "energy_costs c p = Some costs"
    "all_available (resource_available c now costs) [] (map snd (path_bindings c p)) = Inr True"
    by (auto simp: resources_bound_available_def split: option.splits)
  have b: "(s, rid) \<in> set (path_bindings c p)" using assms(2,3) by (auto simp: path_bindings_def)
  then have "rid \<in> set (map snd (path_bindings c p))" by force
  from all_available_Inr [OF costs(2) this] energy_costs_total [OF costs(1) b] show ?thesis
    using resource_available_covers by fastforce
qed

lemma feasible_path_admissible:
  assumes "evaluate_feasibility H p c now = Inr p" "pa_feasible p"
  shows "route_admissible c now p"
  using assms(1)
proof (cases rule: evaluate_feasibility_cases)
  case feasible
  with unmet_hard_constraints_Inr(2) [OF feasible(4)] resources_bound_covers [OF feasible(5)] show ?thesis
    unfolding route_admissible_def list_all_iff by blast
next
  case (rejected code unmet)
  then have "pa_feasible p = False" by (metis route_path.select_convs(7) route_path.surjective route_path.update_convs(7) route_path.update_convs(8) route_path.update_convs(9))
  with assms(2) show ?thesis by simp
qed

end
