(* ===== verification/Routing_Outcome.thy ===== *)
theory Routing_Outcome
  imports Routing_Engine
begin

text \<open>
  The facts on candidates, verdicts and bindings lifted to \<open>evaluate\<close>: what a judged
  candidate and a selected route satisfy, the completeness of the construction, the claims
  that make it raise, the history of an engine with a cache, and the bound on the rounds
  of the search.
\<close>

declare split_paired_All [simp del] split_paired_Ex [simp del]

section \<open>Judged candidates\<close>

lemma route_admissible_policy [simp]:
  "route_admissible c now (p\<lparr>pa_policy_eligible := x, pa_policy_decision_id := y, pa_utility := z\<rparr>)
     = route_admissible c now p"
  by (simp add: route_admissible_def bound_resource_covers_def energy_drawn_def path_bindings_def
      constraint_satisfied_def label_members_def path_metric_value_def)

lemma candidate_ok_fields:
  "pa_hops p = pa_hops q \<Longrightarrow> pa_nodes p = pa_nodes q \<Longrightarrow> candidate_ok c now p = candidate_ok c now q"
  by (simp add: candidate_ok_def)

lemma constructed_fields:
  assumes "construct_candidates H c = Inr co" "p \<in> set (co_paths co)"
  shows "pa_feasible p \<and> aggregate_link_metrics (map (metrics_of c) (pa_hops p)) = Inr (pa_metrics p) \<and>
    derive_path_id H (rc_source c) (rc_destination c) (pa_hops p) (pa_nodes p) = Inr (pa_path_id p)"
proof -
  from construct_candidates_cases [OF assms(1)] obtain now raw where "mapE (build_path H c now) raw = Inr (co_paths co)"
    by metis
  from mapE_mem [OF this assms(2)] obtain r where "build_path H c now r = Inr p" by blast
  from build_path_fields [OF this] show ?thesis by simp
qed

lemma judged_path:
  assumes "judge_path H c i now p = Inr q" "pa_feasible p"
  shows "pa_hops q = pa_hops p \<and> pa_nodes q = pa_nodes p \<and> pa_metrics q = pa_metrics p \<and> pa_path_id q = pa_path_id p \<and>
    pa_policy_eligible q \<and> pa_policy_decision_id q = i \<and>
    (if pa_feasible q then pa_rejection_code q = pa_rejection_code p \<and> route_admissible c now q
     else pa_rejection_code q \<in> set candidate_rejection_codes)"
proof -
  from assms(1) obtain v u where v: "evaluate_feasibility H p c now = Inr v"
    and q: "q = v\<lparr>pa_policy_eligible := True, pa_policy_decision_id := i, pa_utility := u\<rparr>"
    by (rule judge_path_Inr)
  from v show ?thesis
  proof (cases rule: evaluate_feasibility_cases)
    case feasible
    have "route_admissible c now p" by (rule feasible_path_admissible) (use v feasible assms(2) in simp_all)
    with q feasible assms(2) show ?thesis by simp
  next
    case (rejected code unmet)
    with q show ?thesis by (auto simp: candidate_rejection_codes_def)
  qed
qed

lemma selected_cases:
  assumes "evaluate H c = Inr r" "rr_decision r = Some d" "rd_selected d = Some p"
  obtains b now co judged where "check_bindings H c = Inr b" "compute_decision H c b = Inr d"
    "parse_instant (rc_instant c) = Some now" "construct_candidates H c = Inr co"
    "mapE (judge_path H c (policy_id_of c) now) (co_paths co) = Inr judged"
    "filter pa_feasible (rank_candidates c judged) = p # rd_alternates d"
    "rd_rejected d = filter (\<lambda>p. \<not> pa_feasible p) (rank_candidates c judged)"
    "rd_candidates_considered d = int (length judged)"
proof -
  from assms(1) obtain b where b: "check_bindings H c = Inr b" "compute_decision H c b = Inr d"
    by (cases rule: evaluate_cases) (use assms(2) in \<open>auto simp: decided_def\<close>)
  note i = check_bindings_Inr(9) [OF b(1)]
  from b(2) show thesis
  proof (cases rule: compute_decision_cases)
    case (selected now co judged q)
    with that [OF b] assms(3) i show thesis by simp
  qed (use assms(3) in simp)
qed

section \<open>Completeness of the construction\<close>

lemma simple_route_probe:
  "simple_route (context_search c now adj) p \<Longrightarrow> simple_route (probe_search c now adj) p"
  by (auto simp: simple_route_def linked_def context_search_def probe_search_def)

section \<open>Claims that crash the evaluation\<close>

lemma foldE_raises:
  assumes "\<And>s. P s \<Longrightarrow> \<exists>e. f s c = Inl e \<and> E e"
    and "\<And>s x s'. P s \<Longrightarrow> f s x = Inr s' \<Longrightarrow> P s'" and "\<And>s x e. P s \<Longrightarrow> f s x = Inl e \<Longrightarrow> E e"
  shows "c \<in> set xs \<Longrightarrow> P s \<Longrightarrow> \<exists>e. foldE f s xs = Inl e \<and> E e"
proof (induction xs arbitrary: s)
  case (Cons x xs)
  show ?case
  proof (cases "f s x")
    case (Inl e)
    with assms(3) Cons.prems(2) show ?thesis by auto
  next
    case (Inr s')
    with assms(1) Cons.prems have "c \<in> set xs" by fastforce
    with Cons.IH assms(2) Cons.prems(2) Inr show ?thesis by auto
  qed
qed simp

lemma self_link_unsupported: "\<not> supported_link g now a a"
  by (auto simp: supported_link_def get_link_claims_def bindE_eq_Inr_iff make_link_subject_iff)

lemma add_usable_link_raises: "add_usable_link g now table x = Inl e \<Longrightarrow> \<exists>l. e = EscapedTopologyError l"
  by (auto simp: add_usable_link_def usable_link_evidence_def escape_link_def bindE_eq_Inl_iff Let_def
      split: if_splits sum.splits)

lemma self_link_breaks_table:
  assumes "x \<in> set (get_current_observations g now)" "tc_claim_type x = ''link-state''"
    and "parse_link_subject (tc_subject x) = Inr (a, a)" "\<not> identity_removed g a now"
  shows "\<exists>e. build_usable_link_table g now = Inl e \<and> (\<exists>l. e = EscapedTopologyError l)"
  unfolding build_usable_link_table_def
proof (rule foldE_raises [where P = "table_ok g now" and E = "\<lambda>e. \<exists>l. e = EscapedTopologyError l", OF _ _ _ assms(1)])
  fix table assume "table_ok g now table"
  then have "dget table (tc_subject x) = None"
    using assms(3) self_link_unsupported by (cases "dget table (tc_subject x)") (force simp: table_ok_def)+
  moreover obtain l where "get_link_claims g a a now = Inl l"
    by (cases "get_link_claims g a a now") (auto simp: get_link_claims_def bindE_eq_Inr_iff make_link_subject_iff)
  ultimately show "\<exists>e. add_usable_link g now table x = Inl e \<and> (\<exists>l. e = EscapedTopologyError l)"
    using assms(2-4) by (simp add: add_usable_link_def usable_link_evidence_def escape_link_def)
next
  show "table_ok g now []" by (simp add: table_ok_def)
qed (blast intro: add_usable_link_ok add_usable_link_raises)+

lemma transit_ignores_freshness:
  \<comment> \<open>the instant enters only through the identity state: stale reachability evidence counts\<close>
  "\<not> identity_removed g n now \<Longrightarrow> \<not> identity_removed g n later \<Longrightarrow>
     transit_allowed g n now = transit_allowed g n later"
  by (simp add: transit_allowed_def)

section \<open>The cache\<close>

inductive reachable_engine :: "(bytes \<Rightarrow> string) \<Rightarrow> routing_context list \<Rightarrow> routing_engine \<Rightarrow> bool"
  for H :: "bytes \<Rightarrow> string" where
  \<comment> \<open>an engine after evaluating the contexts, latest first, and possibly clearing its cache in between\<close>
  start: "reachable_engine H [] (make_engine use)"
| clear: "reachable_engine H cs en \<Longrightarrow> reachable_engine H cs (clear_cache en)"
| call: "reachable_engine H cs en \<Longrightarrow> engine_evaluate H en c = Inr (r, en') \<Longrightarrow> reachable_engine H (c # cs) en'"

definition answers :: "(bytes \<Rightarrow> string) \<Rightarrow> routing_context \<Rightarrow> string \<Rightarrow> route_decision \<Rightarrow> bool" where
  "answers H c key d \<longleftrightarrow> (\<exists>b. check_bindings H c = Inr b \<and> bi_routing_input_digest b = key \<and> compute_decision H c b = Inr d)"

lemma cache_filled:
  "reachable_engine H cs en \<Longrightarrow> dget (en_cache en) key = Some d \<Longrightarrow> \<exists>c \<in> set cs. answers H c key d"
proof (induction rule: reachable_engine.induct)
  case (call cs en c r en')
  from call.hyps(2) show ?case
  proof (cases rule: engine_evaluate_cases)
    case (computed b d')
    show ?thesis
    proof (cases "dget (en_cache en) key = Some d")
      case False
      with computed call.prems have "bi_routing_input_digest b = key" "d' = d" by (auto split: if_splits)
      with computed show ?thesis unfolding answers_def by auto
    qed (use call.IH in auto)
  qed (use call in auto)
qed (simp_all add: make_engine_def clear_cache_def)

lemma evaluate_answers: "answers H c key d \<Longrightarrow> evaluate H c = Inr (decided d)"
  by (auto simp: answers_def evaluate_def engine_evaluate_def evaluate_inner_def make_engine_def Let_def)

definition same_inputs :: "(bytes \<Rightarrow> string) \<Rightarrow> routing_context \<Rightarrow> routing_context \<Rightarrow> bool" where
  \<comment> \<open>the documents the input digest is taken over agree, or they exhibit a collision of the hash\<close>
  "same_inputs H c c' \<longleftrightarrow>
     (\<exists>v w. context_content H c = Inr v \<and> context_content H c' = Inr w \<and>
        (same_doc v w \<or>
         (\<exists>x y. canonical_bytes v = Inr x \<and> canonical_bytes w = Inr y \<and> x \<noteq> y \<and> H x = H y)))"

lemma routing_input_digest_Inr:
  "routing_input_digest H c = Inr k \<Longrightarrow>
     \<exists>v x. context_content H c = Inr v \<and> canonical_bytes v = Inr x \<and> k = H x"
  by (cases "context_content H c"; cases "canonical_bytes (projr (context_content H c))")
    (simp_all add: routing_input_digest_def)

lemma routing_input_digest_same:
  assumes "routing_input_digest H c = Inr k" "routing_input_digest H c' = Inr k"
  shows "same_inputs H c c'"
proof -
  from assms obtain v w x y where "context_content H c = Inr v" "context_content H c' = Inr w"
    "canonical_bytes v = Inr x" "canonical_bytes w = Inr y" "H x = H y"
    using routing_input_digest_Inr by metis
  then show ?thesis using canonical_bytes_same_doc [of v x w] unfolding same_inputs_def by (cases "x = y") auto
qed

section \<open>Termination of the search with a bound\<close>

primrec search_fuel :: "nat \<Rightarrow> search \<Rightarrow> search_state \<Rightarrow> search_state option" where
  \<comment> \<open>at most the given number of rounds of the \<open>while\<close> loop\<close>
  "search_fuel 0 se st = (if ss_queue st = [] then Some st else None)"
| "search_fuel (Suc n) se st =
     (case ss_queue st of
        [] \<Rightarrow> Some st
      | p # q \<Rightarrow>
          if se_max_hops se \<le> length (fst p) then search_fuel n se (st\<lparr>ss_queue := q\<rparr>)
          else
            (case expand_links se p (links_from se p) (st\<lparr>ss_queue := q\<rparr>) of
               Inl st' \<Rightarrow> Some st'
             | Inr st' \<Rightarrow> search_fuel n se st'))"

lemma search_fuel_enough:
  "sum_list (map (path_weight se) (ss_queue st)) \<le> n \<Longrightarrow> search_fuel n se st = Some (search_loop se st)"
proof (induction n arbitrary: st)
  case 0
  have "ss_queue st = []"
  proof (cases "ss_queue st")
    case (Cons p q)
    have "0 < path_weight se p" by (simp add: path_weight_def)
    with 0 Cons show ?thesis by simp
  qed
  then show ?case by (subst search_loop.simps) simp
next
  case (Suc n)
  show ?case
  proof (cases "ss_queue st")
    case Nil
    then show ?thesis by (subst search_loop.simps) simp
  next
    case (Cons p q)
    have w: "0 < path_weight se p" by (simp add: path_weight_def)
    show ?thesis
    proof (cases "se_max_hops se \<le> length (fst p)")
      case True
      have "search_fuel n se (st\<lparr>ss_queue := q\<rparr>) = Some (search_loop se (st\<lparr>ss_queue := q\<rparr>))"
        by (rule Suc.IH) (use Suc.prems Cons w in simp)
      with True Cons show ?thesis by (subst search_loop.simps) simp
    next
      case False
      show ?thesis
      proof (cases "expand_links se p (links_from se p) (st\<lparr>ss_queue := q\<rparr>)")
        case (Inl st')
        with False Cons show ?thesis by (subst search_loop.simps) simp
      next
        case (Inr st')
        have "search_fuel n se st' = Some (search_loop se st')"
          by (rule Suc.IH) (use expansion_weight [OF _ Inr] Suc.prems Cons False in simp)
        with False Cons Inr show ?thesis by (subst search_loop.simps) simp
      qed
    qed
  qed
qed

definition search_start :: "search \<Rightarrow> search_state" where
  "search_start se = \<lparr>ss_queue = [([], [se_source se])], ss_found = [], ss_transit_blocked = False, ss_metrics_blocked = False\<rparr>"

end
