(* ===== verification/Routing_Properties.thy ===== *)
theory Routing_Properties
  imports Routing_Outcome
begin

text \<open>
  What a routing decision promises, with a sample evaluation for the witnesses: two
  nodes, one link, one policy decision and one intent.
\<close>

declare split_paired_All [simp del] split_paired_Ex [simp del]

section \<open>A sample evaluation\<close>

definition sample_link :: string where
  "sample_link = ''link:'' @ sample_node CHR ''a'' @ '':'' @ sample_node CHR ''b''"

definition sample_graph :: "string \<Rightarrow> topology_graph" where
  \<comment> \<open>one claim that the subject is up\<close>
  "sample_graph subject = fst (graph_merge empty_graph
     (sample_claim (sample_node CHR ''a'') subject ''link-state'' ''self-advertisement'' (JStr ''up'') 1 ''x''))"

definition sample_policy :: policy_decision where
  "sample_policy = \<lparr>pd_decision_id = ''sha256:'' @ replicate 64 CHR ''a'', pd_effect = ''allow'', pd_code = ''allow'',
     pd_detail = '''', pd_matched_rule_ids = [''r1''], pd_policy_set_id = ''ps'', pd_policy_set_version = 1,
     pd_evaluation_instant = ''2024-01-01T00:00:00Z'', pd_conflict_trace = [], pd_extensions = []\<rparr>"

definition sample_metrics :: link_metrics where
  "sample_metrics = \<lparr>lm_latency_ms = 5, lm_loss_basis_points = 100, lm_capacity_bps = 1000, lm_energy_cost = 2,
     lm_confidence = 9000, lm_observed_at = ''2024-01-01T00:00:00Z'', lm_freshness_until = ''2024-03-01T00:00:00Z'',
     lm_monetary = None, lm_properties = [''quiet''], lm_evidence_refs = [], lm_provenance = ''''\<rparr>"

definition sample_intent :: "intent_constraint list \<Rightarrow> normalized_intent" where
  "sample_intent ks = \<lparr>in_digest = replicate 64 CHR ''b'', in_issued_at = ''2024-01-01T00:00:00Z'',
     in_expires_at = ''2024-03-01T00:00:00Z'', in_constraints = ks\<rparr>"

definition sample_context :: "string \<Rightarrow> intent_constraint list \<Rightarrow> routing_context" where
  "sample_context subject ks =
     \<lparr>rc_source = sample_node CHR ''a'', rc_destination = sample_node CHR ''b'', rc_topology = sample_graph subject,
      rc_resources = empty_store, rc_instant = ''2024-01-01T00:00:00Z'', rc_intent = Some (sample_intent ks),
      rc_policy = Some sample_policy, rc_link_metrics = [(sample_link, sample_metrics)], rc_link_resources = [],
      rc_node_labels = [], rc_expected_topology = '''', rc_expected_resource = '''', rc_expected_intent = '''',
      rc_expected_policy_set = '''', rc_expected_policy_version = 1, rc_max_hops = 8, rc_max_candidates = 16,
      rc_min_confidence = 5000, rc_rank_by_confidence = False, rc_extensions = []\<rparr>"

lemma sample_context_fields [simp]:
  "rc_source (sample_context subject ks) = sample_node CHR ''a''"
  "rc_destination (sample_context subject ks) = sample_node CHR ''b''"
  "rc_topology (sample_context subject ks) = sample_graph subject"
  "rc_resources (sample_context subject ks) = empty_store"
  "rc_instant (sample_context subject ks) = ''2024-01-01T00:00:00Z''"
  "rc_intent (sample_context subject ks) = Some (sample_intent ks)"
  "rc_policy (sample_context subject ks) = Some sample_policy"
  "rc_link_metrics (sample_context subject ks) = [(sample_link, sample_metrics)]"
  "rc_link_resources (sample_context subject ks) = []"
  "rc_node_labels (sample_context subject ks) = []"
  "rc_expected_topology (sample_context subject ks) = ''''"
  "rc_expected_resource (sample_context subject ks) = ''''"
  "rc_expected_intent (sample_context subject ks) = ''''"
  "rc_expected_policy_set (sample_context subject ks) = ''''"
  "rc_expected_policy_version (sample_context subject ks) = 1"
  "rc_max_hops (sample_context subject ks) = 8"
  "rc_max_candidates (sample_context subject ks) = 16"
  "rc_min_confidence (sample_context subject ks) = 5000"
  "rc_rank_by_confidence (sample_context subject ks) = False"
  "rc_extensions (sample_context subject ks) = []"
  by (simp_all add: sample_context_def)

lemma sample_graph_fields [simp]:
  "tg_current (sample_graph s) = [((sample_node CHR ''a'', s, ''link-state'', ''''),
     sample_claim (sample_node CHR ''a'') s ''link-state'' ''self-advertisement'' (JStr ''up'') 1 ''x'')]"
  "tg_conflicts (sample_graph s) = []" "tg_historical (sample_graph s) = [((sample_node CHR ''a'', s, ''link-state'', ''''), [])]"
  "tg_watermarks (sample_graph s) = [((sample_node CHR ''a'', s, ''link-state'', ''''), 1)]"
  by (simp_all add: sample_graph_def graph_merge_def empty_graph_def claim_key_def Let_def)

lemmas canonical_docs = graph_snapshot_def current_by_key_def sorted_claim_docs_def key_document_def claim_to_dict_def
  signed_view_def sorted_docs_def store_snapshot_def empty_store_def MAX_CANONICAL_DEPTH_def texts_doc_def

lemma sample_digests:
  "topology_digest sample_hash (sample_context s ks) = Inr (replicate 64 CHR ''a'')"
  "resource_digest sample_hash (sample_context s ks) = Inr (replicate 64 CHR ''a'')"
proof -
  have "canon_ok 0 (map_jval lit (graph_snapshot (sample_graph s)))"
    by (simp add: canonical_docs sample_claim_def)
  then obtain b where "canonical_bytes (graph_snapshot (sample_graph s)) = Inr b" by (rule canonical_ok)
  then show "topology_digest sample_hash (sample_context s ks) = Inr (replicate 64 CHR ''a'')"
    by (simp add: topology_digest_def graph_canonical_bytes_def escape_canon_def sample_hash_def)
  have "canon_ok 0 (map_jval lit (store_snapshot empty_store))" by (simp add: canonical_docs)
  then obtain b where "canonical_bytes (store_snapshot empty_store) = Inr b" by (rule canonical_ok)
  then show "resource_digest sample_hash (sample_context s ks) = Inr (replicate 64 CHR ''a'')"
    by (simp add: resource_digest_def store_canonical_bytes_def escape_canon_def sample_hash_def)
qed

lemma sample_content:
  obtains v b where "context_content sample_hash (sample_context s ks) = Inr v" "canonical_bytes v = Inr b"
proof -
  obtain v where v: "context_content sample_hash (sample_context s ks) = Inr v"
    by (simp add: context_content_def sample_digests)
  then have "canon_ok 0 (map_jval lit v)"
    by (auto simp: context_content_def sample_digests link_metrics_to_dict_def sample_metrics_def
        MAX_CANONICAL_DEPTH_def texts_doc_def)
  with v that show thesis by (metis canonical_ok)
qed

lemma sample_checks:
  "validate_context sample_hash (sample_context s ks) = Inr ()"
  "check_policy_binding sample_hash (sample_context s ks) = Inr ()"
  "check_intent_binding (sample_context s ks) = Inr ()"
proof -
  obtain v b where v: "context_content sample_hash (sample_context s ks) = Inr v" "canonical_bytes v = Inr b"
    by (rule sample_content)
  have "\<not> leaks_technology ''quiet''"
    by (simp add: leaks_technology_def FORBIDDEN_PROPERTY_TOKENS_def ascii_lower_def less_eq_char_def)
  then show "validate_context sample_hash (sample_context s ks) = Inr ()"
    using v by (simp add: validate_context_def escape_canon_def)
      (simp add: metrics_problem_def sample_metrics_def looks_secret_def ascii_lower_def secret_hints_def)
  have "canon_ok 0 (map_jval lit (policy_content sample_policy))"
    by (simp add: policy_content_def sample_policy_def MAX_CANONICAL_DEPTH_def texts_doc_def)
  then obtain b where b: "canonical_bytes (policy_content sample_policy) = Inr b" by (rule canonical_ok)
  have "policy_decision_is_tamper_evident sample_hash sample_policy = Inr True"
    by (simp add: tamper_evident_defs b) (simp add: sample_hash_def strip_sha256_def sample_policy_def)
  then show "check_policy_binding sample_hash (sample_context s ks) = Inr ()"
    by (simp add: check_policy_binding_def sample_times)
      (simp add: sample_policy_def sample_times)
  show "check_intent_binding (sample_context s ks) = Inr ()"
    by (simp add: check_intent_binding_def sample_intent_def sample_times)
qed

lemma sample_bindings:
  assumes "check_unsupported_hard_constraints (sample_context s ks) = Inr ()"
  obtains b where "check_bindings sample_hash (sample_context s ks) = Inr b"
    "bi_policy_decision_id b = ''sha256:'' @ replicate 64 CHR ''a''"
    "bi_input_digests b = [(''topology'', replicate 64 CHR ''a''), (''resources'', replicate 64 CHR ''a''), (''intent'', replicate 64 CHR ''b''),
      (''policy-decision'', ''sha256:'' @ replicate 64 CHR ''a''), (''routing-input'', replicate 64 CHR ''a'')]"
proof -
  obtain v b where v: "context_content sample_hash (sample_context s ks) = Inr v" "canonical_bytes v = Inr b"
    by (rule sample_content)
  then have "routing_input_digest sample_hash (sample_context s ks) = Inr (replicate 64 CHR ''a'')"
    by (simp add: routing_input_digest_def sample_hash_def)
  then show thesis
    using that by (simp add: check_bindings_def sample_digests sample_checks assms check_snapshot_consistency_def
        policy_id_of_def sample_policy_def sample_intent_def)
qed

lemma sample_link_parses: "parse_link_subject sample_link = Inr (sample_node CHR ''a'', sample_node CHR ''b'')"
  "make_link_subject (sample_node CHR ''a'') (sample_node CHR ''b'') = Inr sample_link"
  "sample_node CHR ''a'' \<noteq> sample_node CHR ''b''"
proof -
  show m: "make_link_subject (sample_node CHR ''a'') (sample_node CHR ''b'') = Inr sample_link"
    by (simp add: make_link_subject_iff sample_link_def min_def max_def less_eq_char_def)
  from parse_link_subject_iff show "parse_link_subject sample_link = Inr (sample_node CHR ''a'', sample_node CHR ''b'')"
    by (simp add: sample_link_def)
  show "sample_node CHR ''a'' \<noteq> sample_node CHR ''b''" by simp
qed

lemma py_up: "py_str (JStr s) = s"
  by (simp add: py_str_def)

lemma sample_table:
  "build_usable_link_table (sample_graph sample_link) 63839664000000000 =
     Inr [(sample_link, sample_node CHR ''a'', sample_node CHR ''b'')]"
  "usable_link_evidence (sample_graph sample_link) (sample_node CHR ''a'') (sample_node CHR ''b'') 63839664000000000
     = Inr ([''x''], True)"
proof -
  have ev: "usable_link_evidence (sample_graph sample_link) (sample_node CHR ''a'') (sample_node CHR ''b'') 63839664000000000
     = Inr ([''x''], True)"
    by (simp add: usable_link_evidence_def escape_link_def get_link_claims_def get_link_state_def current_by_key_def
        sample_link_parses worse_link_def link_rank_def non_remote_def py_up)
  then show "usable_link_evidence (sample_graph sample_link) (sample_node CHR ''a'') (sample_node CHR ''b'') 63839664000000000
     = Inr ([''x''], True)" .
  show "build_usable_link_table (sample_graph sample_link) 63839664000000000 =
     Inr [(sample_link, sample_node CHR ''a'', sample_node CHR ''b'')]"
    by (simp add: build_usable_link_table_def get_current_observations_def current_by_key_def add_usable_link_def
        sample_link_parses identity_removed_def get_identity_state_def ev)
qed

lemma sample_adjacency:
  "adjacency_of [(sample_link, sample_node CHR ''a'', sample_node CHR ''b'')] =
     [(sample_node CHR ''a'', [(sample_link, sample_node CHR ''b'')]), (sample_node CHR ''b'', [(sample_link, sample_node CHR ''a'')])]"
  using sample_link_parses(3) by (simp add: adjacency_of_def add_neighbour_def)

lemma one_hop_search:
  assumes "se_source se \<noteq> se_destination se" "0 < se_max_candidates se" "0 < se_max_hops se"
    and "se_adjacency se = [(se_source se, [(l, se_destination se)]), (se_destination se, [(l, se_source se)])]"
    and "se_require_metrics se \<longrightarrow> l \<in> se_metrics_keys se"
  shows "fst (enumerate_simple_paths se) = [([l], [se_source se, se_destination se])]"
proof -
  have s: "successors se ([], [se_source se]) = [([l], [se_source se, se_destination se])]"
    using assms by (simp add: successors_def extensions_def links_from_def)
  have a: "arrived se ([l], [se_source se, se_destination se])" by (simp add: arrived_def)
  obtain n where n: "se_max_hops se = Suc n" using assms(3) by (cases "se_max_hops se") auto
  have z: "level se (Suc k) = []" for k by (induction k) (simp_all add: s a)
  have "arrivals se 0 = [([l], [se_source se, se_destination se])]" by (simp add: arrivals_def s a)
  moreover have "arrivals se (Suc k) = []" for k unfolding arrivals_def z by simp
  ultimately have "concat (map (arrivals se) [0 ..< se_max_hops se]) = [([l], [se_source se, se_destination se])]"
    unfolding n upt_conv_Cons [OF zero_less_Suc] map_Suc_upt [symmetric] by (simp add: comp_def del: upt_Suc)
  then show ?thesis unfolding enumerate_exact [OF assms(1,2)] reference_paths_def using assms(2) by simp
qed

definition sample_path :: route_path where
  \<comment> \<open>the only candidate of the sample contexts\<close>
  "sample_path =
     \<lparr>pa_path_id = ''sha256:'' @ replicate 64 CHR ''a'', pa_source = sample_node CHR ''a'',
      pa_destination = sample_node CHR ''b'', pa_hops = [sample_link], pa_nodes = [sample_node CHR ''a'', sample_node CHR ''b''],
      pa_metrics = \<lparr>me_hop_count = 1, me_latency_ms = 5, me_reliability = 9900, me_capacity_bps = 1000,
        me_energy_cost = 2, me_confidence = 9000, me_expires_at = ''2024-03-01T00:00:00Z'', me_monetary = None\<rparr>,
      pa_feasible = True, pa_rejection_code = '''', pa_unmet = [], pa_policy_eligible = False, pa_policy_decision_id = '''',
      pa_utility = 0, pa_evidence_refs = [''x'']\<rparr>"

lemma sample_path_id:
  "derive_path_id sample_hash (sample_node CHR ''a'') (sample_node CHR ''b'') [sample_link]
     [sample_node CHR ''a'', sample_node CHR ''b''] = Inr (''sha256:'' @ replicate 64 CHR ''a'')"
proof -
  have "canon_ok 0 (map_jval lit (path_document (sample_node CHR ''a'') (sample_node CHR ''b'') [sample_link]
     [sample_node CHR ''a'', sample_node CHR ''b'']))"
    by (simp add: path_document_def texts_doc_def MAX_CANONICAL_DEPTH_def)
  then obtain b where "canonical_bytes (path_document (sample_node CHR ''a'') (sample_node CHR ''b'') [sample_link]
     [sample_node CHR ''a'', sample_node CHR ''b'']) = Inr b" by (rule canonical_ok)
  then show ?thesis by (simp add: derive_path_id_def sample_hash_def)
qed

lemma sample_construct:
  "\<exists>co. construct_candidates sample_hash (sample_context sample_link ks) = Inr co \<and> co_connected co \<and> co_paths co = [sample_path]"
proof -
  let ?c = "sample_context sample_link ks" and ?now = "63839664000000000 :: int"
  let ?adj = "adjacency_of [(sample_link, sample_node CHR ''a'', sample_node CHR ''b'')]"
  note ne = sample_link_parses(3)
  have "fst (enumerate_simple_paths (probe_search ?c ?now ?adj)) = [([sample_link], [sample_node CHR ''a'', sample_node CHR ''b''])]"
    by (subst one_hop_search [where l = sample_link])
      (simp_all add: probe_search_def context_search_def sample_adjacency MAX_PROBE_HOPS_def)
  moreover have "fst (enumerate_simple_paths (context_search ?c ?now ?adj)) = [([sample_link], [sample_node CHR ''a'', sample_node CHR ''b''])]"
    by (subst one_hop_search [where l = sample_link]) (simp_all add: context_search_def sample_adjacency)
  then obtain bl where "enumerate_simple_paths (context_search ?c ?now ?adj)
      = ([([sample_link], [sample_node CHR ''a'', sample_node CHR ''b''])], bl)" by (metis prod.collapse)
  moreover have met: "metrics_of ?c sample_link = sample_metrics" by (simp add: metrics_of_def)
  have "hop_evidence ?c ?now sample_link = Inr [''x'']"
    by (simp add: hop_evidence_def sample_link_parses escape_link_def sample_table met) (simp add: sample_metrics_def)
  then have "build_path sample_hash ?c ?now ([sample_link], [sample_node CHR ''a'', sample_node CHR ''b'']) = Inr sample_path"
    by (simp add: build_path_def met aggregate_link_metrics_def make_route_metrics_def min_list_by_def sample_metrics_def
        require_int_def require_bp_def check_optional_cost_def sample_times MAX_BASIS_POINTS_def sample_path_id
        make_path_def sample_path_def)
  ultimately show ?thesis
    by (simp add: construct_candidates_def parse_evaluation_instant_def sample_times ne sample_table)
qed

lemma sample_evaluate_feasibility:
  assumes "unmet_hard_constraints sample_path (sample_context s ks) = Inr unmet"
  shows "evaluate_feasibility sample_hash sample_path (sample_context s ks) 63839664000000000 =
     (if unmet = [] then Inr sample_path
      else rejected_path sample_hash sample_path ''hard-constraint-unsatisfied'' unmet)"
proof -
  have f: "pa_hops sample_path = [sample_link]" "me_confidence (pa_metrics sample_path) = 9000" by (simp_all add: sample_path_def)
  have "path_bindings (sample_context s ks) sample_path = []" by (simp add: path_bindings_def bindings_of_def f)
  then have "resources_bound_available sample_path (sample_context s ks) 63839664000000000 = Inr True"
    by (simp add: resources_bound_available_def energy_costs_def)
  moreover have "metrics_of (sample_context s ks) sample_link = sample_metrics" by (simp add: metrics_of_def)
  ultimately show ?thesis
    by (simp add: evaluate_feasibility_def f assms link_fresh_at_def within_def) (simp add: sample_metrics_def sample_times)
qed

definition sample_constraint :: "int \<Rightarrow> intent_constraint" where
  "sample_constraint ms = \<lparr>ic_constraint_id = ''k'', ic_dimension = ''latency'', ic_operator = ''<='', ic_value = JInt ms,
     ic_hardness = ''hard'', ic_weight = 0\<rparr>"

lemma sample_unmet:
  "unmet_hard_constraints sample_path (sample_context s [sample_constraint ms]) = Inr (if 5 \<le> ms then [] else [''k''])"
  by (simp add: unmet_hard_constraints_def constraints_of_def sample_intent_def sample_constraint_def
      constraint_satisfied_def label_dimensions_def path_metric_value_def sample_path_def numeric_satisfied_def as_int_def)

lemma sample_checks_constraint: "check_unsupported_hard_constraints (sample_context s [sample_constraint ms]) = Inr ()"
  by (simp add: check_unsupported_hard_constraints_def constraints_of_def sample_intent_def sample_constraint_def
      label_dimensions_def)

lemma sample_evaluates_bound:
  assumes "5 \<le> ms"
  shows "\<exists>d. evaluate sample_hash (sample_context sample_link [sample_constraint ms]) = Inr (decided d) \<and>
     rd_selected d = Some (sample_path\<lparr>pa_policy_eligible := True,
       pa_policy_decision_id := ''sha256:'' @ replicate 64 CHR ''a''\<rparr>)"
proof -
  let ?c = "sample_context sample_link [sample_constraint ms]"
  let ?p = "sample_path\<lparr>pa_policy_eligible := True, pa_policy_decision_id := ''sha256:'' @ replicate 64 CHR ''a''\<rparr>"
  obtain b where b: "check_bindings sample_hash ?c = Inr b" "bi_policy_decision_id b = ''sha256:'' @ replicate 64 CHR ''a''"
    "bi_input_digests b = [(''topology'', replicate 64 CHR ''a''), (''resources'', replicate 64 CHR ''a''), (''intent'', replicate 64 CHR ''b''),
      (''policy-decision'', ''sha256:'' @ replicate 64 CHR ''a''), (''routing-input'', replicate 64 CHR ''a'')]"
    by (rule sample_bindings [OF sample_checks_constraint [of sample_link ms]])
  obtain co where co: "construct_candidates sample_hash ?c = Inr co" "co_connected co" "co_paths co = [sample_path]"
    using sample_construct by blast
  have fe: "pa_feasible sample_path" "pa_rejection_code sample_path = ''''" "pa_utility sample_path = 0" by (simp_all add: sample_path_def)
  have "utility_score sample_path ?c = Inr 0"
    by (simp add: utility_score_def constraints_of_def sample_intent_def sample_constraint_def)
  then have j: "judge_path sample_hash ?c (bi_policy_decision_id b) 63839664000000000 sample_path = Inr ?p"
    by (simp add: judge_path_def sample_evaluate_feasibility [OF sample_unmet] assms b make_path_def)
      (simp add: sample_path_def sample_path_id)
  let ?d = "\<lparr>rd_decision_id = ''placeholder'', rd_code = ''selected'', rd_detail = selected_detail ?p 0 0,
        rd_selected = Some ?p, rd_alternates = [], rd_rejected = [], rd_candidates_considered = 1,
        rd_policy_decision_id = bi_policy_decision_id b, rd_computation_instant = ''2024-01-01T00:00:00Z'',
        rd_input_digests = bi_input_digests b, rd_extensions = []\<rparr>"
  have "canon_ok 0 (map_jval lit (decision_content ?d))"
    by (simp add: decision_content_def b pairs_doc_def MAX_CANONICAL_DEPTH_def)
  then obtain bs where bs: "canonical_bytes (decision_content ?d) = Inr bs" by (rule canonical_ok)
  have m: "make_decision (?d\<lparr>rd_decision_id := i\<rparr>) = Inr (?d\<lparr>rd_decision_id := i\<rparr>)" if "i \<noteq> ''''" for i
    using that by (simp add: make_decision_def b route_codes_def require_int_def sample_times)
  have "finish_decision sample_hash ?d = Inr (?d\<lparr>rd_decision_id := ''sha256:'' @ replicate 64 CHR ''a''\<rparr>)"
    using m [of "''placeholder''"] m [of "''sha256:'' @ replicate 64 CHR ''a''"] bs
    by (simp add: finish_decision_def derive_decision_id_def sample_hash_def)
  then have "compute_decision sample_hash ?c b = Inr (?d\<lparr>rd_decision_id := ''sha256:'' @ replicate 64 CHR ''a''\<rparr>)"
    by (simp add: compute_decision_def parse_evaluation_instant_def sample_times co j rank_candidates_def fe Let_def)
  then have "evaluate sample_hash ?c = Inr (decided (?d\<lparr>rd_decision_id := ''sha256:'' @ replicate 64 CHR ''a''\<rparr>))"
    by (intro evaluate_answers) (auto simp: answers_def b)
  then show ?thesis by auto
qed

lemma sample_evaluates:
  "\<exists>d. evaluate sample_hash (sample_context sample_link [sample_constraint 9]) = Inr (decided d) \<and>
     rd_selected d = Some (sample_path\<lparr>pa_policy_eligible := True,
       pa_policy_decision_id := ''sha256:'' @ replicate 64 CHR ''a''\<rparr>)"
  by (rule sample_evaluates_bound) simp

lemma sample_context_made: "make_context (sample_context s ks) = Inr (sample_context s ks)"
  by (simp add: make_context_def require_int_def require_bp_def bool_all_in_def sample_times MAX_BASIS_POINTS_def
      sample_link_def)

definition sample_search :: search where
  "sample_search = \<lparr>se_source = sample_node CHR ''a'', se_destination = sample_node CHR ''b'',
     se_adjacency = adjacency_of [(sample_link, sample_node CHR ''a'', sample_node CHR ''b'')], se_max_hops = 2,
     se_max_candidates = 1, se_require_metrics = False, se_require_transit = False, se_metrics_keys = {},
     se_transit = (\<lambda>_. True)\<rparr>"

lemma sample_search_fields:
  "se_source sample_search = sample_node CHR ''a''" "se_destination sample_search = sample_node CHR ''b''"
  "se_max_hops sample_search = 2" "se_max_candidates sample_search = 1"
  by (simp_all add: sample_search_def)

section \<open>Properties\<close>

definition comparison :: "string \<Rightarrow> int \<Rightarrow> int \<Rightarrow> bool" where
  "comparison operator actual target \<longleftrightarrow>
     operator = ''>='' \<and> target \<le> actual \<or> operator = ''<='' \<and> actual \<le> target \<or>
     operator = ''>'' \<and> target < actual \<or> operator = ''<'' \<and> actual < target \<or>
     operator = ''='' \<and> actual = target \<or> operator = ''!='' \<and> actual \<noteq> target"

definition hard_constraint_met :: "route_path \<Rightarrow> routing_context \<Rightarrow> intent_constraint \<Rightarrow> bool" where
  \<comment> \<open>what the code accepts as meeting a hard constraint: a label is carried by every node
     (locality) or every link, or for \<open>!=\<close> not by all of them; a number compares with the
     path's metric, which must exist; a value that is no number counts as 0\<close>
  "hard_constraint_met p c k \<longleftrightarrow>
     (if ic_dimension k \<in> set label_dimensions then
        let missing = (if ic_dimension k = ''locality''
              then {n \<in> set (pa_nodes p). as_label (ic_value k) \<notin> set (dgetd (rc_node_labels c) n [])}
              else {s \<in> set (pa_hops p). as_label (ic_value k) \<notin> set (lm_properties (metrics_of c s))})
        in ic_operator k = ''='' \<and> missing = {} \<or> ic_operator k = ''!='' \<and> missing \<noteq> {}
      else \<exists>actual. path_metric_value p (ic_dimension k) = Some actual \<and>
             comparison (ic_operator k) actual (case as_int (ic_value k) of None \<Rightarrow> 0 | Some t \<Rightarrow> t))"

lemma numeric_satisfied_comparison: "numeric_satisfied actual op target = Inr True \<Longrightarrow> comparison op actual target"
  by (auto simp: numeric_satisfied_def comparison_def split: if_splits)

lemma constraint_satisfied_met:
  assumes "constraint_satisfied p c k = Inr True"
  shows "hard_constraint_met p c k"
proof (cases "ic_dimension k \<in> set label_dimensions")
  case True
  with assms have l: "label_satisfied (label_members p c (ic_dimension k) (as_label (ic_value k))) (ic_operator k) = Inr True"
    by (simp add: constraint_satisfied_def)
  let ?missing = "if ic_dimension k = ''locality''
      then {n \<in> set (pa_nodes p). as_label (ic_value k) \<notin> set (dgetd (rc_node_labels c) n [])}
      else {s \<in> set (pa_hops p). as_label (ic_value k) \<notin> set (lm_properties (metrics_of c s))}"
  have "label_members p c (ic_dimension k) (as_label (ic_value k)) \<longleftrightarrow> ?missing = {}"
    by (auto simp: label_members_def list_all_iff)
  with l have "ic_operator k = ''='' \<and> ?missing = {} \<or> ic_operator k = ''!='' \<and> ?missing \<noteq> {}"
    unfolding label_satisfied_def by (auto split: if_split_asm)
  with True show ?thesis by (simp add: hard_constraint_met_def Let_def)
next
  case False
  with assms show ?thesis
    by (auto simp: constraint_satisfied_def hard_constraint_met_def intro: numeric_satisfied_comparison split: option.splits)
qed

lemma selected_hard_constraints:
  assumes "evaluate H c = Inr r" "rr_decision r = Some d" "rd_selected d = Some p"
    and "k \<in> set (constraints_of c)" "ic_hardness k = ''hard''"
  shows "hard_constraint_met p c k"
proof -
  from assms(1-3) obtain now co judged where now: "parse_instant (rc_instant c) = Some now"
    and co: "construct_candidates H c = Inr co"
    and j: "mapE (judge_path H c (policy_id_of c) now) (co_paths co) = Inr judged"
    and f: "filter pa_feasible (rank_candidates c judged) = p # rd_alternates d"
    by (rule selected_cases)
  have "p \<in> set (filter pa_feasible (rank_candidates c judged))" by (simp add: f)
  then have p: "pa_feasible p" "p \<in> set judged" by (simp_all add: rank_candidates_props)
  from mapE_mem [OF j p(2)] obtain q where q: "q \<in> set (co_paths co)" "judge_path H c (policy_id_of c) now q = Inr p"
    by blast
  have "route_admissible c now p" using judged_path [OF q(2) conjunct1 [OF constructed_fields [OF co q(1)]]] p(1) by simp
  then show ?thesis using constraint_satisfied_met assms(4,5) by (simp add: route_admissible_def)
qed

text \<open>
  C1: A selected route is sound: it is a simple path from the source to the destination
  within the hop bound; every hop is a link that its subject names, that is up and that
  fresh non-remote evidence supports between nodes not removed; every transit node is not
  removed and has non-remote reachability evidence, which may have expired, as the code
  does not look at its freshness; every link fact is fresh and the path's metrics
  aggregate the link facts; every hard constraint of the intent is met in the code's
  sense, in which a label is avoided (\<open>!=\<close>) when not every node or link carries it; and
  every bound resource covers its demand.
\<close>

theorem selected_route_admissible:
  assumes "make_context c0 = Inr c" "evaluate H c = Inr r" "rr_decision r = Some d" "rd_selected d = Some p"
  shows "\<exists>now. parse_instant (rc_instant c) = Some now \<and> candidate_ok c now p \<and> route_admissible c now p \<and>
    (\<forall>k \<in> set (constraints_of c). ic_hardness k = ''hard'' \<longrightarrow> hard_constraint_met p c k) \<and>
    aggregate_link_metrics (map (metrics_of c) (pa_hops p)) = Inr (pa_metrics p)"
proof -
  from assms(2-4) obtain now co judged where now: "parse_instant (rc_instant c) = Some now"
    and co: "construct_candidates H c = Inr co"
    and j: "mapE (judge_path H c (policy_id_of c) now) (co_paths co) = Inr judged"
    and f: "filter pa_feasible (rank_candidates c judged) = p # rd_alternates d"
    by (rule selected_cases)
  have "p \<in> set (filter pa_feasible (rank_candidates c judged))" by (simp add: f)
  then have p: "pa_feasible p" "p \<in> set judged" by (simp_all add: rank_candidates_props)
  from mapE_mem [OF j p(2)] obtain q where q: "q \<in> set (co_paths co)" "judge_path H c (policy_id_of c) now q = Inr p"
    by blast
  note qf = constructed_fields [OF co q(1)]
  note pf = judged_path [OF q(2) conjunct1 [OF qf]]
  have "candidate_ok c now p"
    using construct_candidates_ok(2) [OF assms(1) co now q(1)] pf candidate_ok_fields [of p q] by simp
  moreover have "route_admissible c now p" using pf p(1) by simp
  moreover have "\<forall>k \<in> set (constraints_of c). ic_hardness k = ''hard'' \<longrightarrow> hard_constraint_met p c k"
    using selected_hard_constraints [OF assms(2-4)] by blast
  ultimately show ?thesis using now pf qf by auto
qed

theorem selected_route_admissible_witness:
  "\<exists>d p. evaluate sample_hash (sample_context sample_link [sample_constraint 9]) = Inr (decided d) \<and>
     rd_selected d = Some p \<and> candidate_ok (sample_context sample_link [sample_constraint 9]) 63839664000000000 p \<and>
     route_admissible (sample_context sample_link [sample_constraint 9]) 63839664000000000 p"
proof -
  obtain d p where d: "evaluate sample_hash (sample_context sample_link [sample_constraint 9]) = Inr (decided d)"
    "rd_selected d = Some p" using sample_evaluates by blast
  have "rr_decision (decided d) = Some d" by (simp add: decided_def)
  from selected_route_admissible [OF sample_context_made d(1) this d(2)] d show ?thesis by (auto simp: sample_times)
qed

text \<open>
  C3: The selected route is the best of all feasible candidates in the frozen order;
  alternates and rejected candidates are sorted by it, and together with the selected
  route they are exactly the judged candidates: none is dropped or invented.
\<close>

theorem selected_route_is_best:
  assumes "evaluate H c = Inr r" "rr_decision r = Some d" "rd_selected d = Some p"
  shows "\<exists>now co judged. parse_instant (rc_instant c) = Some now \<and> construct_candidates H c = Inr co \<and>
    mapE (judge_path H c (policy_id_of c) now) (co_paths co) = Inr judged \<and>
    mset (p # rd_alternates d @ rd_rejected d) = mset judged \<and>
    (\<forall>q \<in> set judged. pa_feasible q \<longrightarrow> rank_sort_key c p \<le> rank_sort_key c q) \<and>
    sorted (map (rank_sort_key c) (p # rd_alternates d)) \<and> sorted (map (rank_sort_key c) (rd_rejected d))"
proof -
  from assms obtain now co judged where now: "parse_instant (rc_instant c) = Some now"
    and co: "construct_candidates H c = Inr co"
    and j: "mapE (judge_path H c (policy_id_of c) now) (co_paths co) = Inr judged"
    and f: "filter pa_feasible (rank_candidates c judged) = p # rd_alternates d"
    and g: "rd_rejected d = filter (\<lambda>p. \<not> pa_feasible p) (rank_candidates c judged)"
    by (rule selected_cases)
  have s: "sorted (map (rank_sort_key c) (filter P (rank_candidates c judged)))" for P
    using rank_candidates_props(3) by (rule sorted_filter)
  have "p # rd_alternates d @ rd_rejected d = filter pa_feasible (rank_candidates c judged) @
      filter (\<lambda>p. \<not> pa_feasible p) (rank_candidates c judged)" using f g by simp
  then have "mset (p # rd_alternates d @ rd_rejected d) = mset judged"
    by (simp only: mset_append mset_filter rank_candidates_props(4) multiset_partition [symmetric])
  moreover from s [of pa_feasible] have sp: "sorted (map (rank_sort_key c) (p # rd_alternates d))" by (simp only: f)
  moreover have "rank_sort_key c p \<le> rank_sort_key c q" if "q \<in> set judged" "pa_feasible q" for q
  proof -
    have "q \<in> set (filter pa_feasible (rank_candidates c judged))" using that by (simp add: rank_candidates_props)
    then have "q \<in> set (p # rd_alternates d)" by (simp only: f)
    with sp show ?thesis by auto
  qed
  ultimately show ?thesis using now co j s [of "\<lambda>p. \<not> pa_feasible p"] g by auto
qed

theorem selected_route_is_best_witness:
  "\<exists>d p judged. evaluate sample_hash (sample_context sample_link [sample_constraint 9]) = Inr (decided d) \<and>
     rd_selected d = Some p \<and> mset (p # rd_alternates d @ rd_rejected d) = mset judged \<and> length judged = 1"
proof -
  let ?c = "sample_context sample_link [sample_constraint 9]"
  obtain d p where d: "evaluate sample_hash ?c = Inr (decided d)" "rd_selected d = Some p" using sample_evaluates by blast
  have "rr_decision (decided d) = Some d" by (simp add: decided_def)
  from selected_route_is_best [OF d(1) this d(2)] obtain now co judged where j: "construct_candidates sample_hash ?c = Inr co"
    "mapE (judge_path sample_hash ?c (policy_id_of ?c) now) (co_paths co) = Inr judged"
    "mset (p # rd_alternates d @ rd_rejected d) = mset judged" by blast
  from sample_construct [of "[sample_constraint 9]"] j(1) have "co_paths co = [sample_path]" by auto
  with mapE_length [OF j(2)] j(3) d show ?thesis by auto
qed

text \<open>
  C2: No decision without authorisation, whatever the cache holds: an engine that answers
  with a decision was given a policy decision that allows, whose id commits to its
  content, of the expected policy set and version and not later than the routing
  instant, and an intent that is the expected one, issued and not expired.
\<close>

theorem routing_needs_policy:
  assumes "engine_evaluate H en c = Inr (r, en')" "rr_ok r"
  shows "(\<exists>p. policy_allows H c p) \<and> (\<forall>i. rc_intent c = Some i \<longrightarrow> intent_current c i)"
proof -
  from assms(1) obtain b where "check_bindings H c = Inr b"
    by (cases rule: engine_evaluate_cases) (use assms(2) in simp_all)
  from check_bindings_Inr(1,2) [OF this] show ?thesis using check_policy_binding_Inr check_intent_binding_Inr by blast
qed

theorem routing_needs_policy_witness:
  "\<exists>p. policy_allows sample_hash (sample_context sample_link [sample_constraint 9]) p"
proof -
  obtain d en where "engine_evaluate sample_hash (make_engine False) (sample_context sample_link [sample_constraint 9]) = Inr (decided d, en)"
    using sample_evaluates by (auto simp: evaluate_def bindE_eq_Inr_iff)
  from routing_needs_policy [OF this] show ?thesis by (simp add: decided_def)
qed

text \<open>
  Every result is well formed: a decision comes with \<open>ok\<close> and its code is one of the
  three decision codes, \<open>selected\<close> exactly when a path is; alternates are feasible,
  rejected candidates are not; and the decision id is the digest of the canonical bytes
  of the decision's own content.
\<close>

theorem decision_well_formed:
  assumes "evaluate H c = Inr r"
  shows "case rr_decision r of None \<Rightarrow> \<not> rr_ok r
    | Some d \<Rightarrow> rr_ok r \<and> rr_code r = rd_code d \<and>
        rd_code d \<in> {''selected'', ''topology-disconnected'', ''no-feasible-path''} \<and>
        (rd_code d = ''selected'' \<longleftrightarrow> rd_selected d \<noteq> None) \<and>
        list_all pa_feasible (rd_alternates d) \<and> list_all (\<lambda>p. \<not> pa_feasible p) (rd_rejected d) \<and>
        rd_policy_decision_id d = policy_id_of c \<and>
        (\<exists>b. canonical_bytes (decision_content d) = Inr b \<and> rd_decision_id d = ''sha256:'' @ H b)"
  using assms
proof (cases rule: evaluate_cases)
  case (computed b d)
  have fin: "finish_decision H (d\<lparr>rd_decision_id := ''placeholder''\<rparr>) = Inr d" and
    code: "rd_code d \<in> {''selected'', ''topology-disconnected'', ''no-feasible-path''}" and
    pol: "rd_policy_decision_id d = policy_id_of c"
    using computed(2) by (rule compute_decision_cases; use check_bindings_Inr(9) [OF computed(1)] in simp)+
  from fin obtain i where i: "d = d\<lparr>rd_decision_id := i\<rparr>" "derive_decision_id H d = Inr i" "make_decision d = Inr d"
    by (rule finish_decision_Inr) (use that in simp)
  from i(1) have "rd_decision_id d = i" by (metis route_decision.select_convs(1) route_decision.surjective route_decision.update_convs(1))
  with i(2) have "\<exists>b. canonical_bytes (decision_content d) = Inr b \<and> rd_decision_id d = ''sha256:'' @ H b"
    by (auto simp: derive_decision_id_def split: sum.splits)
  with i(3) code pol computed(3) show ?thesis
    by (simp add: decided_def make_decision_def bindE_eq_Inr_iff split: if_splits)
qed simp

theorem decision_well_formed_witness:
  "\<exists>d b. evaluate sample_hash (sample_context sample_link [sample_constraint 9]) = Inr (decided d) \<and>
     canonical_bytes (decision_content d) = Inr b \<and> rd_decision_id d = ''sha256:'' @ sample_hash b"
proof -
  obtain d where d: "evaluate sample_hash (sample_context sample_link [sample_constraint 9]) = Inr (decided d)"
    using sample_evaluates by blast
  from decision_well_formed [OF this] d show ?thesis by (auto simp: decided_def)
qed

text \<open>
  C14: The breadth-first enumeration is exact: it returns the first \<open>max_candidates\<close> of the
  list of all simple routes within the hop bound, shortest first, and a path is on level
  \<open>k\<close> of that list exactly when it is a simple route of \<open>k + 1\<close> hops.
\<close>

theorem search_is_exact:
  assumes "se_source se \<noteq> se_destination se" "0 < se_max_candidates se"
  shows "fst (enumerate_simple_paths se)
      = take (se_max_candidates se) (concat (map (arrivals se) [0 ..< se_max_hops se])) \<and>
    (\<forall>k p. p \<in> set (arrivals se k) \<longleftrightarrow> simple_route se p \<and> length (fst p) = Suc k)"
  using enumerate_exact [OF assms] arrivals_iff [OF assms(1)] by (simp add: reference_paths_def)

theorem search_is_exact_witness:
  "fst (enumerate_simple_paths sample_search) = take 1 (concat (map (arrivals sample_search) [0 ..< 2]))"
  using search_is_exact [of sample_search] sample_link_parses(3) by (simp only: sample_search_fields simp_thms zero_less_one)

text \<open>
  C16: The search always ends: with \<open>D\<close> the largest number of links at a node and \<open>h\<close> the hop
  bound, \<open>(D + 2) ^ h\<close> rounds of its loop are enough.
\<close>

theorem search_terminates:
  "search_fuel ((degree_bound se + 2) ^ se_max_hops se) se (search_start se) = Some (search_loop se (search_start se))"
  by (rule search_fuel_enough) (simp add: search_start_def path_weight_def)

text \<open>
  C15: No route is missed: every simple route over usable links with link facts, through
  permitted transit nodes and within the hop bound is a candidate, unless
  \<open>max_candidates\<close> candidates were returned that are all at most as long.
\<close>

theorem construct_complete:
  assumes "make_context c0 = Inr c" "construct_candidates H c = Inr co" "parse_instant (rc_instant c) = Some now"
    and "build_usable_link_table (rc_topology c) now = Inr table"
    and "simple_route (context_search c now (adjacency_of table)) p" "length (fst p) \<le> nat (rc_max_hops c)"
  shows "(\<exists>q \<in> set (co_paths co). pa_hops q = fst p \<and> pa_nodes q = snd p) \<or>
    length (co_paths co) = nat (rc_max_candidates c) \<and> (\<forall>q \<in> set (co_paths co). length (pa_hops q) \<le> length (fst p))"
proof -
  let ?adj = "adjacency_of table"
  let ?se = "context_search c now ?adj" and ?probe = "probe_search c now ?adj"
  from construct_candidates_cases [OF assms(2)] assms(3,4) have ends: "rc_source c \<noteq> rc_destination c"
    and con: "co_connected co \<longleftrightarrow> fst (enumerate_simple_paths ?probe) \<noteq> []"
    and m: "mapE (build_path H c now) (if co_connected co then fst (enumerate_simple_paths ?se) else []) = Inr (co_paths co)"
    by (metis option.inject sum.inject(2))+
  have "se_source ?probe \<noteq> se_destination ?probe" "0 < se_max_candidates ?probe" "se_max_candidates ?probe = 1"
    using ends by (simp_all add: context_search_def probe_search_def)
  note probe = search_finds(4) [OF this(1,2) refl simple_route_probe [OF assms(5)]] this(3)
  have "rc_max_hops c \<le> 64" using assms(1)
    by (auto simp: make_context_def bindE_eq_Inr_iff require_int_def split: if_splits)
  with assms(6) have "length (fst p) \<le> se_max_hops ?probe" by (simp add: probe_search_def MAX_PROBE_HOPS_def)
  then have c: "co_connected co" using probe con by (metis empty_iff empty_set list.size(3) zero_neq_one)
  let ?raw = "fst (enumerate_simple_paths ?se)"
  have m: "mapE (build_path H c now) ?raw = Inr (co_paths co)" using m c by simp
  then have all2: "list_all2 (\<lambda>x y. build_path H c now x = Inr y) ?raw (co_paths co)" by (simp add: mapE_eq_Inr_iff)
  have "se_source ?se \<noteq> se_destination ?se" "0 < se_max_candidates ?se"
    using ends context_bounds(1) [OF assms(1)] by (simp_all add: context_search_def)
  note found = search_finds(4) [OF this refl assms(5)]
  show ?thesis
  proof (cases "p \<in> set ?raw")
    case True
    then obtain i where i: "i < length ?raw" "?raw ! i = p" by (meson in_set_conv_nth)
    with list_all2_nthD [OF all2 i(1)] have "build_path H c now p = Inr (co_paths co ! i)" by simp
    moreover have "co_paths co ! i \<in> set (co_paths co)" using i(1) list_all2_lengthD [OF all2] by simp
    ultimately show ?thesis using build_path_fields by blast
  next
    case False
    have "length (fst p) \<le> se_max_hops ?se" using assms(6) by (simp add: context_search_def)
    from found [OF this False] have "length ?raw = nat (rc_max_candidates c)"
      and le: "\<forall>q \<in> set ?raw. length (fst q) \<le> length (fst p)" by (simp_all add: context_search_def)
    moreover have "length (pa_hops q) \<le> length (fst p)" if "q \<in> set (co_paths co)" for q
      using mapE_mem [OF m that] le build_path_fields by metis
    ultimately show ?thesis using mapE_length [OF m] by simp
  qed
qed

theorem construct_complete_witness:
  "\<exists>co. construct_candidates sample_hash (sample_context sample_link []) = Inr co \<and>
     (\<exists>q \<in> set (co_paths co). pa_hops q = [sample_link])"
proof -
  let ?c = "sample_context sample_link []"
  obtain co where co: "construct_candidates sample_hash ?c = Inr co" "co_paths co = [sample_path]"
    using sample_construct by blast
  have t: "parse_instant (rc_instant ?c) = Some 63839664000000000"
    "build_usable_link_table (rc_topology ?c) 63839664000000000 = Inr [(sample_link, sample_node CHR ''a'', sample_node CHR ''b'')]"
    by (simp_all add: sample_times sample_table)
  have r: "simple_route (context_search ?c 63839664000000000 (adjacency_of [(sample_link, sample_node CHR ''a'', sample_node CHR ''b'')]))
      ([sample_link], [sample_node CHR ''a'', sample_node CHR ''b''])"
    using sample_link_parses(3) by (simp add: simple_route_def linked_def context_search_def sample_adjacency)
  have "length (fst ([sample_link], [sample_node CHR ''a'', sample_node CHR ''b''])) \<le> nat (rc_max_hops ?c)" by simp
  from construct_complete [OF sample_context_made co(1) t r this] co show ?thesis by auto
qed

text \<open>
  C4: The cache is an optimisation only: after any history of evaluations and clearings,
  an answer is the one a fresh engine without cache gives to this context or to an
  earlier one whose document of routing inputs is the same, or collides under the hash.
\<close>

theorem cache_answers:
  assumes "reachable_engine H cs en" "engine_evaluate H en c = Inr (r, en')"
  shows "\<exists>c' \<in> set (c # cs). evaluate H c' = Inr r \<and> (c' = c \<or> same_inputs H c c')"
  using assms(2)
proof (cases rule: engine_evaluate_cases)
  case (refused code)
  then have "evaluate H c = Inr r"
    by (auto simp: evaluate_def engine_evaluate_def evaluate_inner_def make_engine_def bindE_eq_Inl_iff Let_def
        split: option.splits if_splits)
  then show ?thesis by auto
next
  case (cached b d)
  from cache_filled [OF assms(1) cached(3)] obtain c' where c': "c' \<in> set cs"
    "answers H c' (bi_routing_input_digest b) d" by blast
  then obtain b' where "check_bindings H c' = Inr b'" "bi_routing_input_digest b' = bi_routing_input_digest b"
    unfolding answers_def by blast
  then have "same_inputs H c c'"
    using check_bindings_Inr(8) [of H c b] check_bindings_Inr(8) [of H c' b'] cached(1) routing_input_digest_same by metis
  with c' evaluate_answers cached(4) show ?thesis by auto
next
  case (computed b d)
  then have "answers H c (bi_routing_input_digest b) d" by (auto simp: answers_def)
  with evaluate_answers computed(3) show ?thesis by auto
qed

theorem cache_answers_witness:
  "\<exists>c' \<in> set [sample_context sample_link [sample_constraint 9]]. \<exists>d. evaluate sample_hash c' = Inr (decided d)"
proof -
  let ?c = "sample_context sample_link [sample_constraint 9]"
  obtain b d where "check_bindings sample_hash ?c = Inr b" "compute_decision sample_hash ?c b = Inr d"
    using sample_evaluates by (auto elim!: evaluate_cases simp: decided_def)
  then have "\<exists>en. engine_evaluate sample_hash (make_engine True) ?c = Inr (decided d, en)"
    by (simp add: engine_evaluate_def evaluate_inner_def make_engine_def Let_def)
  then obtain en where "engine_evaluate sample_hash (make_engine True) ?c = Inr (decided d, en)" by blast
  from cache_answers [OF reachable_engine.start this] show ?thesis by auto
qed

text \<open>
  C18: The cache trusts the digest an intent carries: once a context has been answered, any
  context that differs only in the intent but repeats its digest gets the same answer,
  even where its own hard constraints forbid the selected path.
\<close>

theorem forged_intent_is_answered:
  assumes "evaluate H c = Inr r" "rr_ok r" "engine_evaluate H (make_engine True) c = Inr (r, en)"
    and "rc_intent c = Some i" "in_digest j = in_digest i"
    and "check_bindings H (c\<lparr>rc_intent := Some j\<rparr>) = Inr b"
  shows "engine_evaluate H en (c\<lparr>rc_intent := Some j\<rparr>) = Inr (r, en)"
proof -
  let ?c = "c\<lparr>rc_intent := Some j\<rparr>"
  have same: "routing_input_digest H ?c = routing_input_digest H c"
    using assms(4,5) by (simp add: routing_input_digest_def context_content_def topology_digest_def resource_digest_def
        intent_digest_of_def policy_id_of_def)
  from assms(3) show ?thesis
  proof (cases rule: engine_evaluate_cases)
    case (computed b' d)
    have "bi_routing_input_digest b' = bi_routing_input_digest b"
      using check_bindings_Inr(8) [OF computed(1)] check_bindings_Inr(8) [OF assms(6)] same by simp
    with computed assms(6) show ?thesis by (simp add: engine_evaluate_def evaluate_inner_def make_engine_def Let_def)
  qed (use assms(2) in \<open>simp_all add: make_engine_def\<close>)
qed

theorem forged_intent_is_answered_witness:
  "\<exists>en d p. engine_evaluate sample_hash en (sample_context sample_link [sample_constraint 1]) = Inr (decided d, en) \<and>
     rd_selected d = Some p \<and>
     unmet_hard_constraints p (sample_context sample_link [sample_constraint 1]) = Inr [''k'']"
proof -
  let ?c = "sample_context sample_link [sample_constraint 9]"
  let ?p = "sample_path\<lparr>pa_policy_eligible := True, pa_policy_decision_id := ''sha256:'' @ replicate 64 CHR ''a''\<rparr>"
  obtain d where d: "evaluate sample_hash ?c = Inr (decided d)" "rd_selected d = Some ?p"
    using sample_evaluates by blast
  then obtain b where b: "check_bindings sample_hash ?c = Inr b" "compute_decision sample_hash ?c b = Inr d"
    by (auto elim!: evaluate_cases simp: decided_def)
  then have "\<exists>en. engine_evaluate sample_hash (make_engine True) ?c = Inr (decided d, en)"
    by (simp add: engine_evaluate_def evaluate_inner_def make_engine_def Let_def)
  then obtain en where en: "engine_evaluate sample_hash (make_engine True) ?c = Inr (decided d, en)" by blast
  have eq: "?c\<lparr>rc_intent := Some (sample_intent [sample_constraint 1])\<rparr> = sample_context sample_link [sample_constraint 1]"
    by (simp add: sample_context_def)
  obtain b' where b': "check_bindings sample_hash (sample_context sample_link [sample_constraint 1]) = Inr b'"
    by (rule sample_bindings [OF sample_checks_constraint [of sample_link 1]])
  have "engine_evaluate sample_hash en (sample_context sample_link [sample_constraint 1]) = Inr (decided d, en)"
    by (rule forged_intent_is_answered [OF d(1) _ en, where i = "sample_intent [sample_constraint 9]" and j = "sample_intent [sample_constraint 1]", unfolded eq])
      (use b' in \<open>simp_all add: decided_def sample_intent_def\<close>)
  moreover have same: "constraint_satisfied ?p = constraint_satisfied sample_path"
    by (intro ext) (simp add: constraint_satisfied_def path_metric_value_def label_members_def)
  have "unmet_hard_constraints ?p (sample_context sample_link [sample_constraint 1]) = Inr [''k'']"
    using sample_unmet [of sample_link 1] unfolding unmet_hard_constraints_def same by simp
  ultimately show ?thesis using d(2) by blast
qed

text \<open>
  C17: One self-link makes routing raise: if the graph holds a fresh link-state claim whose
  subject names one node twice, \<open>evaluate\<close> does not return a result for any context that
  passed the checks, but lets the topology's own exception escape.
\<close>

theorem self_link_crashes_routing:
  assumes "x \<in> set (get_current_observations (rc_topology c) now)" "tc_claim_type x = ''link-state''"
    and "parse_link_subject (tc_subject x) = Inr (a, a)" "\<not> identity_removed (rc_topology c) a now"
    and "parse_instant (rc_instant c) = Some now" "rc_source c \<noteq> rc_destination c" "check_bindings H c = Inr b"
  shows "\<exists>l. evaluate H c = Inl (EscapedTopologyError l)"
proof -
  from self_link_breaks_table [OF assms(1-4)] obtain l
    where "build_usable_link_table (rc_topology c) now = Inl (EscapedTopologyError l)" by blast
  then have "construct_candidates H c = Inl (EscapedTopologyError l)"
    using assms(5,6) by (simp add: construct_candidates_def parse_evaluation_instant_def)
  then have "compute_decision H c b = Inl (EscapedTopologyError l)"
    using assms(5) by (simp add: compute_decision_def parse_evaluation_instant_def)
  then show ?thesis
    by (simp add: evaluate_def engine_evaluate_def evaluate_inner_def make_engine_def assms(7) Let_def)
qed

theorem self_link_crashes_routing_witness:
  "\<exists>l. evaluate sample_hash (sample_context (''link:'' @ sample_node CHR ''a'' @ '':'' @ sample_node CHR ''a'') [])
     = Inl (EscapedTopologyError l)"
proof -
  let ?s = "''link:'' @ sample_node CHR ''a'' @ '':'' @ sample_node CHR ''a''"
  let ?x = "sample_claim (sample_node CHR ''a'') ?s ''link-state'' ''self-advertisement'' (JStr ''up'') 1 ''x''"
  have "check_unsupported_hard_constraints (sample_context ?s []) = Inr ()"
    by (simp add: check_unsupported_hard_constraints_def constraints_of_def sample_intent_def)
  then obtain b where b: "check_bindings sample_hash (sample_context ?s []) = Inr b" by (rule sample_bindings)
  have "parse_link_subject ?s = Inr (sample_node CHR ''a'', sample_node CHR ''a'')"
    unfolding parse_link_subject_iff by simp
  then show ?thesis
    by (intro self_link_crashes_routing [where x = ?x and now = 63839664000000000 and b = b and a = "sample_node CHR ''a''"])
      (use b sample_link_parses(3) in \<open>simp_all add: get_current_observations_def current_by_key_def identity_removed_def
         get_identity_state_def sample_times\<close>)
qed

end
