(* ===== verification/Policy_Predicates.thy ===== *)
theory Policy_Predicates
  imports Policy_Model
begin

text \<open>
  \<open>policy/predicates.py\<close>: the fourteen matchers and their dispatch.  A matcher reads
  the arguments of a condition and the facts of the context and answers with one of the
  four codes of \<open>PredicateResult\<close>; the lemmas say when each answers \<open>matched\<close>.
\<close>

section \<open>Results and arguments\<close>

record predicate_result =
  qr_matched :: bool
  qr_code :: string

definition satisfied :: predicate_result where
  "satisfied = \<lparr>qr_matched = True, qr_code = ''matched''\<rparr>"

definition not_matched :: predicate_result where
  "not_matched = \<lparr>qr_matched = False, qr_code = ''not-matched''\<rparr>"

definition missing_fact :: predicate_result where
  "missing_fact = \<lparr>qr_matched = False, qr_code = ''missing-fact''\<rparr>"

definition unsupported_argument :: predicate_result where
  "unsupported_argument = \<lparr>qr_matched = False, qr_code = ''unsupported-argument''\<rparr>"

definition require_str :: "(string, string jval) dict \<Rightarrow> string \<Rightarrow> string option" where
  \<comment> \<open>\<open>None\<close> for \<open>(False, "")\<close>\<close>
  "require_str arguments key =
     (case dget arguments key of Some (JStr s) \<Rightarrow> if s = '''' then None else Some s | _ \<Rightarrow> None)"

definition require_arg_int :: "(string, string jval) dict \<Rightarrow> string \<Rightarrow> int option" where
  "require_arg_int arguments key =
     (case dget arguments key of Some (JInt i) \<Rightarrow> if i < 0 then None else Some i | _ \<Rightarrow> None)"

definition trust_class_order :: "string list" where
  "trust_class_order = [''unverified'', ''attested'', ''verified'', ''audited'']"

fun index_of :: "'a \<Rightarrow> 'a list \<Rightarrow> nat option" where
  \<comment> \<open>\<open>xs.index(x)\<close>, \<open>None\<close> for its \<open>ValueError\<close>\<close>
  "index_of x [] = None"
| "index_of x (y # ys) = (if y = x then Some 0 else map_option Suc (index_of x ys))"

definition trust_class_index :: "string \<Rightarrow> int" where
  "trust_class_index classification =
     (case index_of classification trust_class_order of Some i \<Rightarrow> int i | None \<Rightarrow> -1)"

section \<open>Matchers\<close>

definition compare_fact :: "bool \<Rightarrow> bool \<Rightarrow> predicate_result" where
  \<comment> \<open>the tail the matchers share: a missing fact, else whether the fact agrees\<close>
  "compare_fact present agrees =
     (if \<not> present then missing_fact else if agrees then satisfied else not_matched)"

definition with_str ::
  "(string, string jval) dict \<Rightarrow> string \<Rightarrow> (string \<Rightarrow> predicate_result) \<Rightarrow> predicate_result" where
  "with_str arguments key f =
     (case require_str arguments key of None \<Rightarrow> unsupported_argument | Some s \<Rightarrow> f s)"

definition match_subject_equals :: "(string, string jval) dict \<Rightarrow> policy_context \<Rightarrow> predicate_result" where
  "match_subject_equals arguments c = with_str arguments ''node_id'' (\<lambda>node_id.
     if \<not> isOk (parse_node_id node_id) then unsupported_argument
     else if pc_requester c = '''' then missing_fact
     else if \<not> isOk (parse_node_id (pc_requester c)) then missing_fact
     else if pc_requester c = node_id then satisfied else not_matched)"

definition match_credential_active :: "(string, string jval) dict \<Rightarrow> policy_context \<Rightarrow> predicate_result" where
  "match_credential_active arguments c =
     (case pc_credential_active c of
        None \<Rightarrow> missing_fact
      | Some active \<Rightarrow> if active then satisfied else not_matched)"

definition match_resource_owner :: "(string, string jval) dict \<Rightarrow> policy_context \<Rightarrow> predicate_result" where
  "match_resource_owner arguments c = with_str arguments ''owner_node_id'' (\<lambda>owner.
     if \<not> isOk (parse_node_id owner) then unsupported_argument
     else if pc_resource_owner c = '''' then missing_fact
     else if \<not> isOk (parse_node_id (pc_resource_owner c)) then missing_fact
     else if pc_resource_owner c = owner then satisfied else not_matched)"

definition match_resource_kind :: "(string, string jval) dict \<Rightarrow> policy_context \<Rightarrow> predicate_result" where
  "match_resource_kind arguments c = with_str arguments ''kind'' (\<lambda>kind.
     compare_fact (pc_resource_kind c \<noteq> '''') (pc_resource_kind c = kind))"

definition match_locality_equals :: "(string, string jval) dict \<Rightarrow> policy_context \<Rightarrow> predicate_result" where
  "match_locality_equals arguments c = with_str arguments ''label'' (\<lambda>label.
     compare_fact (pc_locality_labels c \<noteq> []) (label \<in> set (pc_locality_labels c)))"

definition match_federation_domain :: "(string, string jval) dict \<Rightarrow> policy_context \<Rightarrow> predicate_result" where
  "match_federation_domain arguments c = with_str arguments ''domain'' (\<lambda>domain.
     compare_fact (pc_federation_domain c \<noteq> '''') (pc_federation_domain c = domain))"

definition match_privacy_required :: "(string, string jval) dict \<Rightarrow> policy_context \<Rightarrow> predicate_result" where
  "match_privacy_required arguments c = with_str arguments ''requirement'' (\<lambda>requirement.
     compare_fact (pc_privacy_requirements c \<noteq> []) (requirement \<in> set (pc_privacy_requirements c)))"

definition match_emergency_true :: "(string, string jval) dict \<Rightarrow> policy_context \<Rightarrow> predicate_result" where
  "match_emergency_true arguments c = (if pc_emergency c then satisfied else not_matched)"

definition match_service_class :: "(string, string jval) dict \<Rightarrow> policy_context \<Rightarrow> predicate_result" where
  "match_service_class arguments c = with_str arguments ''class'' (\<lambda>cls.
     compare_fact (pc_service_class c \<noteq> '''') (pc_service_class c = cls))"

definition match_energy_reserve_gte :: "(string, string jval) dict \<Rightarrow> policy_context \<Rightarrow> predicate_result" where
  "match_energy_reserve_gte arguments c =
     (case require_arg_int arguments ''threshold'' of
        None \<Rightarrow> unsupported_argument
      | Some threshold \<Rightarrow>
          (case pc_energy_current c of
             None \<Rightarrow> missing_fact
           | Some current \<Rightarrow> if threshold \<le> current then satisfied else not_matched))"

definition match_trust_min_class :: "(string, string jval) dict \<Rightarrow> policy_context \<Rightarrow> predicate_result" where
  "match_trust_min_class arguments c = with_str arguments ''min'' (\<lambda>min_class.
     let min_idx = trust_class_index min_class in
     if min_idx < 0 then unsupported_argument
     else compare_fact (pc_trust_assertions c \<noteq> [])
            (list_ex (\<lambda>ta. min_idx \<le> trust_class_index (fst ta)) (pc_trust_assertions c)))"

definition match_capability_required :: "(string, string jval) dict \<Rightarrow> policy_context \<Rightarrow> predicate_result" where
  "match_capability_required arguments c = with_str arguments ''capability_id'' (\<lambda>capability.
     compare_fact (pc_capability_refs c \<noteq> []) (capability \<in> set (pc_capability_refs c)))"

definition match_topology_evidence_present ::
  "(string, string jval) dict \<Rightarrow> policy_context \<Rightarrow> predicate_result" where
  "match_topology_evidence_present arguments c = with_str arguments ''evidence_ref'' (\<lambda>evidence_ref.
     compare_fact (pc_topology_evidence_refs c \<noteq> []) (evidence_ref \<in> set (pc_topology_evidence_refs c)))"

definition match_intent_present :: "(string, string jval) dict \<Rightarrow> policy_context \<Rightarrow> predicate_result" where
  "match_intent_present arguments c =
     (if pc_intent_digest c = '''' then not_matched
      else if \<not> is_valid_content_digest (pc_intent_digest c) then unsupported_argument
      else satisfied)"

section \<open>Dispatch\<close>

definition matchers :: "(string, (string, string jval) dict \<Rightarrow> policy_context \<Rightarrow> predicate_result) dict" where
  "matchers =
     [(''subject-equals'', match_subject_equals),
      (''credential-active'', match_credential_active),
      (''resource-owner'', match_resource_owner),
      (''resource-kind'', match_resource_kind),
      (''locality-equals'', match_locality_equals),
      (''federation-domain'', match_federation_domain),
      (''privacy-required'', match_privacy_required),
      (''emergency-true'', match_emergency_true),
      (''service-class'', match_service_class),
      (''energy-reserve-gte'', match_energy_reserve_gte),
      (''trust-min-class'', match_trust_min_class),
      (''capability-required'', match_capability_required),
      (''topology-evidence-present'', match_topology_evidence_present),
      (''intent-present'', match_intent_present)]"

definition evaluate_condition :: "condition \<Rightarrow> policy_context \<Rightarrow> predicate_result" where
  \<comment> \<open>no matcher raises, so the \<open>except\<close> of the dispatch has no branch here\<close>
  "evaluate_condition cd c =
     (case dget matchers (cd_predicate cd) of
        None \<Rightarrow> unsupported_argument
      | Some matcher \<Rightarrow> matcher (cd_arguments cd) c)"

end
