(* ===== verification/Policy_Conflict.thy ===== *)
theory Policy_Conflict
  imports Policy_Model
begin

text \<open>
  \<open>policy/conflict.py\<close>: the sort key of the matched rules, the resolution of equal
  precedence and its audit lines.  The lemmas characterise the effect by the top level of
  precedence alone and show that the order of the matched rules is never observed.
\<close>

section \<open>Precedence\<close>

fun precedence_index :: "string list \<Rightarrow> string \<Rightarrow> nat" where
  \<comment> \<open>the loop of \<open>_domain_precedence_index\<close>: the first position, else the length\<close>
  "precedence_index [] domain = 0"
| "precedence_index (d # ds) domain = (if d = domain then 0 else Suc (precedence_index ds domain))"

definition domain_precedence_index :: "policy_set \<Rightarrow> string \<Rightarrow> nat" where
  "domain_precedence_index p domain = precedence_index (ps_domain_precedence p) domain"

definition level_key :: "policy_set \<Rightarrow> policy_rule \<Rightarrow> int \<times> int \<times> nat" where
  \<comment> \<open>the key without the rule id, negated as in \<open>_rule_sort_key\<close>\<close>
  "level_key p r = (- pr_specificity r, - pr_priority r, domain_precedence_index p (pr_domain r))"

definition rule_sort_key :: "policy_set \<Rightarrow> policy_rule \<Rightarrow> int \<times> int \<times> nat \<times> string" where
  "rule_sort_key p r =
     (- pr_specificity r, - pr_priority r, domain_precedence_index p (pr_domain r), pr_rule_id r)"

section \<open>Resolution\<close>

definition py_repr_list :: "string list \<Rightarrow> string" where
  \<comment> \<open>\<open>"%s" % list\<close> of a list of texts\<close>
  "py_repr_list ss = ''['' @ comma_join (map py_repr_string ss) @ '']''"

definition rule_ids :: "policy_rule list \<Rightarrow> string list" where
  "rule_ids rs = sort (map pr_rule_id rs)"

definition ordered_line :: "policy_rule list \<Rightarrow> string" where
  "ordered_line ordered =
     ''ordered '' @ dec_string (int (length ordered)) @
     '' matched rule(s) by (specificity desc, priority desc, domain-precedence asc, rule_id asc)''"

definition winner_line :: "policy_rule \<Rightarrow> string" where
  "winner_line w =
     ''unique winner: rule '' @ py_repr_string (pr_rule_id w) @ '' (effect='' @ py_repr_string (pr_effect w) @
     '', specificity='' @ dec_string (pr_specificity w) @ '', priority='' @ dec_string (pr_priority w) @
     '', domain='' @ py_repr_string (pr_domain w) @ '')''"

definition tie_line :: "policy_rule list \<Rightarrow> string" where
  "tie_line tied =
     ''equal-precedence tie among '' @ dec_string (int (length tied)) @ '' rule(s): '' @
     py_repr_list (rule_ids tied) @ '' (effects='' @
     py_repr_list (sorted_list_of_set (pr_effect ` set tied)) @ '')''"

definition resolve_conflicts ::
  "policy_rule list \<Rightarrow> policy_set \<Rightarrow> string option \<times> string list \<times> string list" where
  "resolve_conflicts matched p =
     (if matched = [] then (None, [], [])
      else
        let ordered = sort_key (rule_sort_key p) matched;
            top = hd ordered;
            tied = filter (\<lambda>r. level_key p r = level_key p top) ordered;
            line0 = ordered_line ordered
        in if length tied = 1
           then (Some (pr_effect top), [pr_rule_id top], [line0, winner_line top])
           else
             let effects = pr_effect ` set tied; line1 = tie_line tied in
             if ''deny'' \<in> effects
             then let ids = rule_ids (filter (\<lambda>r. pr_effect r = ''deny'') tied) in
               (Some ''deny'', ids,
                [line0, line1, ''deny beats allow at equal precedence -> DENY (winners='' @ py_repr_list ids @ '')''])
             else if ''require-review'' \<in> effects
             then let ids = rule_ids (filter (\<lambda>r. pr_effect r = ''require-review'') tied) in
               (Some ''require-review'', ids,
                [line0, line1, ''require-review at equal precedence -> DENY+FAIL_CLOSED (no silent ALLOW; winners=''
                   @ py_repr_list ids @ '')''])
             else
               (None, rule_ids tied,
                [line0, line1, ''multiple distinct ALLOW rules at equal precedence -> CONFLICT (fail closed; ''
                   @ ''disambiguate via priority/specificity) (rules='' @ py_repr_list (rule_ids tied) @ '')'']))"

section \<open>The reference: the top level of precedence\<close>

definition top_level :: "policy_set \<Rightarrow> policy_rule list \<Rightarrow> policy_rule list" where
  "top_level p rs = filter (\<lambda>r. \<forall>s \<in> set rs. level_key p r \<le> level_key p s) rs"

definition level_effect :: "policy_rule list \<Rightarrow> string option" where
  \<comment> \<open>one rule decides; several defer to a denial, then to a review, and never allow\<close>
  "level_effect rs =
     (if length rs = 1 then Some (pr_effect (hd rs))
      else if ''deny'' \<in> pr_effect ` set rs then Some ''deny''
      else if ''require-review'' \<in> pr_effect ` set rs then Some ''require-review''
      else None)"

lemma sort_key_le_level: "rule_sort_key p r \<le> rule_sort_key p s \<Longrightarrow> level_key p r \<le> level_key p s"
  by (auto simp: rule_sort_key_def level_key_def less_eq_prod_def less_prod_def)

lemma sort_key_Nil_iff [simp]: "sort_key f xs = [] \<longleftrightarrow> xs = []"
  using set_sort [of f xs] by (metis set_empty)

lemma hd_sort_key_level:
  assumes "s \<in> set rs"
  shows "level_key p (hd (sort_key (rule_sort_key p) rs)) \<le> level_key p s"
proof -
  let ?o = "sort_key (rule_sort_key p) rs"
  from assms have "?o \<noteq> []" "s \<in> set ?o" by (auto)
  moreover have "sorted (map (rule_sort_key p) ?o)" by simp
  ultimately have "rule_sort_key p (hd ?o) \<le> rule_sort_key p s"
    by (cases ?o) (auto simp del: sorted_sort_key)
  then show ?thesis by (rule sort_key_le_level)
qed

lemma tied_top_level:
  fixes p :: policy_set and rs :: "policy_rule list"
  assumes "rs \<noteq> []"
  defines "ordered \<equiv> sort_key (rule_sort_key p) rs"
  shows "filter (\<lambda>r. level_key p r = level_key p (hd ordered)) ordered = sort_key (rule_sort_key p) (top_level p rs)"
proof -
  have mem: "hd ordered \<in> set rs" using assms by (metis hd_in_set set_sort sort_key_Nil_iff)
  have "filter (\<lambda>r. level_key p r = level_key p (hd ordered)) ordered
      = filter (\<lambda>r. \<forall>s \<in> set rs. level_key p r \<le> level_key p s) ordered"
  proof (rule filter_cong [OF refl])
    fix r assume "r \<in> set ordered"
    then have "r \<in> set rs" by (simp add: ordered_def)
    then show "level_key p r = level_key p (hd ordered) \<longleftrightarrow> (\<forall>s \<in> set rs. level_key p r \<le> level_key p s)"
      using hd_sort_key_level [of _ rs p] mem by (auto simp: ordered_def intro: antisym)
  qed
  then show ?thesis by (simp add: ordered_def top_level_def filter_sort)
qed

lemma rule_ids_mset: "mset xs = mset ys \<Longrightarrow> rule_ids xs = rule_ids ys"
  unfolding rule_ids_def by (rule properties_for_sort) (simp_all add: mset_map)

lemma length_sort_key_1:
  assumes "length rs = 1"
  shows "sort_key f rs = rs"
  using assms by (cases rs) simp_all

lemma top_level_Nil_iff [simp]: "top_level p rs = [] \<longleftrightarrow> rs = []"
proof
  assume a: "top_level p rs = []"
  show "rs = []"
  proof (rule ccontr)
    assume "rs \<noteq> []"
    then have "hd (sort_key (rule_sort_key p) rs) \<in> set rs" by (metis hd_in_set set_sort sort_key_Nil_iff)
    then have "hd (sort_key (rule_sort_key p) rs) \<in> set (top_level p rs)"
      by (simp add: top_level_def hd_sort_key_level)
    with a show False by simp
  qed
qed (simp add: top_level_def)

lemma hd_ordered_top:
  assumes "rs \<noteq> []" "length (top_level p rs) = 1"
  shows "hd (sort_key (rule_sort_key p) rs) = hd (top_level p rs)"
proof -
  have "hd (sort_key (rule_sort_key p) rs) \<in> set rs"
    using assms(1) by (metis hd_in_set set_sort sort_key_Nil_iff)
  then have "hd (sort_key (rule_sort_key p) rs) \<in> set (top_level p rs)"
    by (simp add: top_level_def hd_sort_key_level)
  with assms(2) show ?thesis by (cases "top_level p rs") auto
qed

lemma top_level_Nil [simp]: "top_level p [] = []"
  by (simp add: top_level_def)

lemma resolve_by_level:
  "fst (resolve_conflicts rs p) = level_effect (top_level p rs)"
proof (cases "rs = []")
  case False
  note t = tied_top_level [OF this, of p]
  show ?thesis
    unfolding resolve_conflicts_def level_effect_def Let_def t
    using False hd_ordered_top [OF False, of p] by auto
qed (simp add: resolve_conflicts_def level_effect_def)

lemma resolve_order:
  assumes "mset rs = mset rs'" "distinct (map pr_rule_id rs)"
  shows "resolve_conflicts rs p = resolve_conflicts rs' p"
proof -
  have "inj_on (rule_sort_key p) (set rs)"
    using assms(2) by (auto simp: distinct_map inj_on_def rule_sort_key_def)
  then have "sort_key (rule_sort_key p) rs = sort_key (rule_sort_key p) rs'"
    by (intro sort_key_inj_key_eq) (use assms(1) in simp_all)
  moreover have "rs = [] \<longleftrightarrow> rs' = []" using assms(1) by auto
  ultimately show ?thesis by (simp add: resolve_conflicts_def)
qed

lemma resolve_allow:
  assumes "fst (resolve_conflicts rs p) = Some ''allow''"
  obtains r where "r \<in> set rs" "pr_effect r = ''allow''" "top_level p rs = [r]"
    "fst (snd (resolve_conflicts rs p)) = [pr_rule_id r]"
proof -
  have ne: "rs \<noteq> []" using assms by (auto simp: resolve_conflicts_def)
  have l: "length (top_level p rs) = 1" and e: "pr_effect (hd (top_level p rs)) = ''allow''"
    using assms by (auto simp: resolve_by_level level_effect_def split: if_splits)
  from l obtain r where r: "top_level p rs = [r]" by (cases "top_level p rs") auto
  then have "r \<in> set (top_level p rs)" by simp
  then have "r \<in> set rs" by (simp add: top_level_def)
  moreover have "fst (snd (resolve_conflicts rs p)) = [pr_rule_id r]"
    unfolding resolve_conflicts_def Let_def tied_top_level [OF ne] r
    using ne hd_ordered_top [OF ne, of p] r by simp
  ultimately show thesis using that e r by simp
qed

lemma top_level_singleton:
  assumes "top_level p rs = [r]" "s \<in> set rs" "s \<noteq> r"
  shows "level_key p r < level_key p s"
proof (rule ccontr)
  assume "\<not> level_key p r < level_key p s"
  then have le: "level_key p s \<le> level_key p r" by simp
  have "r \<in> set (top_level p rs)" using assms(1) by simp
  then have "\<forall>u \<in> set rs. level_key p s \<le> level_key p u"
    using le by (auto simp: top_level_def intro: order_trans)
  then have "s \<in> set (top_level p rs)" using assms(2) by (simp add: top_level_def)
  with assms(1,3) show False by simp
qed

lemma resolve_effect_values:
  assumes "fst (resolve_conflicts rs p) = Some e" "\<forall>r \<in> set rs. pr_effect r \<in> {''allow'', ''deny'', ''require-review''}"
  shows "e \<in> {''allow'', ''deny'', ''require-review''}"
proof (cases "length (top_level p rs) = 1")
  case True
  then have "hd (top_level p rs) \<in> set (top_level p rs)" by (cases "top_level p rs") auto
  then have "hd (top_level p rs) \<in> set rs" by (simp add: top_level_def)
  with assms True show ?thesis by (auto simp: resolve_by_level level_effect_def)
qed (use assms in \<open>auto simp: resolve_by_level level_effect_def split: if_splits\<close>)

lemma resolve_deny_wins:
  assumes "r \<in> set (top_level p rs)" "pr_effect r = ''deny''"
  shows "fst (resolve_conflicts rs p) = Some ''deny''"
proof (cases "length (top_level p rs) = 1")
  case True
  then have "top_level p rs = [r]" using assms(1) by (cases "top_level p rs") auto
  with assms(2) show ?thesis by (simp add: resolve_by_level level_effect_def)
next
  case False
  have "''deny'' \<in> pr_effect ` set (top_level p rs)" using assms by (metis image_eqI)
  with False show ?thesis by (simp only: resolve_by_level level_effect_def if_False if_True)
qed

lemma rule_ids_sort: "rule_ids (filter P (sort_key f rs)) = rule_ids (filter P rs)" "rule_ids (sort_key f rs) = rule_ids rs"
  by (rule rule_ids_mset; simp)+

lemma resolve_ids:
  assumes "rs \<noteq> []"
  shows "fst (snd (resolve_conflicts rs p)) =
    (let level = top_level p rs in
     if length level = 1 then [pr_rule_id (hd level)]
     else if ''deny'' \<in> pr_effect ` set level then rule_ids (filter (\<lambda>r. pr_effect r = ''deny'') level)
     else if ''require-review'' \<in> pr_effect ` set level
     then rule_ids (filter (\<lambda>r. pr_effect r = ''require-review'') level)
     else rule_ids level)"
  unfolding resolve_conflicts_def Let_def tied_top_level [OF assms]
  using assms hd_ordered_top [OF assms, of p] by (simp add: rule_ids_sort)

end
