(* ===== verification/Policy_Validation.thy ===== *)
theory Policy_Validation
  imports Policy_Model
begin

text \<open>
  \<open>policy/validation.py\<close>: the scan for secret material, the words a policy may not
  contain, and the structural checks of rules, policy sets and contexts in the order the
  code makes them.  An error is the code of the \<open>PolicyError\<close>; its text is left out.
\<close>

section \<open>Secret material and forbidden words\<close>

definition policy_secret_hints :: "string list" where
  "policy_secret_hints = [''private_key'', ''secret_key'', ''priv_key'', ''password'', ''token'',
     ''credential_secret'', ''subscriber_secret'', ''modem_secret'', ''session_secret'', ''bearer_token'']"

definition policy_looks_secret :: "string \<Rightarrow> bool" where
  "policy_looks_secret s \<longleftrightarrow> ascii_lower s \<in> set policy_secret_hints"

fun policy_has_secret :: "string jval \<Rightarrow> bool" where
  "policy_has_secret (JObj kvs) \<longleftrightarrow>
     (\<exists>kv \<in> set kvs. policy_looks_secret (fst kv) \<or> policy_has_secret (snd kv))"
| "policy_has_secret (JArr xs) \<longleftrightarrow>
     (\<exists>x \<in> set xs. (case x of JStr s \<Rightarrow> policy_looks_secret s | _ \<Rightarrow> False) \<or> policy_has_secret x)"
| "policy_has_secret _ \<longleftrightarrow> False"

definition policy_reject_secret :: "string jval \<Rightarrow> policy_error + unit" where
  "policy_reject_secret doc = guardE (policy_has_secret doc) (PolicyError ''secret-material'')"

definition forbidden_tokens :: "string list" where
  "forbidden_tokens = [''5g'', ''nr'', ''lte'', ''wifi'', ''wi-fi'', ''6g'', ''3g'', ''4g'', ''cellular'',
     ''satellite'', ''mesh'', ''fiber'', ''ethernet'', ''vendor'', ''route'', ''path'', ''next-hop'', ''nexthop'',
     ''topology'', ''adapter'', ''access-technology'', ''cell'', ''bearer'', ''ran'', ''cn'', ''ssid'', ''apn'',
     ''imsi'', ''imei'', ''sim'']"

definition reject_forbidden_tokens :: "string \<Rightarrow> policy_error + unit" where
  "reject_forbidden_tokens v =
     guardE (v \<noteq> '''' \<and> list_ex (\<lambda>w. has_word w True (ascii_lower v)) forbidden_tokens)
       (PolicyError ''access-technology-leakage'')"

section \<open>Node ids and windows\<close>

definition validate_node_id_string :: "string \<Rightarrow> policy_error + unit" where
  "validate_node_id_string v = guardE (v \<noteq> '''' \<and> \<not> isOk (parse_node_id v)) (PolicyError ''node-id'')"

definition validate_issuer_node_id :: "string \<Rightarrow> policy_error + unit" where
  "validate_issuer_node_id v =
     bindE (guardE (v = '''') (PolicyError ''issuer'')) (\<lambda>_.
       guardE (\<not> isOk (parse_node_id v)) (PolicyError ''issuer''))"

definition optional_instant :: "string \<Rightarrow> string \<Rightarrow> policy_error + int option" where
  \<comment> \<open>\<open>None\<close> for an absent bound, an error for a bound that does not parse\<close>
  "optional_instant code s =
     (if s = '''' then Inr None
      else case parse_instant s of None \<Rightarrow> Inl (PolicyError code) | Some t \<Rightarrow> Inr (Some t))"

definition validate_temporal_window :: "string \<Rightarrow> string \<Rightarrow> policy_error + unit" where
  "validate_temporal_window valid_from valid_until =
     bindE (optional_instant ''valid-from'' valid_from) (\<lambda>vf.
     bindE (optional_instant ''valid-until'' valid_until) (\<lambda>vu.
       guardE (case (vf, vu) of (Some a, Some b) \<Rightarrow> b < a | _ \<Rightarrow> False) (PolicyError ''valid-before-from'')))"

section \<open>Rules, sets and contexts\<close>

fun eachE :: "('a \<Rightarrow> 'e + unit) \<Rightarrow> 'a list \<Rightarrow> 'e + unit" where
  \<comment> \<open>a \<open>for\<close> loop whose body only raises\<close>
  "eachE f [] = Inr ()"
| "eachE f (x # xs) = bindE (f x) (\<lambda>_. eachE f xs)"

definition validate_argument :: "string \<times> string jval \<Rightarrow> policy_error + unit" where
  "validate_argument kv =
     bindE (reject_forbidden_tokens (fst kv)) (\<lambda>_.
       case snd kv of JStr s \<Rightarrow> reject_forbidden_tokens s | _ \<Rightarrow> Inr ())"

definition validate_condition :: "condition \<Rightarrow> policy_error + unit" where
  "validate_condition c =
     bindE (guardE (cd_predicate c \<notin> set predicate_kinds) (PolicyError ''predicate'')) (\<lambda>_.
     bindE (eachE validate_argument (cd_arguments c)) (\<lambda>_.
       policy_reject_secret (JObj (cd_arguments c))))"

definition validate_rule :: "policy_rule \<Rightarrow> policy_error + unit" where
  "validate_rule r =
     bindE (guardE (pr_effect r \<notin> set effect_values) (PolicyError ''effect'')) (\<lambda>_.
     bindE (guardE (pr_operation r \<notin> set policy_operations) (PolicyError ''operation'')) (\<lambda>_.
     bindE (guardE (pr_domain r \<notin> set policy_domains) (PolicyError ''domain'')) (\<lambda>_.
     bindE (reject_forbidden_tokens (pr_rule_id r)) (\<lambda>_.
     bindE (reject_forbidden_tokens (pr_provenance r)) (\<lambda>_.
     bindE (eachE validate_node_id_string (pr_subjects r)) (\<lambda>_.
     bindE (validate_temporal_window (pr_valid_from r) (pr_valid_until r)) (\<lambda>_.
     bindE (eachE validate_condition (pr_conditions r)) (\<lambda>_.
       eachE policy_reject_secret (pr_extensions r)))))))))"

definition validate_policy_set :: "policy_set \<Rightarrow> policy_error + unit" where
  "validate_policy_set p =
     bindE (validate_issuer_node_id (ps_issuer_node_id p)) (\<lambda>_.
     bindE (validate_temporal_window (ps_valid_from p) (ps_valid_until p)) (\<lambda>_.
     bindE (reject_forbidden_tokens (ps_set_id p)) (\<lambda>_.
     bindE (guardE (\<not> distinct (map pr_rule_id (ps_rules p))) (PolicyError ''duplicate-rule-id'')) (\<lambda>_.
     bindE (eachE validate_rule (ps_rules p)) (\<lambda>_.
     bindE (eachE policy_reject_secret (ps_extensions p)) (\<lambda>_.
       guardE (ps_domain_precedence p \<noteq> [] \<and>
           \<not> pr_domain ` set (ps_rules p) \<subseteq> set (ps_domain_precedence p))
         (PolicyError ''domain-precedence-coverage'')))))))"

definition validate_policy_context :: "policy_context \<Rightarrow> policy_error + unit" where
  "validate_policy_context c =
     bindE (guardE (pc_operation c \<notin> set policy_operations) (PolicyError ''operation'')) (\<lambda>_.
     bindE (validate_node_id_string (pc_requester c)) (\<lambda>_.
     bindE (validate_node_id_string (pc_resource_owner c)) (\<lambda>_.
     bindE (guardE (pc_intent_digest c \<noteq> '''' \<and> \<not> is_valid_content_digest (pc_intent_digest c))
              (PolicyError ''intent-digest'')) (\<lambda>_.
     bindE (reject_forbidden_tokens (pc_federation_domain c)) (\<lambda>_.
     bindE (reject_forbidden_tokens (pc_service_class c)) (\<lambda>_.
     bindE (reject_forbidden_tokens (pc_resource_kind c)) (\<lambda>_.
     bindE (eachE reject_forbidden_tokens (pc_locality_labels c)) (\<lambda>_.
     bindE (eachE reject_forbidden_tokens (pc_privacy_requirements c)) (\<lambda>_.
       eachE policy_reject_secret (pc_extensions c))))))))))"

section \<open>What a validated set and context satisfy\<close>

lemma eachE_eq_Inr [simp]: "eachE f xs = Inr u \<longleftrightarrow> (\<forall>x \<in> set xs. f x = Inr ())"
  by (induction xs) (auto simp: bindE_eq_Inr_iff)

lemma eachE_isOk [simp]: "isOk (eachE f xs) \<longleftrightarrow> (\<forall>x \<in> set xs. isOk (f x))"
  by (auto simp: isOk_iff)

lemma eachE_codes: "eachE f xs = Inl e \<Longrightarrow> \<exists>x \<in> set xs. f x = Inl e"
  by (induction xs) (auto simp: bindE_eq_Inl_iff)

lemma validated_set_rules:
  assumes "validate_policy_set p = Inr u"
  shows "distinct (map pr_rule_id (ps_rules p))" "\<And>r. r \<in> set (ps_rules p) \<Longrightarrow> validate_rule r = Inr ()"
  using assms by (auto simp: validate_policy_set_def bindE_eq_Inr_iff)

lemma validated_rule_effect: "validate_rule r = Inr u \<Longrightarrow> pr_effect r \<in> {''allow'', ''deny'', ''require-review''}"
  by (auto simp: validate_rule_def effect_values_def bindE_eq_Inr_iff)

lemma node_id_string_codes: "validate_node_id_string v = Inl (PolicyError e) \<Longrightarrow> e = ''node-id''"
  by (simp add: validate_node_id_string_def)

section \<open>Samples\<close>

definition sample_rule :: "string \<Rightarrow> string \<Rightarrow> int \<Rightarrow> condition list \<Rightarrow> policy_rule" where
  "sample_rule i effect specificity conds =
     \<lparr>pr_rule_id = i, pr_domain = ''identity'', pr_effect = effect, pr_operation = ''session.create'', pr_subjects = [],
      pr_conditions = conds, pr_priority = 0, pr_specificity = specificity, pr_valid_from = '''', pr_valid_until = '''',
      pr_provenance = '''', pr_version = 0, pr_extensions = []\<rparr>"

definition sample_set :: "policy_rule list \<Rightarrow> policy_set" where
  "sample_set rules =
     \<lparr>ps_set_id = ''base'', ps_version = 1, ps_rules = rules, ps_issuer_node_id = sample_node CHR ''a'',
      ps_valid_from = '''', ps_valid_until = '''', ps_default_effect = ''deny'', ps_domain_precedence = [],
      ps_extensions = []\<rparr>"

definition sample_request :: "string \<Rightarrow> string list \<Rightarrow> string jval list \<Rightarrow> policy_context" where
  "sample_request operation labels exts =
     \<lparr>pc_operation = operation, pc_requester = sample_node CHR ''b'', pc_credential_active = Some True,
      pc_intent_digest = '''', pc_resource_refs = [''obs-1'', ''sub-1''], pc_resource_owner = '''', pc_resource_kind = '''',
      pc_topology_evidence_refs = [], pc_locality_labels = labels, pc_federation_domain = ''tenant-1'',
      pc_privacy_requirements = [], pc_emergency = False, pc_service_class = '''', pc_energy_current = None,
      pc_energy_threshold = None, pc_capability_refs = [], pc_trust_assertions = [],
      pc_evaluation_instant = ''2024-01-01T00:00:00Z'', pc_extensions = exts\<rparr>"

definition in_zone :: condition where
  "in_zone = \<lparr>cd_predicate = ''locality-equals'', cd_arguments = [(''label'', JStr ''zone-1'')]\<rparr>"

definition credential_held :: condition where
  "credential_held = \<lparr>cd_predicate = ''credential-active'', cd_arguments = []\<rparr>"

lemmas words = reject_forbidden_tokens_def forbidden_tokens_def ascii_lower_def lower_alnum_def less_eq_char_def

lemma sample_words [simp]:
  "reject_forbidden_tokens ''base'' = Inr ()" "reject_forbidden_tokens ''open'' = Inr ()"
  "reject_forbidden_tokens ''zone'' = Inr ()" "reject_forbidden_tokens ''label'' = Inr ()"
  "reject_forbidden_tokens ''zone-1'' = Inr ()" "reject_forbidden_tokens ''tenant-1'' = Inr ()"
  "reject_forbidden_tokens '''' = Inr ()"
  by (simp_all add: words)


lemma sample_condition_ok: "cd \<in> {in_zone, credential_held} \<Longrightarrow> validate_condition cd = Inr ()"
  by (auto simp: validate_condition_def in_zone_def credential_held_def predicate_kinds_def validate_argument_def
      policy_reject_secret_def policy_looks_secret_def policy_secret_hints_def ascii_lower_def less_eq_char_def)

lemma eachE_ok: "(\<And>x. x \<in> set xs \<Longrightarrow> f x = Inr ()) \<Longrightarrow> eachE f xs = Inr ()"
  by simp

lemma sample_rule_ok:
  assumes "i \<in> {''open'', ''zone''}" "effect \<in> set effect_values" "set conds \<subseteq> {in_zone, credential_held}"
  shows "validate_rule (sample_rule i effect specificity conds) = Inr ()"
proof -
  have "eachE validate_condition conds = Inr ()" by (rule eachE_ok) (use assms(3) sample_condition_ok in blast)
  note eachE_eq_Inr [simp del] and this [simp]
  show ?thesis
    using assms(1,2) by (auto simp: validate_rule_def sample_rule_def policy_operations_def policy_domains_def
        validate_temporal_window_def optional_instant_def)
qed

lemma sample_set_ok:
  assumes "distinct (map pr_rule_id rules)" "\<forall>r \<in> set rules. validate_rule r = Inr ()"
  shows "make_policy_set (sample_set rules) = Inr (sample_set rules)" "validate_policy_set (sample_set rules) = Inr ()"
proof -
  have "eachE validate_rule rules = Inr ()" by (rule eachE_ok) (use assms(2) in blast)
  note eachE_eq_Inr [simp del] and this [simp]
  have [simp]: "sample_node CHR ''a'' \<noteq> ''''" by (simp add: sample_node_def)
  show "make_policy_set (sample_set rules) = Inr (sample_set rules)" "validate_policy_set (sample_set rules) = Inr ()"
    using assms(1)
    by (simp_all add: make_policy_set_def validate_policy_set_def sample_set_def validate_issuer_node_id_def sample_node_parse
        lower_hex_def less_eq_char_def validate_temporal_window_def optional_instant_def)
qed

lemma sample_request_ok:
  assumes "operation \<in> set policy_operations" "set labels \<subseteq> {''zone-1''}" "\<forall>x \<in> set exts. \<not> policy_has_secret x"
  shows "validate_policy_context (sample_request operation labels exts) = Inr ()"
proof -
  have "eachE reject_forbidden_tokens labels = Inr ()" by (rule eachE_ok) (use assms(2) sample_words(5) in blast)
  moreover have "eachE policy_reject_secret exts = Inr ()"
    by (rule eachE_ok) (use assms(3) in \<open>simp add: policy_reject_secret_def\<close>)
  moreover note eachE_eq_Inr [simp del]
  ultimately show ?thesis
    using assms(1) by (simp add: validate_policy_context_def sample_request_def validate_node_id_string_def sample_node_parse
        lower_hex_def less_eq_char_def policy_reject_secret_def)
qed

end
