(* ===== verification/Policy_Bindings.thy ===== *)
theory Policy_Bindings
  imports Policy_Model
begin

text \<open>
  \<open>policy/invocation.py\<close> and \<open>policy/promotion.py\<close>: the descriptors that bind a
  decision on \<open>service.invoke\<close> or \<open>telemetry.topology-promote\<close> to the scope the
  rules evaluated, and the lemmas that say what a derived binding restates.
\<close>

section \<open>Descriptors\<close>

definition has_kind :: "string \<Rightarrow> string jval \<Rightarrow> bool" where
  "has_kind kind ext = (case ext of JObj d \<Rightarrow> dget d ''kind'' = Some (JStr kind) | _ \<Rightarrow> False)"

definition descriptor_members :: "string jval \<Rightarrow> (string, string jval) dict" where
  "descriptor_members ext = (case ext of JObj d \<Rightarrow> d | _ \<Rightarrow> [])"

definition descriptor_text :: "(string, string jval) dict \<Rightarrow> string \<Rightarrow> string" where
  \<comment> \<open>\<open>descriptor[key]\<close>, read after the check that every value is a text\<close>
  "descriptor_text d k = (case dget d k of Some (JStr s) \<Rightarrow> s | _ \<Rightarrow> '''')"

definition is_text :: "string jval \<Rightarrow> bool" where
  "is_text v = (case v of JStr _ \<Rightarrow> True | _ \<Rightarrow> False)"

definition the_descriptor ::
  "string \<Rightarrow> string \<Rightarrow> string list \<Rightarrow> policy_context \<Rightarrow> policy_error + (string, string jval) dict" where
  \<comment> \<open>exactly one descriptor of the kind, with exactly the keys, all values texts\<close>
  "the_descriptor err kind keys c =
     (let descriptors = filter (has_kind kind) (pc_extensions c) in
      bindE (guardE (descriptors = []) (PolicyError err)) (\<lambda>_.
      bindE (guardE (1 < length descriptors) (PolicyError err)) (\<lambda>_.
        let d = descriptor_members (hd descriptors) in
        bindE (guardE (\<not> set (map fst d) \<subseteq> set keys) (PolicyError err)) (\<lambda>_.
        bindE (guardE (\<not> set keys \<subseteq> set (map fst d)) (PolicyError err)) (\<lambda>_.
        bindE (guardE (\<not> list_all (\<lambda>kv. is_text (snd kv)) d) (PolicyError err)) (\<lambda>_. Inr d))))))"

section \<open>Invocation\<close>

definition INVOCATION_BINDING_KIND :: string where
  "INVOCATION_BINDING_KIND = ''adcos.service-invocation''"

definition INVOCATION_BINDING_KEYS :: "string list" where
  "INVOCATION_BINDING_KEYS = [''kind'', ''operation'', ''service_ref'', ''session_id'', ''caller_node_id'',
     ''tenant_domain'']"

definition invocation_binding_from_context :: "policy_context \<Rightarrow> policy_error + string jval" where
  "invocation_binding_from_context c =
     (let err = ''invocation-binding'' in
      bindE (guardE (pc_operation c \<noteq> ''service.invoke'') (PolicyError err)) (\<lambda>_.
      bindE (the_descriptor err INVOCATION_BINDING_KIND INVOCATION_BINDING_KEYS c) (\<lambda>d.
      bindE (guardE (descriptor_text d ''operation'' \<noteq> ''service.invoke'') (PolicyError err)) (\<lambda>_.
      bindE (guardE (descriptor_text d ''service_ref'' = '''') (PolicyError err)) (\<lambda>_.
      bindE (guardE (descriptor_text d ''tenant_domain'' = '''') (PolicyError err)) (\<lambda>_.
      bindE (guardE (descriptor_text d ''caller_node_id'' \<noteq> pc_requester c) (PolicyError err)) (\<lambda>_.
      bindE (guardE (descriptor_text d ''tenant_domain'' \<noteq> pc_federation_domain c) (PolicyError err)) (\<lambda>_.
        Inr (JObj d)))))))))"

section \<open>Promotion\<close>

definition PROMOTION_BINDING_KIND :: string where
  "PROMOTION_BINDING_KIND = ''adcos.telemetry-topology-promotion''"

definition PROMOTION_BINDING_KEYS :: "string list" where
  "PROMOTION_BINDING_KEYS = [''kind'', ''operation'', ''observation_id'', ''subject_kind'', ''subject_ref'',
     ''privacy_scope'', ''source_disclosure'']"

definition promotion_binding_from_context :: "policy_context \<Rightarrow> policy_error + string jval" where
  "promotion_binding_from_context c =
     (let err = ''promotion-binding'' in
      bindE (guardE (pc_operation c \<noteq> ''telemetry.topology-promote'') (PolicyError err)) (\<lambda>_.
      bindE (the_descriptor err PROMOTION_BINDING_KIND PROMOTION_BINDING_KEYS c) (\<lambda>d.
      bindE (guardE (descriptor_text d ''operation'' \<noteq> ''telemetry.topology-promote'') (PolicyError err)) (\<lambda>_.
      bindE (guardE (list_ex (\<lambda>k. descriptor_text d k = '''')
               [''observation_id'', ''subject_kind'', ''subject_ref'', ''privacy_scope'', ''source_disclosure''])
             (PolicyError err)) (\<lambda>_.
      bindE (guardE (descriptor_text d ''subject_ref'' \<notin> set (pc_resource_refs c)) (PolicyError err)) (\<lambda>_.
      bindE (guardE (descriptor_text d ''observation_id'' \<notin> set (pc_resource_refs c)) (PolicyError err)) (\<lambda>_.
      bindE (guardE (set (pc_resource_refs c) \<noteq>
               {descriptor_text d ''subject_ref'', descriptor_text d ''observation_id''}) (PolicyError err)) (\<lambda>_.
        Inr (JObj d)))))))))"

section \<open>What a binding restates\<close>

lemma the_descriptor_Inr:
  assumes "the_descriptor err kind keys c = Inr d"
  shows "filter (has_kind kind) (pc_extensions c) = [JObj d]" "set (map fst d) = set keys"
    "\<forall>kv \<in> set d. is_text (snd kv)"
proof -
  let ?ds = "filter (has_kind kind) (pc_extensions c)"
  from assms have ds: "?ds \<noteq> []" "\<not> 1 < length ?ds" and d: "descriptor_members (hd ?ds) = d"
    and ks: "set (map fst d) \<subseteq> set keys" "set keys \<subseteq> set (map fst d)" "list_all (\<lambda>kv. is_text (snd kv)) d"
    by (auto simp: the_descriptor_def bindE_eq_Inr_iff Let_def)
  from ds obtain e where e: "?ds = [e]" by (cases ?ds rule: remdups_adj.cases) auto
  then have "has_kind kind e" using filter_set [of "has_kind kind" "pc_extensions c"] by auto
  then have "e = JObj (descriptor_members e)" by (cases e) (auto simp: has_kind_def descriptor_members_def)
  with e d show "?ds = [JObj d]" by simp
  show "set (map fst d) = set keys" "\<forall>kv \<in> set d. is_text (snd kv)"
    using ks by (auto simp: list_all_iff)
qed

lemma descriptor_member:
  assumes "\<forall>kv \<in> set d. is_text (snd kv)" "k \<in> set (map fst d)"
  shows "dget d k = Some (JStr (descriptor_text d k))"
proof -
  from assms(2) obtain v where v: "dget d k = Some v" by (metis map_of_eq_None_iff not_Some_eq set_map)
  then have "is_text v" using assms(1) map_of_SomeD by fastforce
  with v show ?thesis by (cases v) (simp_all add: is_text_def descriptor_text_def)
qed

lemma invocation_binding_Inr:
  assumes "invocation_binding_from_context c = Inr b"
  obtains d where "b = JObj d" "filter (has_kind INVOCATION_BINDING_KIND) (pc_extensions c) = [b]"
    "set (map fst d) = set INVOCATION_BINDING_KEYS" "\<forall>kv \<in> set d. is_text (snd kv)"
    "dget d ''operation'' = Some (JStr ''service.invoke'')"
    "dget d ''caller_node_id'' = Some (JStr (pc_requester c))"
    "dget d ''tenant_domain'' = Some (JStr (pc_federation_domain c))" "pc_federation_domain c \<noteq> ''''"
    "descriptor_text d ''service_ref'' \<noteq> ''''"
proof -
  from assms obtain d where d: "the_descriptor ''invocation-binding'' INVOCATION_BINDING_KIND INVOCATION_BINDING_KEYS c = Inr d"
    and b: "b = JObj d" and t: "descriptor_text d ''operation'' = ''service.invoke''"
      "descriptor_text d ''caller_node_id'' = pc_requester c"
      "descriptor_text d ''tenant_domain'' = pc_federation_domain c" "pc_federation_domain c \<noteq> ''''"
      "descriptor_text d ''service_ref'' \<noteq> ''''"
    by (auto simp: invocation_binding_from_context_def bindE_eq_Inr_iff Let_def)
  note td = the_descriptor_Inr [OF d]
  have "dget d k = Some (JStr (descriptor_text d k))" if "k \<in> set INVOCATION_BINDING_KEYS" for k
    by (rule descriptor_member) (use td that in simp_all)
  then show thesis using that [of d] b t td by (simp add: INVOCATION_BINDING_KEYS_def)
qed

lemma promotion_binding_Inr:
  assumes "promotion_binding_from_context c = Inr b"
  obtains d s ob where "b = JObj d" "filter (has_kind PROMOTION_BINDING_KIND) (pc_extensions c) = [b]"
    "set (map fst d) = set PROMOTION_BINDING_KEYS" "\<forall>kv \<in> set d. is_text (snd kv)"
    "dget d ''operation'' = Some (JStr ''telemetry.topology-promote'')"
    "dget d ''subject_ref'' = Some (JStr s)" "dget d ''observation_id'' = Some (JStr ob)"
    "set (pc_resource_refs c) = {s, ob}"
    "descriptor_text d ''privacy_scope'' \<noteq> ''''" "descriptor_text d ''source_disclosure'' \<noteq> ''''"
proof -
  from assms obtain d where d: "the_descriptor ''promotion-binding'' PROMOTION_BINDING_KIND PROMOTION_BINDING_KEYS c = Inr d"
    and b: "b = JObj d" and t: "descriptor_text d ''operation'' = ''telemetry.topology-promote''"
      "set (pc_resource_refs c) = {descriptor_text d ''subject_ref'', descriptor_text d ''observation_id''}"
      "descriptor_text d ''privacy_scope'' \<noteq> ''''" "descriptor_text d ''source_disclosure'' \<noteq> ''''"
    by (auto simp: promotion_binding_from_context_def bindE_eq_Inr_iff Let_def)
  note td = the_descriptor_Inr [OF d]
  have "dget d k = Some (JStr (descriptor_text d k))" if "k \<in> set PROMOTION_BINDING_KEYS" for k
    by (rule descriptor_member) (use td that in simp_all)
  then show thesis
    using that [of d "descriptor_text d ''subject_ref''" "descriptor_text d ''observation_id''"] b t td
    by (simp add: PROMOTION_BINDING_KEYS_def)
qed

lemma binding_context_only:
  "invocation_binding_from_context c = Inr b \<Longrightarrow> pc_operation c = ''service.invoke''"
  "promotion_binding_from_context c = Inr b \<Longrightarrow> pc_operation c = ''telemetry.topology-promote''"
  by (simp_all add: invocation_binding_from_context_def promotion_binding_from_context_def bindE_eq_Inr_iff Let_def)

end
