(* ===== verification/Policy_Engine.thy ===== *)
theory Policy_Engine
  imports Policy_Predicates Policy_Conflict Policy_Validation Policy_Bindings
begin

text \<open>
  \<open>policy/evaluation.py\<close>: temporal windows, applicability of rules, the decision with
  its content-derived id, and \<open>PolicyEngine.evaluate\<close>, which never raises.  SHA-256 is
  the parameter \<open>sha256_hex\<close>; the words of \<open>datetime\<close>'s own \<open>ValueError\<close>, which end up
  in the detail of one decision, are the parameter \<open>calendar_text\<close>; the code points of the
  texts that are canonicalised are the parameter \<open>reading\<close>, which is \<open>lit\<close> on texts of code
  points below 256, and under which a text may have a lone surrogate.
\<close>

declare split_paired_All [simp del] split_paired_Ex [simp del]

section \<open>Windows, subjects and conditions\<close>

definition check_window :: "string \<Rightarrow> string \<Rightarrow> int \<Rightarrow> string option" where
  \<comment> \<open>\<open>_check_set_temporal\<close> and \<open>_check_rule_temporal\<close>, which differ in the record only\<close>
  "check_window valid_from valid_until now =
     (let upper =
        (if valid_until = '''' then None
         else case parse_instant valid_until of
                None \<Rightarrow> Some ''invalid-policy''
              | Some vu \<Rightarrow> if vu < now then Some ''policy-expired'' else None)
      in if valid_from = '''' then upper
         else case parse_instant valid_from of
                None \<Rightarrow> Some ''invalid-policy''
              | Some vf \<Rightarrow> if now < vf then Some ''policy-not-yet-valid'' else upper)"

definition check_set_temporal :: "policy_set \<Rightarrow> int \<Rightarrow> string option" where
  "check_set_temporal p now = check_window (ps_valid_from p) (ps_valid_until p) now"

definition check_rule_temporal :: "policy_rule \<Rightarrow> int \<Rightarrow> string option" where
  "check_rule_temporal r now = check_window (pr_valid_from r) (pr_valid_until r) now"

definition subject_matches :: "policy_rule \<Rightarrow> policy_context \<Rightarrow> bool" where
  "subject_matches r c \<longleftrightarrow>
     pr_subjects r = [] \<or> pc_requester c \<noteq> '''' \<and> pc_requester c \<in> set (pr_subjects r)"

definition condition_code :: "policy_context \<Rightarrow> condition \<Rightarrow> string" where
  "condition_code c cd = cd_predicate cd @ ''='' @ qr_code (evaluate_condition cd c)"

definition evaluate_rule_conditions :: "policy_rule \<Rightarrow> policy_context \<Rightarrow> bool \<times> string list" where
  "evaluate_rule_conditions r c =
     (list_all (\<lambda>cd. qr_matched (evaluate_condition cd c)) (pr_conditions r),
      map (condition_code c) (pr_conditions r))"

section \<open>Matching the rules of a set\<close>

definition rule_step ::
  "policy_context \<Rightarrow> int \<Rightarrow> policy_rule \<Rightarrow> policy_rule list \<times> string list \<Rightarrow> policy_rule list \<times> string list" where
  \<comment> \<open>the body of the loop: the rules matched and the predicate trace so far\<close>
  "rule_step c now r acc =
     (if pr_operation r \<noteq> pc_operation c then acc
      else if \<not> subject_matches r c then acc
      else case check_rule_temporal r now of
             Some code \<Rightarrow>
               (fst acc, snd acc @ [''rule '' @ py_repr_string (pr_rule_id r) @ '' skipped: '' @ code @ '' at ''
                                      @ pc_evaluation_instant c])
           | None \<Rightarrow>
               let (all_matched, codes) = evaluate_rule_conditions r c;
                   trace = (if codes = [] then []
                            else [''rule '' @ py_repr_string (pr_rule_id r) @ '' conditions: '' @ comma_join codes])
               in (if all_matched then fst acc @ [r] else fst acc, snd acc @ trace))"

definition match_rules :: "policy_context \<Rightarrow> int \<Rightarrow> policy_rule list \<Rightarrow> policy_rule list \<times> string list" where
  "match_rules c now rules = foldl (\<lambda>acc r. rule_step c now r acc) ([], []) rules"

section \<open>The decision\<close>

definition compute_decision_id ::
  "(string \<Rightarrow> ustr) \<Rightarrow> (bytes \<Rightarrow> string) \<Rightarrow> string jval \<Rightarrow> policy_error + string" where
  "compute_decision_id reading sha256_hex content =
     (case canonical_reading reading content of
        Inl _ \<Rightarrow> Inl (PolicyError ''canonical'')
      | Inr b \<Rightarrow> Inr (sha256_hex b))"

definition decision_of :: "string \<Rightarrow> string \<Rightarrow> string \<Rightarrow> string list \<Rightarrow> policy_set \<Rightarrow> policy_context \<Rightarrow>
    string list \<Rightarrow> string jval list \<Rightarrow> policy_decision" where
  \<comment> \<open>the arguments of \<open>_build_decision\<close> under the placeholder id\<close>
  "decision_of effect code detail ids p c trace exts =
     \<lparr>pd_decision_id = ''placeholder'', pd_effect = effect, pd_code = code, pd_detail = detail,
      pd_matched_rule_ids = ids, pd_policy_set_id = ps_set_id p, pd_policy_set_version = ps_version p,
      pd_evaluation_instant = pc_evaluation_instant c, pd_conflict_trace = trace, pd_extensions = exts\<rparr>"

definition unaudited :: "policy_decision \<Rightarrow> policy_decision" where
  \<comment> \<open>the fallback keeps the members but denies; the text of the error, which the code appends
     to its detail, is left out\<close>
  "unaudited d = d\<lparr>pd_decision_id := replicate 64 CHR ''0'', pd_effect := ''deny'',
     pd_code := ''fail-closed'', pd_detail := ''decision digest computation failed''\<rparr>"

definition build_decision ::
  "(string \<Rightarrow> ustr) \<Rightarrow> (bytes \<Rightarrow> string) \<Rightarrow> policy_decision \<Rightarrow> policy_error + policy_decision" where
  "build_decision reading sha256_hex d =
     bindE (make_policy_decision d) (\<lambda>placeholder.
       case compute_decision_id reading sha256_hex (policy_content placeholder) of
         Inl _ \<Rightarrow> make_policy_decision (unaudited d)
       | Inr i \<Rightarrow> make_policy_decision (d\<lparr>pd_decision_id := i\<rparr>))"

definition answer :: "(string \<Rightarrow> ustr) \<Rightarrow> (bytes \<Rightarrow> string) \<Rightarrow> string \<Rightarrow> string \<Rightarrow> string \<Rightarrow> string list \<Rightarrow>
    policy_set \<Rightarrow> policy_context \<Rightarrow> string list \<Rightarrow> string jval list \<Rightarrow> policy_error + policy_result" where
  \<comment> \<open>build the decision and wrap it with the same code, as every branch of \<open>evaluate\<close> does\<close>
  "answer reading sha256_hex effect code detail ids p c trace exts =
     bindE (build_decision reading sha256_hex (decision_of effect code detail ids p c trace exts)) (\<lambda>d.
       Inr \<lparr>pe_ok = True, pe_code = code, pe_decision = Some d\<rparr>)"

definition rejected :: "string \<Rightarrow> policy_error + policy_result" where
  "rejected code = Inr \<lparr>pe_ok = False, pe_code = code, pe_decision = None\<rparr>"

section \<open>Evaluation\<close>

definition bound_extensions_of :: "policy_context \<Rightarrow> policy_error + string jval list" where
  "bound_extensions_of c =
     (if pc_operation c = ''service.invoke''
      then bindE (invocation_binding_from_context c) (\<lambda>b. Inr [b])
      else if pc_operation c = ''telemetry.topology-promote''
      then bindE (promotion_binding_from_context c) (\<lambda>b. Inr [b])
      else Inr [])"

definition has_instant_shape :: "string \<Rightarrow> bool" where
  \<comment> \<open>\<open>RFC3339_UTC_RE.fullmatch\<close>\<close>
  "has_instant_shape v \<longleftrightarrow> matches_template (take 19 v) \<and> fraction_digits (drop 19 v) \<noteq> None"

definition temporal_error_text :: "(string \<Rightarrow> string) \<Rightarrow> string \<Rightarrow> string" where
  "temporal_error_text calendar_text v =
     (if \<not> has_instant_shape v
      then ''timestamp '' @ py_repr_string v @ '' is not RFC 3339 UTC (YYYY-MM-DDTHH:MM:SS[.f]Z)''
      else ''timestamp '' @ py_repr_string v @ '' is not a valid calendar instant: '' @ calendar_text v)"

definition evaluate_matched :: "(string \<Rightarrow> ustr) \<Rightarrow> (bytes \<Rightarrow> string) \<Rightarrow> policy_set \<Rightarrow> policy_context \<Rightarrow> string jval list \<Rightarrow>
    policy_rule list \<Rightarrow> string list \<Rightarrow> policy_error + policy_result" where
  "evaluate_matched reading sha256_hex p c exts matched predicate_trace =
     (if matched = [] then
        (if is_privileged (pc_operation c)
         then answer reading sha256_hex ''deny'' ''default-deny''
                (''no applicable privileged rule -> deny-by-default (operation='' @
                   py_repr_string (pc_operation c) @ '')'') [] p c predicate_trace exts
         else if ps_default_effect p = ''deny''
         then answer reading sha256_hex ''deny'' ''default-deny''
                (''no applicable rule for non-privileged operation '' @ py_repr_string (pc_operation c) @
                   ''; default_effect=DENY'') [] p c predicate_trace exts
         else answer reading sha256_hex ''allow'' ''allow''
                (''no applicable rule for non-privileged operation '' @ py_repr_string (pc_operation c) @
                   ''; default_effect=ALLOW'') [] p c predicate_trace exts)
      else
        let (winning, ids, conflict_trace) = resolve_conflicts matched p; trace = conflict_trace @ predicate_trace in
        case winning of
          None \<Rightarrow> answer reading sha256_hex ''deny'' ''conflict''
                    (''unresolved equal-precedence conflict among rules '' @ py_repr_list ids) ids p c trace exts
        | Some effect \<Rightarrow>
            if effect = ''require-review''
            then answer reading sha256_hex ''deny'' ''fail-closed''
                   (''require-review winner '' @ py_repr_list ids @
                      '' -- decision deferred to an authorized reviewer (no silent ALLOW)'') ids p c trace exts
            else answer reading sha256_hex effect (if effect = ''deny'' then ''deny'' else ''allow'')
                   (effect @ '' by rule(s) '' @ py_repr_list ids) ids p c trace exts)"

definition evaluate_reading :: "(string \<Rightarrow> ustr) \<Rightarrow> (bytes \<Rightarrow> string) \<Rightarrow> (string \<Rightarrow> string) \<Rightarrow> policy_set \<Rightarrow>
    policy_context \<Rightarrow> policy_error + policy_result" where
  \<comment> \<open>\<open>Inl\<close> is an exception that leaves \<open>evaluate\<close>; the texts of the set and the context are
     canonicalised as the code points of their reading\<close>
  "evaluate_reading reading sha256_hex calendar_text p c =
     (case validate_policy_set p of
        Inl _ \<Rightarrow> rejected ''invalid-policy''
      | Inr _ \<Rightarrow>
     (case validate_policy_context c of
        Inl (PolicyError code) \<Rightarrow>
          rejected (if code = ''requester'' \<or> code = ''node-id'' then ''invalid-subject'' else ''invalid-policy'')
      | Inr _ \<Rightarrow>
     (case bound_extensions_of c of
        Inl _ \<Rightarrow> rejected ''invalid-policy''
      | Inr exts \<Rightarrow>
          if pc_evaluation_instant c = ''''
          then answer reading sha256_hex ''deny'' ''fail-closed''
                 ''context.evaluation_instant is required (injected; no wall-clock reads)'' [] p c [] exts
          else case parse_instant (pc_evaluation_instant c) of
            None \<Rightarrow> answer reading sha256_hex ''deny'' ''fail-closed''
                (''context.evaluation_instant '' @ py_repr_string (pc_evaluation_instant c) @ '' is not RFC 3339 UTC: '' @
                   temporal_error_text calendar_text (pc_evaluation_instant c)) [] p c [] exts
          | Some now \<Rightarrow>
              (case check_set_temporal p now of
                 Some code \<Rightarrow> answer reading sha256_hex ''deny'' code
                   (''policy set '' @ py_repr_string (ps_set_id p) @ '' is '' @ code @ '' at '' @ pc_evaluation_instant c)
                   [] p c [] exts
               | None \<Rightarrow>
                   let (matched, predicate_trace) = match_rules c now (ps_rules p)
                   in evaluate_matched reading sha256_hex p c exts matched predicate_trace))))"

definition policy_evaluate ::
  "(bytes \<Rightarrow> string) \<Rightarrow> (string \<Rightarrow> string) \<Rightarrow> policy_set \<Rightarrow> policy_context \<Rightarrow> policy_error + policy_result" where
  \<comment> \<open>on texts of code points below 256\<close>
  "policy_evaluate sha256_hex calendar_text p c = evaluate_reading lit sha256_hex calendar_text p c"

definition default_deny :: "(string \<Rightarrow> ustr) \<Rightarrow> (bytes \<Rightarrow> string) \<Rightarrow> policy_set \<Rightarrow> policy_context \<Rightarrow> string list \<Rightarrow> string list \<Rightarrow>
    policy_error + policy_decision" where
  \<comment> \<open>\<open>_deny_bound_extensions\<close> may raise here\<close>
  "default_deny reading sha256_hex p c ids trace =
     bindE (bound_extensions_of c) (\<lambda>exts.
       build_decision reading sha256_hex (decision_of ''deny'' ''default-deny''
         ''no applicable privileged rule -> deny-by-default'' ids p c trace exts))"

end
