(* ===== verification/Policy_Outcome.thy ===== *)
theory Policy_Outcome
  imports Policy_Engine
begin

text \<open>
  What the engine's parts compute: the matched rules are a filter of the set's rules, a
  decision built from texts of code points below 256 has canonical bytes and so carries
  their digest, and under any reading of the texts \<open>evaluate\<close> is one of the listed outcomes.
\<close>

declare split_paired_All [simp del] split_paired_Ex [simp del]

section \<open>The matched rules\<close>

definition rule_matches :: "policy_context \<Rightarrow> int \<Rightarrow> policy_rule \<Rightarrow> bool" where
  "rule_matches c now r \<longleftrightarrow>
     pr_operation r = pc_operation c \<and> subject_matches r c \<and> check_rule_temporal r now = None \<and>
     (\<forall>cd \<in> set (pr_conditions r). qr_matched (evaluate_condition cd c))"

lemma rule_step_fst:
  "fst (rule_step c now r acc) = fst acc @ (if rule_matches c now r then [r] else [])"
  by (auto simp: rule_step_def rule_matches_def evaluate_rule_conditions_def list_all_iff split: option.splits)

lemma match_rules_filter: "fst (match_rules c now rules) = filter (rule_matches c now) rules"
  by (induction rules rule: rev_induct) (simp_all add: match_rules_def rule_step_fst)

definition rule_trace :: "policy_context \<Rightarrow> int \<Rightarrow> policy_rule \<Rightarrow> string list" where
  \<comment> \<open>what one rule adds to the predicate trace\<close>
  "rule_trace c now r = snd (rule_step c now r ([], []))"

lemma rule_step_snd: "snd (rule_step c now r acc) = snd acc @ rule_trace c now r"
  by (auto simp: rule_trace_def rule_step_def evaluate_rule_conditions_def split: option.splits)

lemma match_rules_trace: "snd (match_rules c now rules) = concat (map (rule_trace c now) rules)"
  by (induction rules rule: rev_induct) (simp_all add: match_rules_def rule_step_snd)

section \<open>Decisions have canonical bytes\<close>

definition flat_doc :: "string jval \<Rightarrow> bool" where
  \<comment> \<open>an object of texts\<close>
  "flat_doc v \<longleftrightarrow> (\<exists>d. v = JObj d \<and> (\<forall>kv \<in> set d. is_text (snd kv)))"

lemma text_canon: "is_text v \<Longrightarrow> n \<le> 3 \<Longrightarrow> canon_ok n (map_jval lit v)"
  by (cases v) (simp_all add: is_text_def MAX_CANONICAL_DEPTH_def)

lemma flat_doc_canon:
  assumes "flat_doc v" "n \<le> 2"
  shows "canon_ok n (map_jval lit v)"
proof -
  from assms(1) obtain d where d: "v = JObj d" "\<And>kv. kv \<in> set d \<Longrightarrow> is_text (snd kv)"
    by (auto simp: flat_doc_def)
  have "canon_ok (Suc n) (map_jval lit (snd kv))" if "kv \<in> set d" for kv
    by (rule text_canon) (use d(2) [OF that] assms(2) in simp_all)
  then show ?thesis using d(1) assms(2) by (simp add: MAX_CANONICAL_DEPTH_def)
qed

lemma bound_extensions_flat:
  assumes "bound_extensions_of c = Inr exts"
  shows "\<forall>v \<in> set exts. flat_doc v" "list_all is_mapping exts"
proof -
  have "flat_doc b" if "invocation_binding_from_context c = Inr b" for b
    using that by (rule invocation_binding_Inr) (simp add: flat_doc_def)
  moreover have "flat_doc b" if "promotion_binding_from_context c = Inr b" for b
    using that by (rule promotion_binding_Inr) (simp add: flat_doc_def)
  ultimately show *: "\<forall>v \<in> set exts. flat_doc v"
    using assms by (auto simp: bound_extensions_of_def bindE_eq_Inr_iff split: if_splits)
  show "list_all is_mapping exts" using * by (auto simp: list_all_iff flat_doc_def is_mapping_def)
qed

lemma policy_content_canonical:
  assumes "\<forall>v \<in> set (pd_extensions d). flat_doc v"
  shows "isOk (canonical_bytes (policy_content d))"
proof -
  have "canon_ok 0 (map_jval lit (policy_content d))"
    using assms flat_doc_canon by (auto simp: policy_content_def texts_doc_def MAX_CANONICAL_DEPTH_def)
  then show ?thesis by (simp add: canonical_bytes_def canonical_json_bytes_ok)
qed

definition audited :: "(string \<Rightarrow> ustr) \<Rightarrow> (bytes \<Rightarrow> string) \<Rightarrow> policy_decision \<Rightarrow> bool" where
  \<comment> \<open>the id is the digest of the content under a reading of its texts\<close>
  "audited reading sha256_hex d \<longleftrightarrow>
     (\<exists>b. canonical_reading reading (policy_content d) = Inr b \<and> pd_decision_id d = sha256_hex b)"

definition committed :: "(bytes \<Rightarrow> string) \<Rightarrow> policy_decision \<Rightarrow> bool" where
  \<comment> \<open>the id is the digest of the content\<close>
  "committed sha256_hex d \<longleftrightarrow> (\<exists>b. canonical_bytes (policy_content d) = Inr b \<and> pd_decision_id d = sha256_hex b)"

lemma policy_content_id [simp]: "policy_content (d\<lparr>pd_decision_id := i\<rparr>) = policy_content d"
  by (simp add: policy_content_def)

lemma make_decision_id:
  assumes "make_policy_decision d = Inr d" "i \<noteq> ''''"
  shows "make_policy_decision (d\<lparr>pd_decision_id := i\<rparr>) = Inr (d\<lparr>pd_decision_id := i\<rparr>)"
  using assms by (auto simp: make_policy_decision_def split: if_splits)

lemma unaudited_content [simp]:
  "pd_effect (unaudited d) = ''deny''" "pd_code (unaudited d) = ''fail-closed''"
  "unaudited (d\<lparr>pd_decision_id := i, pd_effect := e, pd_code := k, pd_detail := t\<rparr>) = unaudited d"
  by (simp_all add: unaudited_def)

lemma make_decision_unaudited:
  "make_policy_decision d = Inr d \<Longrightarrow> make_policy_decision (unaudited d) = Inr (unaudited d)"
  by (auto simp: make_policy_decision_def unaudited_def decision_codes_def effect_values_def split: if_splits)

lemma build_decision_cases:
  assumes "make_policy_decision d = Inr d" "digest_fun sha256_hex"
  obtains (audited) b where "canonical_reading reading (policy_content d) = Inr b"
      "build_decision reading sha256_hex d = Inr (d\<lparr>pd_decision_id := sha256_hex b\<rparr>)"
      "make_policy_decision (d\<lparr>pd_decision_id := sha256_hex b\<rparr>) = Inr (d\<lparr>pd_decision_id := sha256_hex b\<rparr>)"
  | (unaudited) "\<not> isOk (canonical_reading reading (policy_content d))"
      "build_decision reading sha256_hex d = Inr (unaudited d)" "make_policy_decision (unaudited d) = Inr (unaudited d)"
proof (cases "canonical_reading reading (policy_content d)")
  case (Inl e)
  then show thesis
    using make_decision_unaudited [OF assms(1)] unaudited by (simp add: build_decision_def assms(1) compute_decision_id_def)
next
  case (Inr b)
  have "sha256_hex b \<noteq> ''''" using assms(2) by (auto simp: digest_fun_def digest_ok_def dest: spec [of _ b])
  note m = make_decision_id [OF assms(1) this]
  have "build_decision reading sha256_hex d = Inr (d\<lparr>pd_decision_id := sha256_hex b\<rparr>)"
    by (simp add: build_decision_def assms(1) compute_decision_id_def Inr m)
  then show thesis using audited [OF Inr] m by blast
qed

lemma build_decision_commits:
  assumes "make_policy_decision d = Inr d" "\<forall>v \<in> set (pd_extensions d). flat_doc v" "digest_fun sha256_hex"
  obtains i where "build_decision lit sha256_hex d = Inr (d\<lparr>pd_decision_id := i\<rparr>)"
    "committed sha256_hex (d\<lparr>pd_decision_id := i\<rparr>)"
    "make_policy_decision (d\<lparr>pd_decision_id := i\<rparr>) = Inr (d\<lparr>pd_decision_id := i\<rparr>)"
  using assms(1,3)
proof (cases rule: build_decision_cases [where reading = lit])
  case (audited b)
  then show thesis using that [of "sha256_hex b"] by (simp add: committed_def)
qed (use policy_content_canonical [OF assms(2)] in simp)

section \<open>Outcomes\<close>

text \<open>
  What a branch of \<open>evaluate\<close> decides, before the decision is built: the verdict of the
  rules, and the verdict of a validated set and context.
\<close>

record verdict =
  vd_effect :: string
  vd_code :: string
  vd_detail :: string
  vd_ids :: "string list"
  vd_trace :: "string list"

definition rules_verdict :: "policy_set \<Rightarrow> policy_context \<Rightarrow> policy_rule list \<Rightarrow> string list \<Rightarrow> verdict" where
  "rules_verdict p c matched trace =
     (case resolve_conflicts matched p of (winning, ids, lines) \<Rightarrow>
        if matched = [] then
          (if is_privileged (pc_operation c)
           then \<lparr>vd_effect = ''deny'', vd_code = ''default-deny'', vd_detail =
                  ''no applicable privileged rule -> deny-by-default (operation='' @
                   py_repr_string (pc_operation c) @ '')'', vd_ids = [], vd_trace = trace\<rparr>
           else if ps_default_effect p = ''deny''
           then \<lparr>vd_effect = ''deny'', vd_code = ''default-deny'', vd_detail =
                  ''no applicable rule for non-privileged operation '' @ py_repr_string (pc_operation c) @
                   ''; default_effect=DENY'', vd_ids = [], vd_trace = trace\<rparr>
           else \<lparr>vd_effect = ''allow'', vd_code = ''allow'', vd_detail =
                  ''no applicable rule for non-privileged operation '' @ py_repr_string (pc_operation c) @
                   ''; default_effect=ALLOW'', vd_ids = [], vd_trace = trace\<rparr>)
        else if winning = None
        then \<lparr>vd_effect = ''deny'', vd_code = ''conflict'', vd_detail =
                ''unresolved equal-precedence conflict among rules '' @ py_repr_list ids, vd_ids = ids,
              vd_trace = lines @ trace\<rparr>
        else if winning = Some ''require-review''
        then \<lparr>vd_effect = ''deny'', vd_code = ''fail-closed'', vd_detail =
                ''require-review winner '' @ py_repr_list ids @
                  '' -- decision deferred to an authorized reviewer (no silent ALLOW)'', vd_ids = ids,
              vd_trace = lines @ trace\<rparr>
        else \<lparr>vd_effect = the winning, vd_code = (if the winning = ''deny'' then ''deny'' else ''allow''),
              vd_detail = the winning @ '' by rule(s) '' @ py_repr_list ids, vd_ids = ids, vd_trace = lines @ trace\<rparr>)"

definition answer_verdict :: "(string \<Rightarrow> ustr) \<Rightarrow> (bytes \<Rightarrow> string) \<Rightarrow> policy_set \<Rightarrow> policy_context \<Rightarrow>
    string jval list \<Rightarrow> verdict \<Rightarrow> policy_error + policy_result" where
  "answer_verdict reading h p c exts v =
     answer reading h (vd_effect v) (vd_code v) (vd_detail v) (vd_ids v) p c (vd_trace v) exts"

lemma evaluate_matched_verdict:
  "evaluate_matched reading h p c exts matched trace = answer_verdict reading h p c exts (rules_verdict p c matched trace)"
  by (cases "resolve_conflicts matched p")
    (auto simp: evaluate_matched_def rules_verdict_def answer_verdict_def split: option.split)

definition verdict_of :: "(string \<Rightarrow> string) \<Rightarrow> policy_set \<Rightarrow> policy_context \<Rightarrow> verdict" where
  "verdict_of cal p c =
     (let closed = (\<lambda>code detail. \<lparr>vd_effect = ''deny'', vd_code = code, vd_detail = detail, vd_ids = [], vd_trace = []\<rparr>)
      in if pc_evaluation_instant c = ''''
         then closed ''fail-closed'' ''context.evaluation_instant is required (injected; no wall-clock reads)''
         else case parse_instant (pc_evaluation_instant c) of
           None \<Rightarrow> closed ''fail-closed''
             (''context.evaluation_instant '' @ py_repr_string (pc_evaluation_instant c) @ '' is not RFC 3339 UTC: '' @
                temporal_error_text cal (pc_evaluation_instant c))
         | Some now \<Rightarrow>
             (case check_set_temporal p now of
                Some code \<Rightarrow> closed code
                  (''policy set '' @ py_repr_string (ps_set_id p) @ '' is '' @ code @ '' at '' @ pc_evaluation_instant c)
              | None \<Rightarrow> rules_verdict p c (filter (rule_matches c now) (ps_rules p))
                          (concat (map (rule_trace c now) (ps_rules p)))))"

lemma evaluate_reading_verdict:
  assumes "validate_policy_set p = Inr ()" "validate_policy_context c = Inr ()" "bound_extensions_of c = Inr exts"
  shows "evaluate_reading reading h cal p c = answer_verdict reading h p c exts (verdict_of cal p c)"
proof -
  have m: "match_rules c now rules
      = (filter (rule_matches c now) rules, concat (map (rule_trace c now) rules))" for now rules
    by (rule prod_eqI) (simp_all add: match_rules_filter match_rules_trace)
  show ?thesis
    using assms by (simp add: evaluate_reading_def verdict_of_def m evaluate_matched_verdict Let_def
        answer_verdict_def [where v = "verdict.make _ _ _ _ _", unfolded verdict.defs] split: option.split)
qed

lemmas policy_evaluate_verdict = evaluate_reading_verdict [where reading = lit, folded policy_evaluate_def]

lemma evaluate_reading_rejected:
  assumes "\<not> (isOk (validate_policy_set p) \<and> isOk (validate_policy_context c) \<and> isOk (bound_extensions_of c))"
  shows "evaluate_reading reading h cal p c \<in> {rejected ''invalid-policy'', rejected ''invalid-subject''}"
proof (cases "validate_policy_set p")
  case p: (Inr u)
  show ?thesis
  proof (cases "validate_policy_context c")
    case c: (Inr u)
    then obtain e where "bound_extensions_of c = Inl e" using assms p by (cases "bound_extensions_of c") auto
    with p c show ?thesis by (simp add: evaluate_reading_def)
  qed (use p in \<open>simp add: evaluate_reading_def split: policy_error.split\<close>)
qed (simp add: evaluate_reading_def)

lemmas policy_evaluate_rejected = evaluate_reading_rejected [where reading = lit, folded policy_evaluate_def]

section \<open>Properties of verdicts and answers\<close>

lemma all_privileged: "op \<in> set policy_operations \<Longrightarrow> is_privileged op"
  by (simp add: policy_operations_def is_privileged_def)

lemma check_window_codes:
  "check_window a b now = Some code \<Longrightarrow> code \<in> {''invalid-policy'', ''policy-expired'', ''policy-not-yet-valid''}"
  by (auto simp: check_window_def Let_def split: if_splits option.splits)

lemma rules_verdict_allow:
  assumes "vd_effect (rules_verdict p c rs trace) = ''allow''" "is_privileged (pc_operation c)"
  obtains r where "r \<in> set rs" "pr_effect r = ''allow''" "top_level p rs = [r]"
    "vd_ids (rules_verdict p c rs trace) = [pr_rule_id r]" "vd_code (rules_verdict p c rs trace) = ''allow''"
proof -
  obtain w ids ls where w: "resolve_conflicts rs p = (w, ids, ls)" by (metis prod_cases3)
  have "w = Some ''allow''" "rs \<noteq> []"
    using assms w by (auto simp: rules_verdict_def split: if_splits)
  then have "fst (resolve_conflicts rs p) = Some ''allow''" using w by simp
  then obtain r where r: "r \<in> set rs" "pr_effect r = ''allow''" "top_level p rs = [r]"
    "fst (snd (resolve_conflicts rs p)) = [pr_rule_id r]" by (rule resolve_allow)
  then have "ids = [pr_rule_id r]" using w by simp
  moreover have "vd_ids (rules_verdict p c rs trace) = ids" "vd_code (rules_verdict p c rs trace) = ''allow''"
    using w \<open>w = _\<close> \<open>rs \<noteq> []\<close> by (simp_all add: rules_verdict_def)
  ultimately show thesis using that [OF r(1-3)] by simp
qed

definition verdict_ok :: "verdict \<Rightarrow> bool" where
  \<comment> \<open>two of the codes are never given\<close>
  "verdict_ok v \<longleftrightarrow> vd_effect v \<in> {''allow'', ''deny''} \<and>
     vd_code v \<in> set decision_codes - {''missing-fact'', ''unsupported-predicate''} \<and>
     (vd_effect v = ''allow'' \<longleftrightarrow> vd_code v = ''allow'')"

lemma rules_verdict_ok:
  assumes "\<forall>r \<in> set rs. pr_effect r \<in> {''allow'', ''deny'', ''require-review''}"
  shows "verdict_ok (rules_verdict p c rs trace)"
proof -
  obtain w ids ls where w: "resolve_conflicts rs p = (w, ids, ls)" by (metis prod_cases3)
  have "\<And>e. w = Some e \<Longrightarrow> e \<in> {''allow'', ''deny'', ''require-review''}"
    using resolve_effect_values [of rs p] assms w by simp
  then show ?thesis
    by (cases w) (auto simp: rules_verdict_def w verdict_ok_def decision_codes_def)
qed

lemma verdict_of_ok:
  assumes "validate_policy_set p = Inr ()"
  shows "verdict_ok (verdict_of cal p c)"
proof -
  have "verdict_ok (rules_verdict p c (filter P (ps_rules p)) tr)" for P tr
    by (rule rules_verdict_ok) (use validated_set_rules [OF assms] validated_rule_effect in auto)
  note rules = this
  have window: "code \<in> set decision_codes - {''missing-fact'', ''unsupported-predicate'', ''allow''}" if "check_set_temporal p now = Some code" for now code
    using check_window_codes [OF that [unfolded check_set_temporal_def]] by (auto simp: decision_codes_def)
  have closed: "verdict_ok \<lparr>vd_effect = ''deny'', vd_code = code, vd_detail = t, vd_ids = [], vd_trace = []\<rparr>"
    if "code \<in> set decision_codes - {''missing-fact'', ''unsupported-predicate'', ''allow''}" for code t
    using that by (simp add: verdict_ok_def)
  have fc: "''fail-closed'' \<in> set decision_codes - {''missing-fact'', ''unsupported-predicate'', ''allow''}"
    by (simp add: decision_codes_def)
  show ?thesis
  proof (cases "pc_evaluation_instant c = ''''")
    case True
    then show ?thesis unfolding verdict_of_def Let_def by (simp only: refl if_True closed [OF fc])
  next
    case nonempty: False
    show ?thesis
    proof (cases "parse_instant (pc_evaluation_instant c)")
      case None
      with nonempty show ?thesis unfolding verdict_of_def Let_def by (simp only: if_False option.case closed [OF fc])
    next
      case (Some now)
      then show ?thesis
        using nonempty rules closed [OF window] unfolding verdict_of_def Let_def
        by (cases "check_set_temporal p now") (simp_all only: if_False option.case)
    qed
  qed
qed

definition drafted :: "(string \<Rightarrow> string) \<Rightarrow> policy_set \<Rightarrow> policy_context \<Rightarrow> string jval list \<Rightarrow> policy_decision" where
  \<comment> \<open>the decision of a verdict before it has an id\<close>
  "drafted cal p c exts = (let v = verdict_of cal p c
     in decision_of (vd_effect v) (vd_code v) (vd_detail v) (vd_ids v) p c (vd_trace v) exts)"

lemma drafted_fields [simp]:
  "pd_effect (drafted cal p c exts) = vd_effect (verdict_of cal p c)" "pd_code (drafted cal p c exts) = vd_code (verdict_of cal p c)"
  "pd_matched_rule_ids (drafted cal p c exts) = vd_ids (verdict_of cal p c)" "pd_extensions (drafted cal p c exts) = exts"
  by (simp_all add: drafted_def decision_of_def Let_def)

lemma drafted_made:
  assumes "make_policy_set p = Inr p" "validate_policy_set p = Inr ()" "bound_extensions_of c = Inr exts"
  shows "make_policy_decision (drafted cal p c exts) = Inr (drafted cal p c exts)"
  using verdict_of_ok [OF assms(2), of cal c] assms(1) bound_extensions_flat(2) [OF assms(3)]
  by (auto simp: make_policy_decision_def drafted_def decision_of_def verdict_ok_def make_policy_set_def Let_def
      split: if_splits)

lemma evaluate_reading_cases:
  assumes "make_policy_set p = Inr p" "digest_fun h"
  obtains (rejected) code where "evaluate_reading reading h cal p c = Inr \<lparr>pe_ok = False, pe_code = code, pe_decision = None\<rparr>"
      "code \<in> {''invalid-policy'', ''invalid-subject''}"
      "\<not> (isOk (validate_policy_set p) \<and> isOk (validate_policy_context c) \<and> isOk (bound_extensions_of c))"
  | (audited) exts b where "bound_extensions_of c = Inr exts"
      "canonical_reading reading (policy_content (drafted cal p c exts)) = Inr b"
      "evaluate_reading reading h cal p c = Inr \<lparr>pe_ok = True, pe_code = pd_code (drafted cal p c exts),
         pe_decision = Some ((drafted cal p c exts)\<lparr>pd_decision_id := h b\<rparr>)\<rparr>"
      "make_policy_decision ((drafted cal p c exts)\<lparr>pd_decision_id := h b\<rparr>)
         = Inr ((drafted cal p c exts)\<lparr>pd_decision_id := h b\<rparr>)"
      "verdict_ok (verdict_of cal p c)" "validate_policy_set p = Inr ()" "validate_policy_context c = Inr ()"
  | (unaudited) exts where "bound_extensions_of c = Inr exts"
      "\<not> isOk (canonical_reading reading (policy_content (drafted cal p c exts)))"
      "evaluate_reading reading h cal p c = Inr \<lparr>pe_ok = True, pe_code = pd_code (drafted cal p c exts),
         pe_decision = Some (unaudited (drafted cal p c exts))\<rparr>"
      "make_policy_decision (unaudited (drafted cal p c exts)) = Inr (unaudited (drafted cal p c exts))"
      "verdict_ok (verdict_of cal p c)" "validate_policy_set p = Inr ()" "validate_policy_context c = Inr ()"
proof (cases "isOk (validate_policy_set p) \<and> isOk (validate_policy_context c) \<and> isOk (bound_extensions_of c)")
  case False
  then have "evaluate_reading reading h cal p c \<in> {Policy_Engine.rejected ''invalid-policy'', Policy_Engine.rejected ''invalid-subject''}"
    by (rule evaluate_reading_rejected)
  then show thesis using rejected [OF _ _ False] unfolding rejected_def by blast
next
  case True
  then obtain exts where ok: "validate_policy_set p = Inr ()" "validate_policy_context c = Inr ()"
    "bound_extensions_of c = Inr exts" by (auto simp: isOk_iff)
  let ?d = "drafted cal p c exts"
  note v = verdict_of_ok [OF ok(1), of cal c]
  have e: "evaluate_reading reading h cal p c = bindE (build_decision reading h ?d)
      (\<lambda>d. Inr \<lparr>pe_ok = True, pe_code = pd_code ?d, pe_decision = Some d\<rparr>)"
    unfolding evaluate_reading_verdict [OF ok] answer_verdict_def answer_def
    by (simp add: drafted_def decision_of_def Let_def)
  from drafted_made [OF assms(1) ok(1,3), of cal] assms(2) show thesis
  proof (cases rule: build_decision_cases [where reading = reading])
    case (audited b)
    then show thesis using that(2) [OF ok(3) audited(1) _ _ v ok(1,2)] e by simp
  next
    case unaudited
    then show thesis using that(3) [OF ok(3) unaudited(1) _ _ v ok(1,2)] e by simp
  qed
qed

lemma answer_verdict_commits:
  assumes "make_policy_set p = Inr p" "verdict_ok v" "bound_extensions_of c = Inr exts" "digest_fun h"
  obtains d where "answer_verdict lit h p c exts v = Inr \<lparr>pe_ok = True, pe_code = vd_code v, pe_decision = Some d\<rparr>"
    "committed h d" "make_policy_decision d = Inr d"
    "pd_effect d = vd_effect v" "pd_code d = vd_code v" "pd_detail d = vd_detail v"
    "pd_matched_rule_ids d = vd_ids v" "pd_conflict_trace d = vd_trace v" "pd_extensions d = exts"
    "pd_policy_set_id d = ps_set_id p" "pd_policy_set_version d = ps_version p"
    "pd_evaluation_instant d = pc_evaluation_instant c"
proof -
  let ?d = "decision_of (vd_effect v) (vd_code v) (vd_detail v) (vd_ids v) p c (vd_trace v) exts"
  note fl = bound_extensions_flat [OF assms(3)]
  have "make_policy_decision ?d = Inr ?d"
    using assms(1,2) fl(2)
    by (auto simp: make_policy_decision_def decision_of_def verdict_ok_def make_policy_set_def split: if_splits)
  moreover have "\<forall>v \<in> set (pd_extensions ?d). flat_doc v" using fl(1) by (simp add: decision_of_def)
  ultimately obtain i where "build_decision lit h ?d = Inr (?d\<lparr>pd_decision_id := i\<rparr>)"
    "committed h (?d\<lparr>pd_decision_id := i\<rparr>)" "make_policy_decision (?d\<lparr>pd_decision_id := i\<rparr>) = Inr (?d\<lparr>pd_decision_id := i\<rparr>)"
    using assms(4) by (rule build_decision_commits)
  then show thesis
    using that [of "?d\<lparr>pd_decision_id := i\<rparr>"] by (simp add: answer_verdict_def answer_def decision_of_def)
qed

lemma policy_evaluate_cases:
  assumes "make_policy_set p = Inr p" "digest_fun h"
  obtains (rejected) code where "policy_evaluate h cal p c = Inr \<lparr>pe_ok = False, pe_code = code, pe_decision = None\<rparr>"
      "code \<in> {''invalid-policy'', ''invalid-subject''}"
  | (decided) exts d where "validate_policy_set p = Inr ()" "validate_policy_context c = Inr ()"
      "bound_extensions_of c = Inr exts"
      "policy_evaluate h cal p c = Inr \<lparr>pe_ok = True, pe_code = pd_code d, pe_decision = Some d\<rparr>"
      "committed h d" "make_policy_decision d = Inr d"
      "pd_effect d = vd_effect (verdict_of cal p c)" "pd_code d = vd_code (verdict_of cal p c)"
      "pd_detail d = vd_detail (verdict_of cal p c)" "pd_matched_rule_ids d = vd_ids (verdict_of cal p c)"
      "pd_conflict_trace d = vd_trace (verdict_of cal p c)" "pd_extensions d = exts"
      "pd_policy_set_id d = ps_set_id p" "pd_policy_set_version d = ps_version p"
      "pd_evaluation_instant d = pc_evaluation_instant c"
proof (cases "isOk (validate_policy_set p) \<and> isOk (validate_policy_context c) \<and> isOk (bound_extensions_of c)")
  case False
  then have "policy_evaluate h cal p c \<in> {rejected ''invalid-policy'', rejected ''invalid-subject''}"
    by (rule policy_evaluate_rejected)
  then show thesis using rejected unfolding rejected_def by blast
next
  case True
  then obtain exts where ok: "validate_policy_set p = Inr ()" "validate_policy_context c = Inr ()"
    "bound_extensions_of c = Inr exts" by (auto simp: isOk_iff)
  show thesis
    by (rule answer_verdict_commits [OF assms(1) verdict_of_ok [OF ok(1), of cal c] ok(3) assms(2)])
      (rule decided [OF ok], simp_all add: policy_evaluate_verdict [OF ok])
qed

end
