(* ===== verification/Policy_Properties.thy ===== *)
theory Policy_Properties
  imports Policy_Outcome Routing_Engine
begin

text \<open>
  What a policy decision promises: which rule an allowance rests on, that evaluation never
  raises, that the decision's id commits its content and passes the check of the routing
  engine, that the order of the rules changes the audit lines only, and that decisions on
  bound operations carry their scope.  Two rules and their set are evaluated for the
  witnesses.
\<close>

declare split_paired_All [simp del] split_paired_Ex [simp del]

section \<open>Sample evaluations\<close>

abbreviation open_rule :: policy_rule where
  "open_rule \<equiv> sample_rule ''open'' ''allow'' 0 [credential_held]"

abbreviation zone_rule :: policy_rule where
  "zone_rule \<equiv> sample_rule ''zone'' ''deny'' 1 [in_zone]"

lemma sample_rules_ok [simp]: "validate_rule open_rule = Inr ()" "validate_rule zone_rule = Inr ()"
  by (rule sample_rule_ok; simp add: effect_values_def)+

lemma sample_request_simps [simp]:
  "bound_extensions_of (sample_request ''session.create'' labels exts) = Inr []"
  "pc_operation (sample_request operation labels exts) = operation"
  "pc_evaluation_instant (sample_request operation labels exts) = ''2024-01-01T00:00:00Z''"
  by (simp_all add: bound_extensions_of_def sample_request_def)

lemma sample_matches:
  "rule_matches (sample_request ''session.create'' labels exts) now open_rule"
  "rule_matches (sample_request ''session.create'' labels exts) now zone_rule \<longleftrightarrow> ''zone-1'' \<in> set labels"
  by (auto simp: rule_matches_def sample_rule_def sample_request_def subject_matches_def check_rule_temporal_def
      check_window_def evaluate_condition_def matchers_def credential_held_def in_zone_def match_credential_active_def
      match_locality_equals_def with_str_def require_str_def compare_fact_def satisfied_def not_matched_def missing_fact_def)

lemma sample_verdict:
  "verdict_of cal (sample_set rules) (sample_request operation labels exts)
    = rules_verdict (sample_set rules) (sample_request operation labels exts)
        (filter (rule_matches (sample_request operation labels exts) 63839664000000000) rules)
        (concat (map (rule_trace (sample_request operation labels exts) 63839664000000000) rules))"
  by (simp add: verdict_of_def sample_times check_set_temporal_def check_window_def sample_set_def)

lemma sample_evaluation:
  assumes "distinct (map pr_rule_id rules)" "\<forall>r \<in> set rules. validate_rule r = Inr ()"
    "operation \<in> set policy_operations" "set labels \<subseteq> {''zone-1''}" "\<forall>x \<in> set exts. \<not> policy_has_secret x"
    "bound_extensions_of (sample_request operation labels exts) = Inr bs"
  obtains d where "policy_evaluate sample_hash cal (sample_set rules) (sample_request operation labels exts)
      = Inr \<lparr>pe_ok = True, pe_code = pd_code d, pe_decision = Some d\<rparr>"
    "pd_effect d = vd_effect (verdict_of cal (sample_set rules) (sample_request operation labels exts))"
    "pd_code d = vd_code (verdict_of cal (sample_set rules) (sample_request operation labels exts))"
    "pd_conflict_trace d = vd_trace (verdict_of cal (sample_set rules) (sample_request operation labels exts))"
    "pd_matched_rule_ids d = vd_ids (verdict_of cal (sample_set rules) (sample_request operation labels exts))"
    "pd_extensions d = bs" "committed sample_hash d"
proof -
  note ok = sample_set_ok [OF assms(1,2)] and c = sample_request_ok [OF assms(3,4,5)]
  show thesis
    by (rule answer_verdict_commits [OF ok(1) verdict_of_ok [OF ok(2), of cal "sample_request operation labels exts"]
            assms(6) sample_hash_ok])
      (rule that, simp_all add: policy_evaluate_verdict [OF ok(2) c assms(6)])
qed

section \<open>What a decision promises\<close>

text \<open>
  C22: conflict resolution, which sorts the matched rules and keeps those tied with the
  first, follows the rules of the highest level of precedence alone: a single rule decides,
  several defer to a denial, then to a review, and otherwise are a conflict; the ids are
  those of the rules with the winning effect, or of the whole level in a conflict.
\<close>

theorem conflicts_resolve_by_level:
  "fst (resolve_conflicts rs p) = level_effect (top_level p rs) \<and>
   fst (snd (resolve_conflicts rs p)) =
     rule_ids (filter (\<lambda>r. level_effect (top_level p rs) \<in> {None, Some (pr_effect r)}) (top_level p rs))"
proof (cases "rs = []")
  case True
  then show ?thesis by (simp add: resolve_conflicts_def level_effect_def rule_ids_def)
next
  case ne: False
  let ?l = "top_level p rs"
  note ids = resolve_ids [OF ne, of p, unfolded Let_def] and eff = resolve_by_level [of rs p]
  have sym: "(\<lambda>r. e = pr_effect r) = (\<lambda>r. pr_effect r = e)" for e by (rule ext) auto
  show ?thesis
  proof (cases "length ?l = 1")
    case True
    then obtain r where r: "?l = [r]" by (cases ?l) auto
    show ?thesis unfolding eff ids r by (simp add: level_effect_def rule_ids_def)
  next
    case False
    then show ?thesis unfolding eff ids level_effect_def if_not_P [OF False] by (simp add: sym)
  qed
qed

text \<open>
  C19: a decision that allows rests on exactly one rule: an ALLOW rule of the set that
  applies to the operation and the requester, is in force at the evaluation instant, has
  all its conditions matched, is the only rule the decision names, and strictly precedes
  every other matched rule in specificity, priority and domain precedence.
\<close>

theorem allow_rests_on_one_rule:
  assumes "make_policy_set p = Inr p" "digest_fun sha256_hex"
    and "policy_evaluate sha256_hex calendar_text p c = Inr r" "pe_decision r = Some d" "pd_effect d = ''allow''"
  shows "\<exists>now rule. parse_instant (pc_evaluation_instant c) = Some now \<and> check_set_temporal p now = None \<and>
    rule \<in> set (ps_rules p) \<and> rule_matches c now rule \<and> pr_effect rule = ''allow'' \<and>
    pd_matched_rule_ids d = [pr_rule_id rule] \<and> pe_code r = ''allow'' \<and>
    (\<forall>s \<in> set (ps_rules p). rule_matches c now s \<and> s \<noteq> rule \<longrightarrow> level_key p rule < level_key p s)"
  using assms(1,2)
proof (cases rule: policy_evaluate_cases [where cal = calendar_text and c = c])
  case rejected
  with assms(3,4) show ?thesis by auto
next
  case (decided exts d')
  then have d': "d' = d" "pe_code r = pd_code d" using assms(3,4) by auto
  have "vd_effect (verdict_of calendar_text p c) = ''allow''" using decided(7) d' assms(5) by simp
  then obtain now where now: "parse_instant (pc_evaluation_instant c) = Some now" "check_set_temporal p now = None"
    and v: "verdict_of calendar_text p c = rules_verdict p c (filter (rule_matches c now) (ps_rules p))
              (concat (map (rule_trace c now) (ps_rules p)))"
    by (auto simp: verdict_of_def Let_def split: if_splits option.splits)
  have priv: "is_privileged (pc_operation c)"
    using decided(2) by (intro all_privileged) (simp add: validate_policy_context_def split: if_splits)
  have "vd_effect (rules_verdict p c (filter (rule_matches c now) (ps_rules p))
      (concat (map (rule_trace c now) (ps_rules p)))) = ''allow''"
    using decided(7) d' assms(5) v by simp
  from this priv obtain rule where rule: "rule \<in> set (filter (rule_matches c now) (ps_rules p))" "pr_effect rule = ''allow''"
    "top_level p (filter (rule_matches c now) (ps_rules p)) = [rule]"
    "vd_ids (verdict_of calendar_text p c) = [pr_rule_id rule]" "vd_code (verdict_of calendar_text p c) = ''allow''"
    unfolding v by (rule rules_verdict_allow)
  have "level_key p rule < level_key p s" if "s \<in> set (ps_rules p)" "rule_matches c now s" "s \<noteq> rule" for s
    by (rule top_level_singleton [OF rule(3)]) (use that in simp_all)
  then show ?thesis using now rule decided(8,10) d' by auto
qed


text \<open>
  C26: An allowance whose decision has no canonical form, because a rule id it rests on has
  a lone surrogate, is answered with a denial under the result code \<open>allow\<close>: the fallback
  replaces the decision but not the code of the result.
\<close>

theorem unaudited_allowance_is_answered:
  assumes "make_policy_set p = Inr p" "digest_fun sha256_hex"
    and "policy_evaluate sha256_hex calendar_text p c = Inr r" "pe_decision r = Some d" "pe_code r = ''allow''"
    and "rule_id \<in> set (pd_matched_rule_ids d)" "\<not> list_all scalar (reading rule_id)"
  shows "evaluate_reading reading sha256_hex calendar_text p c = Inr (r\<lparr>pe_decision := Some (unaudited d)\<rparr>) \<and>
    pe_ok r \<and> pd_effect d = ''allow'' \<and> pd_effect (unaudited d) = ''deny'' \<and> pd_code (unaudited d) = ''fail-closed''"
proof -
  have no: "\<not> isOk (canonical_reading reading (policy_content x))" if "rule_id \<in> set (pd_matched_rule_ids x)" for x
  proof
    assume "isOk (canonical_reading reading (policy_content x))"
    then have ok: "canon_ok 0 (map_jval reading (policy_content x))" by (simp add: canonical_reading_def canonical_json_bytes_ok)
    have "pd_matched_rule_ids x \<noteq> []" using that by auto
    with ok have "canon_ok 1 (map_jval reading (texts_doc (pd_matched_rule_ids x)))" by (simp add: policy_content_def)
    then show False using that assms(7) by (auto simp: texts_doc_def)
  qed
  show ?thesis
    using assms(1,2)
  proof (cases rule: evaluate_reading_cases [where cal = calendar_text and c = c and reading = lit])
    case (audited exts b)
    then have d: "d = (drafted calendar_text p c exts)\<lparr>pd_decision_id := sha256_hex b\<rparr>"
      "r = \<lparr>pe_ok = True, pe_code = vd_code (verdict_of calendar_text p c), pe_decision = Some d\<rparr>"
      using assms(3,4) by (auto simp: policy_evaluate_def)
    have eff: "vd_effect (verdict_of calendar_text p c) = ''allow''"
      using audited(5) assms(5) d(2) by (simp add: verdict_ok_def)
    have "rule_id \<in> set (pd_matched_rule_ids (drafted calendar_text p c exts))" using assms(6) d(1) by simp
    note none = no [OF this]
    from assms(1,2) have "evaluate_reading reading sha256_hex calendar_text p c = Inr (r\<lparr>pe_decision := Some (unaudited d)\<rparr>)"
      by (cases rule: evaluate_reading_cases [where cal = calendar_text and c = c and reading = reading])
        (use audited(1,6,7) none d(2) in \<open>auto simp: d(1) unaudited_def\<close>)
    then show ?thesis using d eff by simp
  next
    case (unaudited exts)
    then have "\<forall>v \<in> set exts. flat_doc v" using bound_extensions_flat by blast
    then show ?thesis using unaudited(2) policy_content_canonical [of "drafted calendar_text p c exts"] by simp
  qed (use assms(3,4) in \<open>auto simp: policy_evaluate_def\<close>)
qed

lemma sample_allows:
  assumes "''zone-1'' \<notin> set labels" "set labels \<subseteq> {''zone-1''}"
  obtains d where "policy_evaluate sample_hash cal (sample_set [open_rule, zone_rule]) (sample_request ''session.create'' labels [])
      = Inr \<lparr>pe_ok = True, pe_code = ''allow'', pe_decision = Some d\<rparr>"
    "pd_effect d = ''allow''" "pd_code d = ''allow''" "committed sample_hash d"
    "pd_matched_rule_ids d = [''open'']"
proof -
  let ?c = "sample_request ''session.create'' labels []" and ?rs = "[open_rule, zone_rule]"
  have "vd_effect (verdict_of cal (sample_set ?rs) ?c) = ''allow'' \<and> vd_code (verdict_of cal (sample_set ?rs) ?c) = ''allow'' \<and>
      vd_ids (verdict_of cal (sample_set ?rs) ?c) = [''open'']"
    using assms(1) by (simp add: sample_verdict sample_matches rules_verdict_def resolve_conflicts_def Let_def)
      (simp add: sample_rule_def)
  moreover obtain d where "policy_evaluate sample_hash cal (sample_set ?rs) ?c
      = Inr \<lparr>pe_ok = True, pe_code = pd_code d, pe_decision = Some d\<rparr>"
    "pd_effect d = vd_effect (verdict_of cal (sample_set ?rs) ?c)" "pd_code d = vd_code (verdict_of cal (sample_set ?rs) ?c)"
    "committed sample_hash d" "pd_matched_rule_ids d = vd_ids (verdict_of cal (sample_set ?rs) ?c)"
    by (rule sample_evaluation [of ?rs "''session.create''" labels "[]" "[]" cal])
      (use assms(2) in \<open>simp_all add: policy_operations_def\<close>, simp add: sample_rule_def)
  ultimately show thesis using that by simp
qed

theorem allow_rests_on_one_rule_witness:
  "\<exists>now rule. parse_instant ''2024-01-01T00:00:00Z'' = Some now \<and> rule \<in> {open_rule, zone_rule} \<and>
     pr_effect rule = ''allow'' \<and> rule_matches (sample_request ''session.create'' [] []) now rule"
proof -
  obtain d where d: "policy_evaluate sample_hash id (sample_set [open_rule, zone_rule]) (sample_request ''session.create'' [] [])
      = Inr \<lparr>pe_ok = True, pe_code = ''allow'', pe_decision = Some d\<rparr>" "pd_effect d = ''allow''"
    by (rule sample_allows [of "[]" id]) simp_all
  have "distinct (map pr_rule_id [open_rule, zone_rule])" by (simp add: sample_rule_def)
  then have "make_policy_set (sample_set [open_rule, zone_rule]) = Inr (sample_set [open_rule, zone_rule])"
    by (rule sample_set_ok) simp
  from allow_rests_on_one_rule [OF this sample_hash_ok d(1) _ d(2)]
  show ?thesis by (auto simp: sample_set_def)
qed


definition same_decision :: "(string \<Rightarrow> ustr) \<Rightarrow> policy_decision \<Rightarrow> policy_decision \<Rightarrow> bool" where
  \<comment> \<open>every member the digest covers is the same; the objects among the extensions may list
     their members in another order\<close>
  "same_decision reading d e \<longleftrightarrow>
     pd_effect d = pd_effect e \<and> pd_code d = pd_code e \<and> pd_policy_set_id d = pd_policy_set_id e \<and>
     pd_policy_set_version d = pd_policy_set_version e \<and> pd_evaluation_instant d = pd_evaluation_instant e \<and>
     pd_matched_rule_ids d = pd_matched_rule_ids e \<and> pd_conflict_trace d = pd_conflict_trace e \<and>
     pd_detail d = pd_detail e \<and> list_all2 (same_reading reading) (pd_extensions d) (pd_extensions e)"

lemma policy_content_fields:
  assumes inj: "inj reading" and same: "same_reading reading (policy_content d) (policy_content e)"
  shows "same_decision reading d e"
proof -
  define members where "members x =
     ([(''effect'', JStr (pd_effect x)), (''code'', JStr (pd_code x)),
       (''policy_set_id'', JStr (pd_policy_set_id x)), (''policy_set_version'', JInt (pd_policy_set_version x))]
      @ (if pd_evaluation_instant x = '''' then [] else [(''evaluation_instant'', JStr (pd_evaluation_instant x))])
      @ (if pd_matched_rule_ids x = [] then [] else [(''matched_rule_ids'', texts_doc (pd_matched_rule_ids x))])
      @ (if pd_conflict_trace x = [] then [] else [(''conflict_trace'', texts_doc (pd_conflict_trace x))])
      @ (if pd_detail x = '''' then [] else [(''detail'', JStr (pd_detail x))])
      @ (if pd_extensions x = [] then [] else [(''extensions'', JArr (pd_extensions x))]))" for x :: policy_decision
  have c: "policy_content x = JObj (members x)" for x by (simp add: members_def policy_content_def)
  have wf: "dict_wf (members x)" for x by (simp add: members_def)
  have rel: "rel_option (same_reading reading) (dget (members d) k) (dget (members e) k)" for k
    by (rule same_reading_members [OF inj]) (use same wf in \<open>simp_all only: c\<close>)
  note scalar = same_reading_scalar [OF inj] same_texts_reading [OF inj]
  have mandatory: "dget (members x) ''effect'' = Some (JStr (pd_effect x))"
    "dget (members x) ''code'' = Some (JStr (pd_code x))"
    "dget (members x) ''policy_set_id'' = Some (JStr (pd_policy_set_id x))"
    "dget (members x) ''policy_set_version'' = Some (JInt (pd_policy_set_version x))" for x
    by (simp_all add: members_def)
  have optional: "dget (members x) ''evaluation_instant'' =
      (if pd_evaluation_instant x = '''' then None else Some (JStr (pd_evaluation_instant x)))"
    "dget (members x) ''matched_rule_ids'' =
      (if pd_matched_rule_ids x = [] then None else Some (texts_doc (pd_matched_rule_ids x)))"
    "dget (members x) ''conflict_trace'' =
      (if pd_conflict_trace x = [] then None else Some (texts_doc (pd_conflict_trace x)))"
    "dget (members x) ''detail'' = (if pd_detail x = '''' then None else Some (JStr (pd_detail x)))"
    "dget (members x) ''extensions'' = (if pd_extensions x = [] then None else Some (JArr (pd_extensions x)))" for x
    by (simp_all add: members_def map_of_append map_add_def)
  have "pd_evaluation_instant d = pd_evaluation_instant e" "pd_detail d = pd_detail e"
    "pd_matched_rule_ids d = pd_matched_rule_ids e" "pd_conflict_trace d = pd_conflict_trace e"
    using rel [of "''evaluation_instant''"] rel [of "''detail''"] rel [of "''matched_rule_ids''"] rel [of "''conflict_trace''"]
    by (simp_all add: optional texts_doc_def scalar split: if_splits)
  moreover have "list_all2 (same_reading reading) (pd_extensions d) (pd_extensions e)"
    using rel [of "''extensions''"] by (auto simp: optional scalar split: if_splits)
  moreover have "pd_effect d = pd_effect e" "pd_code d = pd_code e" "pd_policy_set_id d = pd_policy_set_id e"
    "pd_policy_set_version d = pd_policy_set_version e"
    using rel [of "''effect''"] rel [of "''code''"] rel [of "''policy_set_id''"] rel [of "''policy_set_version''"]
    by (simp_all add: mandatory scalar)
  ultimately show ?thesis unfolding same_decision_def by blast
qed

lemma strip_digest: "digest_ok s \<Longrightarrow> strip_sha256 s = s"
proof -
  assume s: "digest_ok s"
  have "take 7 s \<noteq> ''sha256:''"
  proof
    assume t: "take 7 s = ''sha256:''"
    have "CHR ''s'' \<in> set (take 7 s)" unfolding t by simp
    then have "CHR ''s'' \<in> set s" by (rule in_set_takeD)
    with s show False by (auto simp: digest_ok_def list_all_iff lower_hex_def less_eq_char_def)
  qed
  then show ?thesis by (simp add: strip_sha256_def)
qed

lemma committed_tamper_evident:
  assumes "committed h d" "digest_fun h"
  shows "policy_decision_is_tamper_evident h d = Inr True" "strip_sha256 (pd_decision_id d) = pd_decision_id d"
proof -
  from assms(1) obtain b where b: "canonical_bytes (policy_content d) = Inr b" "pd_decision_id d = h b"
    by (auto simp: committed_def)
  have "digest_ok (h b)" using assms(2) by (simp add: digest_fun_def)
  then show "policy_decision_is_tamper_evident h d = Inr True" "strip_sha256 (pd_decision_id d) = pd_decision_id d"
    using b by (simp_all add: tamper_evident_defs strip_digest)
qed

text \<open>
  C20: every decision of the policy engine, the denial for a content without a canonical
  form aside, passes the routing engine's tamper check, and another decision that passes it
  under the same id has the same effect, code, set, version, instant, rules, audit lines and
  detail, and the same extensions up to the order of their members, unless the two contents
  themselves have different canonical bytes with one digest.
\<close>

theorem evaluated_decision_is_tamper_evident:
  assumes "make_policy_set p = Inr p" "digest_fun sha256_hex" "inj reading"
    and "evaluate_reading reading sha256_hex calendar_text p c = Inr r" "pe_decision r = Some d" "d \<noteq> unaudited d"
  shows "tamper_evident_reading reading sha256_hex d = Inr True \<and>
    (\<forall>d'. tamper_evident_reading reading sha256_hex d' = Inr True \<and>
          strip_sha256 (pd_decision_id d') = pd_decision_id d \<longrightarrow>
       same_decision reading d' d \<or>
       (\<exists>b b'. canonical_reading reading (policy_content d) = Inr b \<and> canonical_reading reading (policy_content d') = Inr b' \<and>
          b \<noteq> b' \<and> sha256_hex b = sha256_hex b'))"
  using assms(1,2)
proof (cases rule: evaluate_reading_cases [where cal = calendar_text and c = c and reading = reading])
  case rejected
  with assms(4,5) show ?thesis by auto
next
  case (unaudited exts)
  then have "d = Policy_Engine.unaudited (drafted calendar_text p c exts)" using assms(4,5) by auto
  then have "d = Policy_Engine.unaudited d" by (simp add: unaudited_def)
  with assms(6) show ?thesis by simp
next
  case (audited exts b)
  then have b: "canonical_reading reading (policy_content d) = Inr b" "pd_decision_id d = sha256_hex b"
    using assms(4,5) by auto
  have s: "strip_sha256 (sha256_hex b) = sha256_hex b" using assms(2) strip_digest by (simp add: digest_fun_def)
  have "same_decision reading d' d \<or>
      (\<exists>b b'. canonical_reading reading (policy_content d) = Inr b \<and> canonical_reading reading (policy_content d') = Inr b' \<and>
         b \<noteq> b' \<and> sha256_hex b = sha256_hex b')"
    if "tamper_evident_reading reading sha256_hex d' = Inr True" "strip_sha256 (pd_decision_id d') = pd_decision_id d" for d'
  proof -
    from that b(2) obtain b' where b': "canonical_reading reading (policy_content d') = Inr b'" "sha256_hex b' = sha256_hex b"
      by (auto simp: tamper_evident_reading_def split: sum.splits)
    show ?thesis
    proof (cases "b' = b")
      case True
      with b'(1) have "canonical_reading reading (policy_content d') = Inr b" by simp
      from policy_content_fields [OF assms(3) canonical_reading_same [OF this b(1)]] show ?thesis ..
    next
      case False
      then have "b \<noteq> b'" "sha256_hex b = sha256_hex b'" using b'(2) by simp_all
      then show ?thesis using b(1) b'(1) by blast
    qed
  qed
  moreover have "tamper_evident_reading reading sha256_hex d = Inr True" by (simp add: tamper_evident_reading_def b s)
  ultimately show ?thesis by simp
qed

lemma resolve_rules_update [simp]: "resolve_conflicts ms (p\<lparr>ps_rules := rs\<rparr>) = resolve_conflicts ms p"
proof -
  have "level_key (p\<lparr>ps_rules := rs\<rparr>) = level_key p" "rule_sort_key (p\<lparr>ps_rules := rs\<rparr>) = rule_sort_key p"
    by (rule ext; simp add: level_key_def rule_sort_key_def domain_precedence_index_def)+
  then show ?thesis by (simp only: resolve_conflicts_def)
qed

lemma rules_verdict_order:
  assumes "mset ms = mset ns" "distinct (map pr_rule_id ms)" "mset t = mset u"
  shows "vd_effect (rules_verdict p c ns u) = vd_effect (rules_verdict p c ms t)"
    "vd_code (rules_verdict p c ns u) = vd_code (rules_verdict p c ms t)"
    "vd_detail (rules_verdict p c ns u) = vd_detail (rules_verdict p c ms t)"
    "vd_ids (rules_verdict p c ns u) = vd_ids (rules_verdict p c ms t)"
    "mset (vd_trace (rules_verdict p c ns u)) = mset (vd_trace (rules_verdict p c ms t))"
proof -
  have e: "resolve_conflicts ns p = resolve_conflicts ms p" using resolve_order [OF assms(1,2)] by simp
  have n: "ns = [] \<longleftrightarrow> ms = []" using assms(1) by auto
  obtain w ids ls where w: "resolve_conflicts ms p = (w, ids, ls)" by (metis prod_cases3)
  show "vd_effect (rules_verdict p c ns u) = vd_effect (rules_verdict p c ms t)"
    "vd_code (rules_verdict p c ns u) = vd_code (rules_verdict p c ms t)"
    "vd_detail (rules_verdict p c ns u) = vd_detail (rules_verdict p c ms t)"
    "vd_ids (rules_verdict p c ns u) = vd_ids (rules_verdict p c ms t)"
    "mset (vd_trace (rules_verdict p c ns u)) = mset (vd_trace (rules_verdict p c ms t))"
    using assms(3) by (simp_all add: rules_verdict_def e n w)
qed

definition same_verdict :: "verdict \<Rightarrow> verdict \<Rightarrow> bool" where
  \<comment> \<open>equal but for the order of the audit lines\<close>
  "same_verdict v w \<longleftrightarrow> vd_effect v = vd_effect w \<and> vd_code v = vd_code w \<and> vd_detail v = vd_detail w \<and>
     vd_ids v = vd_ids w \<and> mset (vd_trace v) = mset (vd_trace w)"

lemma mset_concat_map: "mset xs = mset ys \<Longrightarrow> mset (concat (map f xs)) = mset (concat (map f ys))"
  by (metis mset_concat mset_map sum_mset_sum_list multiset.map_comp)

lemma verdict_of_order:
  assumes "mset rs = mset (ps_rules p)" "distinct (map pr_rule_id (ps_rules p))"
  shows "same_verdict (verdict_of cal (p\<lparr>ps_rules := rs\<rparr>) c) (verdict_of cal p c)"
proof -
  have rv: "same_verdict (rules_verdict (p\<lparr>ps_rules := rs\<rparr>) c (filter P rs) (concat (map f rs)))
      (rules_verdict p c (filter P (ps_rules p)) (concat (map f (ps_rules p))))" for P f
  proof -
    have m: "mset (filter P (ps_rules p)) = mset (filter P rs)" using assms(1) by (metis mset_filter)
    have d: "distinct (map pr_rule_id (filter P (ps_rules p)))"
      using assms(2) by (simp add: distinct_map_filter)
    have t: "mset (concat (map f (ps_rules p))) = mset (concat (map f rs))"
      by (rule mset_concat_map) (use assms(1) in simp)
    have u: "rules_verdict (p\<lparr>ps_rules := rs\<rparr>) c x y = rules_verdict p c x y" for x y
      by (simp add: rules_verdict_def)
    show ?thesis unfolding same_verdict_def u using rules_verdict_order [OF m d t] by blast
  qed
  have w: "check_set_temporal (p\<lparr>ps_rules := rs\<rparr>) now = check_set_temporal p now" for now
    by (simp add: check_set_temporal_def)
  have refl: "same_verdict v v" for v by (simp add: same_verdict_def)
  show ?thesis
    by (simp add: verdict_of_def Let_def w rv refl split: option.split)
qed

lemma validate_order:
  assumes "mset rs = mset (ps_rules p)"
  shows "isOk (validate_policy_set (p\<lparr>ps_rules := rs\<rparr>)) \<longleftrightarrow> isOk (validate_policy_set p)"
proof -
  have "set rs = set (ps_rules p)" using assms by (metis set_mset_mset)
  moreover have "distinct (map pr_rule_id rs) \<longleftrightarrow> distinct (map pr_rule_id (ps_rules p))"
    using assms by (metis mset_map mset_eq_imp_distinct_iff)
  ultimately show ?thesis by (simp add: validate_policy_set_def isOk_iff bindE_eq_Inr_iff)
qed

lemma evaluate_without_rules:
  assumes "validate_policy_set p = Inr ()" "validate_policy_set q = Inr ()"
    "\<not> (isOk (validate_policy_context c) \<and> isOk (bound_extensions_of c))"
  shows "policy_evaluate h cal p c = policy_evaluate h cal q c"
  using assms by (cases "validate_policy_context c"; cases "bound_extensions_of c") (simp_all add: policy_evaluate_def evaluate_reading_def)

lemma decided_shows_verdict:
  assumes "make_policy_set p = Inr p" "validate_policy_set p = Inr ()" "validate_policy_context c = Inr ()"
    "bound_extensions_of c = Inr exts" "digest_fun h" "policy_evaluate h cal p c = Inr r"
  shows "pe_ok r \<and> pe_code r = vd_code (verdict_of cal p c) \<and>
    (\<exists>d. pe_decision r = Some d \<and> pd_effect d = vd_effect (verdict_of cal p c) \<and>
       pd_code d = vd_code (verdict_of cal p c) \<and> pd_detail d = vd_detail (verdict_of cal p c) \<and>
       pd_matched_rule_ids d = vd_ids (verdict_of cal p c) \<and> pd_conflict_trace d = vd_trace (verdict_of cal p c) \<and>
       pd_extensions d = exts)"
  by (rule answer_verdict_commits [OF assms(1) verdict_of_ok [OF assms(2), of cal c] assms(4,5)])
    (use assms(6) in \<open>auto simp add: policy_evaluate_verdict [OF assms(2-4)]\<close>)

text \<open>
  C21: the order of the rules in a set is not observed: a permuted set gives the same
  result code and a decision with the same effect, code, detail, matched rules and
  extensions; the audit lines are the same up to their order.
\<close>

theorem rule_order_is_not_observed:
  assumes "make_policy_set p = Inr p" "digest_fun sha256_hex" "mset rs = mset (ps_rules p)"
    and "policy_evaluate sha256_hex calendar_text p c = Inr r"
    and "policy_evaluate sha256_hex calendar_text (p\<lparr>ps_rules := rs\<rparr>) c = Inr r'"
  shows "pe_ok r' = pe_ok r \<and> pe_code r' = pe_code r \<and>
    rel_option (\<lambda>d' d. pd_effect d' = pd_effect d \<and> pd_code d' = pd_code d \<and> pd_detail d' = pd_detail d \<and>
        pd_matched_rule_ids d' = pd_matched_rule_ids d \<and> pd_extensions d' = pd_extensions d \<and>
        mset (pd_conflict_trace d') = mset (pd_conflict_trace d))
      (pe_decision r') (pe_decision r)"
proof -
  let ?q = "p\<lparr>ps_rules := rs\<rparr>"
  have q: "make_policy_set ?q = Inr ?q" using assms(1) by (auto simp: make_policy_set_def split: if_splits)
  note vo = validate_order [OF assms(3)]
  consider (bad) e f where "validate_policy_set p = Inl e" "validate_policy_set ?q = Inl f"
    | (ok) "validate_policy_set p = Inr ()" "validate_policy_set ?q = Inr ()"
    using vo by (cases "validate_policy_set p"; cases "validate_policy_set ?q") auto
  then show ?thesis
  proof cases
    case bad
    then show ?thesis using assms(4,5) by (auto simp: policy_evaluate_def evaluate_reading_def rejected_def)
  next
    case ok
    show ?thesis
    proof (cases "isOk (validate_policy_context c) \<and> isOk (bound_extensions_of c)")
      case False
      then have "r' = r" using evaluate_without_rules [OF ok] assms(4,5) by simp
      then show ?thesis by (simp add: option.rel_refl)
    next
      case True
      then obtain exts where c: "validate_policy_context c = Inr ()" "bound_extensions_of c = Inr exts"
        by (auto simp: isOk_iff)
      have "same_verdict (verdict_of calendar_text ?q c) (verdict_of calendar_text p c)"
        by (rule verdict_of_order [OF assms(3) validated_set_rules(1) [OF ok(1)]])
      then show ?thesis
        using decided_shows_verdict [OF assms(1) ok(1) c assms(2,4)] decided_shows_verdict [OF q ok(2) c assms(2,5)]
        by (auto simp: same_verdict_def)
    qed
  qed
qed

lemma decided_extensions:
  assumes "make_policy_set p = Inr p" "digest_fun h" "policy_evaluate h cal p c = Inr r" "pe_decision r = Some d"
  shows "bound_extensions_of c = Inr (pd_extensions d)"
  using assms(1,2)
  by (cases rule: policy_evaluate_cases [where cal = cal and c = c]) (use assms(3,4) in auto)

text \<open>
  C24: a decision on \<open>service.invoke\<close> is bound: its only extension is the one
  invocation descriptor of the context, with exactly the frozen keys, the requester as the
  caller and the federation domain, which is not empty, as the tenant.
\<close>

theorem invocation_decision_is_bound:
  assumes "make_policy_set p = Inr p" "digest_fun sha256_hex" "pc_operation c = ''service.invoke''"
    and "policy_evaluate sha256_hex calendar_text p c = Inr r" "pe_decision r = Some d"
  shows "\<exists>m. pd_extensions d = [JObj m] \<and> filter (has_kind INVOCATION_BINDING_KIND) (pc_extensions c) = [JObj m] \<and>
    set (map fst m) = set INVOCATION_BINDING_KEYS \<and>
    dget m ''caller_node_id'' = Some (JStr (pc_requester c)) \<and>
    dget m ''tenant_domain'' = Some (JStr (pc_federation_domain c)) \<and> pc_federation_domain c \<noteq> '''' \<and>
    descriptor_text m ''service_ref'' \<noteq> ''''"
proof -
  have "bound_extensions_of c = Inr (pd_extensions d)" by (rule decided_extensions [OF assms(1,2,4,5)])
  then obtain b where b: "invocation_binding_from_context c = Inr b" "pd_extensions d = [b]"
    using assms(3) by (auto simp: bound_extensions_of_def bindE_eq_Inr_iff)
  from b(1) show ?thesis by (rule invocation_binding_Inr) (use b(2) in simp)
qed

text \<open>
  C23: a decision on \<open>telemetry.topology-promote\<close> carries the one promotion
  descriptor of the context, and the subject and observation it names are all the
  resources the rules evaluated; the privacy scope and the source disclosure are never
  empty.
\<close>

theorem promotion_decision_covers_its_scope:
  assumes "make_policy_set p = Inr p" "digest_fun sha256_hex" "pc_operation c = ''telemetry.topology-promote''"
    and "policy_evaluate sha256_hex calendar_text p c = Inr r" "pe_decision r = Some d"
  shows "\<exists>m s ob. pd_extensions d = [JObj m] \<and>
    filter (has_kind PROMOTION_BINDING_KIND) (pc_extensions c) = [JObj m] \<and>
    set (map fst m) = set PROMOTION_BINDING_KEYS \<and>
    dget m ''subject_ref'' = Some (JStr s) \<and> dget m ''observation_id'' = Some (JStr ob) \<and>
    set (pc_resource_refs c) = {s, ob} \<and>
    descriptor_text m ''privacy_scope'' \<noteq> '''' \<and> descriptor_text m ''source_disclosure'' \<noteq> ''''"
proof -
  have "bound_extensions_of c = Inr (pd_extensions d)" by (rule decided_extensions [OF assms(1,2,4,5)])
  then obtain b where b: "promotion_binding_from_context c = Inr b" "pd_extensions d = [b]"
    using assms(3) by (auto simp: bound_extensions_of_def bindE_eq_Inr_iff)
  from b(1) show ?thesis by (rule promotion_binding_Inr) (use b(2) in simp)
qed

text \<open>
  a missing fact lifts a denial: with an ALLOW rule and a more specific DENY rule on a
  locality, the context that names the locality is denied, and the context that omits the
  fact is allowed, although the condition answers \<open>missing-fact\<close>.
\<close>

theorem missing_fact_lifts_a_denial:
  "(\<exists>d. policy_evaluate sample_hash calendar_text (sample_set [open_rule, zone_rule])
          (sample_request ''session.create'' [''zone-1''] []) = Inr \<lparr>pe_ok = True, pe_code = ''deny'', pe_decision = Some d\<rparr>) \<and>
   (\<exists>d. policy_evaluate sample_hash calendar_text (sample_set [open_rule, zone_rule])
          (sample_request ''session.create'' [] []) = Inr \<lparr>pe_ok = True, pe_code = ''allow'', pe_decision = Some d\<rparr>) \<and>
   qr_code (evaluate_condition in_zone (sample_request ''session.create'' [] [])) = ''missing-fact''"
proof -
  let ?c = "sample_request ''session.create'' [''zone-1''] []" and ?rs = "[open_rule, zone_rule]"
  obtain d where d: "policy_evaluate sample_hash calendar_text (sample_set ?rs) ?c
      = Inr \<lparr>pe_ok = True, pe_code = pd_code d, pe_decision = Some d\<rparr>"
    "pd_code d = vd_code (verdict_of calendar_text (sample_set ?rs) ?c)"
    by (rule sample_evaluation [of ?rs "''session.create''" "[''zone-1'']" "[]" "[]" calendar_text])
      (simp_all add: policy_operations_def, simp add: sample_rule_def)
  have "level_key (sample_set ?rs) zone_rule \<le> level_key (sample_set ?rs) open_rule"
    "\<not> level_key (sample_set ?rs) open_rule \<le> level_key (sample_set ?rs) zone_rule"
    by (simp_all add: level_key_def sample_rule_def)
  then have t: "top_level (sample_set ?rs) ?rs = [zone_rule]" by (simp add: top_level_def)
  then have "fst (resolve_conflicts ?rs (sample_set ?rs)) = Some ''deny''"
    by (simp add: resolve_by_level level_effect_def sample_rule_def)
  then obtain ids ls where "resolve_conflicts ?rs (sample_set ?rs) = (Some ''deny'', ids, ls)" by (metis prod.collapse)
  then have "vd_code (verdict_of calendar_text (sample_set ?rs) ?c) = ''deny''"
    by (simp add: sample_verdict sample_matches rules_verdict_def)
  with d have "\<exists>d. policy_evaluate sample_hash calendar_text (sample_set ?rs) ?c
      = Inr \<lparr>pe_ok = True, pe_code = ''deny'', pe_decision = Some d\<rparr>" by auto
  moreover have "\<exists>d. policy_evaluate sample_hash calendar_text (sample_set ?rs) (sample_request ''session.create'' [] [])
      = Inr \<lparr>pe_ok = True, pe_code = ''allow'', pe_decision = Some d\<rparr>"
    by (rule sample_allows [of "[]" calendar_text]) auto
  moreover have "qr_code (evaluate_condition in_zone (sample_request ''session.create'' [] [])) = ''missing-fact''"
    by (simp add: evaluate_condition_def matchers_def in_zone_def match_locality_equals_def with_str_def require_str_def
        compare_fact_def missing_fact_def sample_request_def)
  ultimately show ?thesis by blast
qed

text \<open>
  Two orders of the same rules give decisions whose audit lines differ.
\<close>

theorem rule_order_changes_the_trace:
  "\<exists>r r' d d'.
     policy_evaluate sample_hash calendar_text (sample_set [open_rule, zone_rule])
       (sample_request ''session.create'' [''zone-1''] []) = Inr r \<and> pe_decision r = Some d \<and>
     policy_evaluate sample_hash calendar_text (sample_set [zone_rule, open_rule])
       (sample_request ''session.create'' [''zone-1''] []) = Inr r' \<and> pe_decision r' = Some d' \<and>
     pd_conflict_trace d \<noteq> pd_conflict_trace d'"
proof -
  let ?c = "sample_request ''session.create'' [''zone-1''] []" and ?now = "63839664000000000 :: int"
  have ev: "\<exists>r d. policy_evaluate sample_hash calendar_text (sample_set rs) ?c = Inr r \<and> pe_decision r = Some d \<and>
      pd_conflict_trace d = vd_trace (verdict_of calendar_text (sample_set rs) ?c)"
    if "rs \<in> {[open_rule, zone_rule], [zone_rule, open_rule]}" for rs
  proof -
    have "distinct (map pr_rule_id rs)" using that by (auto simp: sample_rule_def)
    moreover have "\<forall>r \<in> set rs. validate_rule r = Inr ()" using that sample_rules_ok by auto
    ultimately show ?thesis
      by (rule sample_evaluation [of rs "''session.create''" "[''zone-1'']" "[]" "[]" calendar_text])
        (auto simp: policy_operations_def)
  qed
  have tr: "rule_trace ?c ?now open_rule = [''rule '' @ py_repr_string ''open'' @ '' conditions: '' @ ''credential-active=matched'']"
    "rule_trace ?c ?now zone_rule = [''rule '' @ py_repr_string ''zone'' @ '' conditions: '' @ ''locality-equals=matched'']"
    by (simp_all add: rule_trace_def rule_step_def sample_rule_def sample_request_def subject_matches_def
        check_rule_temporal_def check_window_def evaluate_rule_conditions_def condition_code_def evaluate_condition_def
        matchers_def credential_held_def in_zone_def match_credential_active_def match_locality_equals_def with_str_def
        require_str_def compare_fact_def satisfied_def)
  have "vd_trace (verdict_of calendar_text (sample_set [open_rule, zone_rule]) ?c) \<noteq>
      vd_trace (verdict_of calendar_text (sample_set [zone_rule, open_rule]) ?c)"
  proof -
    have l: "t \<noteq> [] \<Longrightarrow> last (vd_trace (rules_verdict p c (m # ms) t)) = last t" for p c m ms t
      by (cases "resolve_conflicts (m # ms) p") (auto simp: rules_verdict_def)
    have "last (vd_trace (verdict_of calendar_text (sample_set [open_rule, zone_rule]) ?c)) =
        ''rule '' @ py_repr_string ''zone'' @ '' conditions: '' @ ''locality-equals=matched''"
      by (simp add: sample_verdict sample_matches tr l)
    moreover have "last (vd_trace (verdict_of calendar_text (sample_set [zone_rule, open_rule]) ?c)) =
        ''rule '' @ py_repr_string ''open'' @ '' conditions: '' @ ''credential-active=matched''"
      by (simp add: sample_verdict sample_matches tr l)
    moreover have "''rule '' @ py_repr_string ''zone'' @ '' conditions: '' @ ''locality-equals=matched'' \<noteq>
        ''rule '' @ py_repr_string ''open'' @ '' conditions: '' @ ''credential-active=matched''"
      (is "?L \<noteq> ?R")
    proof
      assume "?L = ?R"
      then have "rev ?L ! 8 = rev ?R ! 8" by (rule arg_cong)
      then show False by (simp add: nth_Cons_numeral)
    qed
    ultimately show ?thesis by metis
  qed
  moreover obtain r d where "policy_evaluate sample_hash calendar_text (sample_set [open_rule, zone_rule]) ?c = Inr r"
    "pe_decision r = Some d" "pd_conflict_trace d = vd_trace (verdict_of calendar_text (sample_set [open_rule, zone_rule]) ?c)"
    using ev [of "[open_rule, zone_rule]"] by blast
  moreover obtain r' d' where "policy_evaluate sample_hash calendar_text (sample_set [zone_rule, open_rule]) ?c = Inr r'"
    "pe_decision r' = Some d'" "pd_conflict_trace d' = vd_trace (verdict_of calendar_text (sample_set [zone_rule, open_rule]) ?c)"
    using ev [of "[zone_rule, open_rule]"] by blast
  ultimately show ?thesis by (intro exI conjI) (assumption | simp)+
qed

lemma sample_open_zone: "make_policy_set (sample_set [open_rule, zone_rule]) = Inr (sample_set [open_rule, zone_rule])"
  by (rule sample_set_ok) (simp add: sample_rule_def, simp)

theorem evaluated_decision_is_tamper_evident_witness:
  "\<exists>d. tamper_evident_reading lit sample_hash d = Inr True \<and> pd_effect d = ''allow''"
proof -
  obtain d where d: "policy_evaluate sample_hash id (sample_set [open_rule, zone_rule]) (sample_request ''session.create'' [] [])
      = Inr \<lparr>pe_ok = True, pe_code = ''allow'', pe_decision = Some d\<rparr>" "pd_effect d = ''allow''"
    by (rule sample_allows [of "[]" id]) simp_all
  then have "d \<noteq> unaudited d" by (intro notI) (drule arg_cong [where f = pd_effect], simp)
  from evaluated_decision_is_tamper_evident [OF sample_open_zone sample_hash_ok inj_reading_lit
      d(1) [unfolded policy_evaluate_def] _ this] d(2)
  show ?thesis by auto
qed

theorem unaudited_allowance_is_answered_witness:
  "\<exists>r d. evaluate_reading (\<lambda>s. if s = ''open'' then [0xD800] else lit s) sample_hash id (sample_set [open_rule, zone_rule])
       (sample_request ''session.create'' [] []) = Inr r \<and> pe_code r = ''allow'' \<and> pe_decision r = Some d \<and>
     pd_effect d = ''deny'' \<and> pd_code d = ''fail-closed''"
proof -
  let ?c = "sample_request ''session.create'' [] []"
  obtain d where d: "policy_evaluate sample_hash id (sample_set [open_rule, zone_rule]) ?c
      = Inr \<lparr>pe_ok = True, pe_code = ''allow'', pe_decision = Some d\<rparr>" "pd_effect d = ''allow''"
    "pd_matched_rule_ids d = [''open'']"
    by (rule sample_allows [of "[]" id]) simp_all
  show ?thesis
    using unaudited_allowance_is_answered [OF sample_open_zone sample_hash_ok d(1), of d "''open''"
        "\<lambda>s. if s = ''open'' then [0xD800] else lit s"] d(3) by (auto simp: scalar_def surrogate_def)
qed

theorem rule_order_is_not_observed_witness:
  "\<exists>r r'. policy_evaluate sample_hash id (sample_set [open_rule, zone_rule]) (sample_request ''session.create'' [] []) = Inr r \<and>
     policy_evaluate sample_hash id (sample_set [zone_rule, open_rule]) (sample_request ''session.create'' [] []) = Inr r' \<and>
     pe_code r' = pe_code r \<and> pe_code r = ''allow''"
proof -
  let ?c = "sample_request ''session.create'' [] []"
  obtain d where d: "policy_evaluate sample_hash id (sample_set [open_rule, zone_rule]) ?c
      = Inr \<lparr>pe_ok = True, pe_code = ''allow'', pe_decision = Some d\<rparr>"
    by (rule sample_allows [of "[]" id]) simp_all
  have u: "sample_set [open_rule, zone_rule]\<lparr>ps_rules := [zone_rule, open_rule]\<rparr> = sample_set [zone_rule, open_rule]"
    by (simp add: sample_set_def)
  have "distinct (map pr_rule_id [zone_rule, open_rule])" by (simp add: sample_rule_def)
  then obtain d' where d': "policy_evaluate sample_hash id (sample_set [zone_rule, open_rule]) ?c
      = Inr \<lparr>pe_ok = True, pe_code = pd_code d', pe_decision = Some d'\<rparr>"
    by (rule sample_evaluation [of "[zone_rule, open_rule]" "''session.create''" "[]" "[]" "[]" id])
      (auto simp: policy_operations_def)
  have "mset [zone_rule, open_rule] = mset (ps_rules (sample_set [open_rule, zone_rule]))" by (simp add: sample_set_def)
  from rule_order_is_not_observed [OF sample_open_zone sample_hash_ok this d d' [folded u]] d d'
  show ?thesis by auto
qed

definition sample_invocation :: "string jval" where
  "sample_invocation = JObj [(''kind'', JStr INVOCATION_BINDING_KIND), (''operation'', JStr ''service.invoke''),
     (''service_ref'', JStr ''svc-1''), (''session_id'', JStr ''s-1''), (''caller_node_id'', JStr (sample_node CHR ''b'')),
     (''tenant_domain'', JStr ''tenant-1'')]"

definition sample_promotion :: "string jval" where
  "sample_promotion = JObj [(''kind'', JStr PROMOTION_BINDING_KIND), (''operation'', JStr ''telemetry.topology-promote''),
     (''observation_id'', JStr ''obs-1''), (''subject_kind'', JStr ''link''), (''subject_ref'', JStr ''sub-1''),
     (''privacy_scope'', JStr ''public''), (''source_disclosure'', JStr ''pseudonymous'')]"

lemmas binding_sample_defs = the_descriptor_def has_kind_def descriptor_members_def descriptor_text_def is_text_def
  INVOCATION_BINDING_KIND_def INVOCATION_BINDING_KEYS_def PROMOTION_BINDING_KIND_def PROMOTION_BINDING_KEYS_def

lemma sample_binding_derived:
  "bound_extensions_of (sample_request ''service.invoke'' labels [sample_invocation]) = Inr [sample_invocation]"
  "bound_extensions_of (sample_request ''telemetry.topology-promote'' labels [sample_promotion]) = Inr [sample_promotion]"
proof -
  show "bound_extensions_of (sample_request ''service.invoke'' labels [sample_invocation]) = Inr [sample_invocation]"
    by (auto simp: bound_extensions_of_def invocation_binding_from_context_def Let_def sample_invocation_def
        binding_sample_defs sample_request_def)
  show "bound_extensions_of (sample_request ''telemetry.topology-promote'' labels [sample_promotion]) = Inr [sample_promotion]"
  proof -
    obtain m where m: "sample_promotion = JObj m" by (simp add: sample_promotion_def)
    have "the_descriptor ''promotion-binding'' PROMOTION_BINDING_KIND PROMOTION_BINDING_KEYS
        (sample_request ''telemetry.topology-promote'' labels [sample_promotion]) = Inr m"
      using m by (auto simp: sample_promotion_def binding_sample_defs sample_request_def)
    moreover have "descriptor_text m ''operation'' = ''telemetry.topology-promote''"
      "descriptor_text m ''observation_id'' = ''obs-1''" "descriptor_text m ''subject_ref'' = ''sub-1''"
      "descriptor_text m ''subject_kind'' = ''link''" "descriptor_text m ''privacy_scope'' = ''public''"
      "descriptor_text m ''source_disclosure'' = ''pseudonymous''"
      using m by (auto simp: sample_promotion_def descriptor_text_def)
    ultimately show ?thesis
      by (simp add: bound_extensions_of_def promotion_binding_from_context_def Let_def m) (auto simp: sample_request_def)
  qed
qed

lemma sample_bindings_public: "\<not> policy_has_secret sample_invocation" "\<not> policy_has_secret sample_promotion"
  by (simp_all add: sample_invocation_def sample_promotion_def policy_looks_secret_def policy_secret_hints_def
      ascii_lower_def less_eq_char_def)

theorem invocation_decision_is_bound_witness:
  "\<exists>r d m. policy_evaluate sample_hash id (sample_set []) (sample_request ''service.invoke'' [] [sample_invocation]) = Inr r \<and>
     pe_decision r = Some d \<and> pd_extensions d = [JObj m] \<and>
     dget m ''caller_node_id'' = Some (JStr (sample_node CHR ''b''))"
proof -
  let ?c = "sample_request ''service.invoke'' [] [sample_invocation]"
  obtain d where d: "policy_evaluate sample_hash id (sample_set []) ?c
      = Inr \<lparr>pe_ok = True, pe_code = pd_code d, pe_decision = Some d\<rparr>"
    by (rule sample_evaluation [of "[]" "''service.invoke''" "[]" "[sample_invocation]" "[sample_invocation]" id])
      (simp_all add: sample_binding_derived sample_bindings_public policy_operations_def)
  have "make_policy_set (sample_set []) = Inr (sample_set [])" by (rule sample_set_ok) simp_all
  from invocation_decision_is_bound [OF this sample_hash_ok _ d] d show ?thesis by (auto simp: sample_request_def)
qed

theorem promotion_decision_covers_its_scope_witness:
  "\<exists>r d m. policy_evaluate sample_hash id (sample_set []) (sample_request ''telemetry.topology-promote'' [] [sample_promotion])
       = Inr r \<and> pe_decision r = Some d \<and> pd_extensions d = [JObj m] \<and>
     set (map fst m) = set PROMOTION_BINDING_KEYS"
proof -
  let ?c = "sample_request ''telemetry.topology-promote'' [] [sample_promotion]"
  obtain d where d: "policy_evaluate sample_hash id (sample_set []) ?c
      = Inr \<lparr>pe_ok = True, pe_code = pd_code d, pe_decision = Some d\<rparr>"
    by (rule sample_evaluation [of "[]" "''telemetry.topology-promote''" "[]" "[sample_promotion]" "[sample_promotion]" id])
      (simp_all add: sample_binding_derived sample_bindings_public policy_operations_def)
  have "make_policy_set (sample_set []) = Inr (sample_set [])" by (rule sample_set_ok) simp_all
  from promotion_decision_covers_its_scope [OF this sample_hash_ok _ d] d show ?thesis by auto
qed

end
