(* ===== verification/Policy_Store.thy ===== *)
theory Policy_Store
  imports Policy_Validation
begin

text \<open>
  \<open>policy/store.py\<close>: the history of published versions, publication, withdrawal and the
  queries, with the register they implement: a map from set id and version to the
  published set and its withdrawn flag.  The lock makes each operation atomic, so a
  history of the store is a sequence of operations.
\<close>

declare split_paired_All [simp del] split_paired_Ex [simp del]

section \<open>State and operations\<close>

record stored_entry =
  se_policy_set :: policy_set
  se_withdrawn :: bool

type_synonym policy_store = "(string, stored_entry list) dict"

definition entry_version :: "stored_entry \<Rightarrow> int" where
  "entry_version e = ps_version (se_policy_set e)"

fun publish_scan :: "policy_set \<Rightarrow> bytes \<Rightarrow> stored_entry list \<Rightarrow> policy_error + bool" where
  \<comment> \<open>the loop of \<open>publish\<close>; \<open>True\<close> when it returns early because the content is stored\<close>
  "publish_scan p new_bytes [] = Inr False"
| "publish_scan p new_bytes (e # es) =
     (if ps_version p < entry_version e then Inl (PolicyError ''version-regression'')
      else if entry_version e = ps_version p
      then bindE (set_canonical_bytes (se_policy_set e)) (\<lambda>old_bytes.
             if old_bytes = new_bytes then Inr True else Inl (PolicyError ''version-conflict''))
      else publish_scan p new_bytes es)"

definition publish :: "policy_store \<Rightarrow> policy_set \<Rightarrow> policy_error + policy_store" where
  "publish s p =
     bindE (validate_policy_set p) (\<lambda>_.
     bindE (set_canonical_bytes p) (\<lambda>new_bytes.
       let history = dgetd s (ps_set_id p) [] in
       bindE (publish_scan p new_bytes history) (\<lambda>stored.
         if stored then Inr s
         else Inr (dset s (ps_set_id p)
                (sort_key entry_version (history @ [\<lparr>se_policy_set = p, se_withdrawn = False\<rparr>]))))))"

definition find_entry :: "policy_store \<Rightarrow> string \<Rightarrow> int \<Rightarrow> policy_error + stored_entry" where
  \<comment> \<open>the checks and the search that \<open>withdraw\<close>, \<open>get\<close> and \<open>is_withdrawn\<close> share\<close>
  "find_entry s set_id version =
     bindE (guardE (set_id = '''') (PolicyError ''set-id'')) (\<lambda>_.
       case find (\<lambda>e. entry_version e = version) (dgetd s set_id []) of
         None \<Rightarrow> Inl (PolicyError ''not-found'')
       | Some e \<Rightarrow> Inr e)"

definition withdraw :: "policy_store \<Rightarrow> string \<Rightarrow> int \<Rightarrow> policy_error + policy_store" where
  "withdraw s set_id version =
     bindE (find_entry s set_id version) (\<lambda>target.
       if se_withdrawn target then Inr s
       else Inr (dset s set_id
              (map (\<lambda>e. if entry_version e = version then e\<lparr>se_withdrawn := True\<rparr> else e) (dgetd s set_id []))))"

definition live_entry :: "stored_entry list \<Rightarrow> policy_set option" where
  \<comment> \<open>the loop keeps the last entry that is not withdrawn\<close>
  "live_entry history = foldl (\<lambda>live e. if se_withdrawn e then live else Some (se_policy_set e)) None history"

definition snapshot :: "policy_store \<Rightarrow> policy_set list" where
  "snapshot s = List.map_filter (\<lambda>set_id. live_entry (dgetd s set_id [])) (sort (map fst s))"

definition window_contains :: "policy_set \<Rightarrow> int \<Rightarrow> bool" where
  \<comment> \<open>a bound that does not parse excludes the set\<close>
  "window_contains p now \<longleftrightarrow>
     (ps_valid_from p = '''' \<or> (case parse_instant (ps_valid_from p) of None \<Rightarrow> False | Some vf \<Rightarrow> vf \<le> now)) \<and>
     (ps_valid_until p = '''' \<or> (case parse_instant (ps_valid_until p) of None \<Rightarrow> False | Some vu \<Rightarrow> now \<le> vu))"

definition list_applicable :: "policy_store \<Rightarrow> string \<Rightarrow> policy_error + policy_set list" where
  "list_applicable s now =
     (case parse_instant now of
        None \<Rightarrow> Inl (PolicyError ''evaluation-instant'')
      | Some t \<Rightarrow> Inr (filter (\<lambda>p. window_contains p t) (snapshot s)))"

definition get_policy_set :: "policy_store \<Rightarrow> string \<Rightarrow> int \<Rightarrow> policy_error + policy_set" where
  "get_policy_set s set_id version = bindE (find_entry s set_id version) (\<lambda>e. Inr (se_policy_set e))"

definition is_withdrawn :: "policy_store \<Rightarrow> string \<Rightarrow> int \<Rightarrow> policy_error + bool" where
  "is_withdrawn s set_id version = bindE (find_entry s set_id version) (\<lambda>e. Inr (se_withdrawn e))"

section \<open>The register a store implements\<close>

type_synonym register = "string \<times> int \<Rightarrow> (policy_set \<times> bool) option"

definition store_view :: "policy_store \<Rightarrow> register" where
  "store_view s k =
     map_option (\<lambda>e. (se_policy_set e, se_withdrawn e))
       (find (\<lambda>e. entry_version e = snd k) (dgetd s (fst k) []))"

definition history_ok :: "string \<Rightarrow> stored_entry list \<Rightarrow> bool" where
  "history_ok set_id es \<longleftrightarrow> sorted_wrt (<) (map entry_version es) \<and>
     (\<forall>e \<in> set es. ps_set_id (se_policy_set e) = set_id \<and> validate_policy_set (se_policy_set e) = Inr () \<and>
        isOk (set_canonical_bytes (se_policy_set e)))"

definition policy_store_ok :: "policy_store \<Rightarrow> bool" where
  "policy_store_ok s \<longleftrightarrow> dict_wf s \<and> (\<forall>i. history_ok i (dgetd s i []))"

definition set_key :: "policy_set \<Rightarrow> string \<times> int" where
  "set_key p = (ps_set_id p, ps_version p)"

definition register_publish :: "register \<Rightarrow> policy_set \<Rightarrow> policy_error + register" where
  \<comment> \<open>what publication promises: a stored version is never replaced, a new one is the newest\<close>
  "register_publish m p =
     bindE (validate_policy_set p) (\<lambda>_.
     bindE (set_canonical_bytes p) (\<lambda>new_bytes.
       case m (set_key p) of
         Some (q, w) \<Rightarrow>
           if set_canonical_bytes q = Inr new_bytes then Inr m else Inl (PolicyError ''version-conflict'')
       | None \<Rightarrow>
           if \<exists>v > ps_version p. m (ps_set_id p, v) \<noteq> None then Inl (PolicyError ''version-regression'')
           else Inr (m(set_key p \<mapsto> (p, False)))))"

definition register_withdraw :: "register \<Rightarrow> string \<Rightarrow> int \<Rightarrow> policy_error + register" where
  "register_withdraw m set_id version =
     (if set_id = '''' then Inl (PolicyError ''set-id'')
      else case m (set_id, version) of
        None \<Rightarrow> Inl (PolicyError ''not-found'')
      | Some (q, w) \<Rightarrow> Inr (m((set_id, version) \<mapsto> (q, True))))"

section \<open>The store implements the register\<close>

lemma find_append: "find P (xs @ ys) = (case find P xs of None \<Rightarrow> find P ys | Some x \<Rightarrow> Some x)"
  by (induction xs) simp_all

lemma find_map_same: "(\<And>x. P (f x) \<longleftrightarrow> P x) \<Longrightarrow> find P (map f xs) = map_option f (find P xs)"
  by (induction xs) auto

lemma find_mem: "find P xs = Some x \<Longrightarrow> x \<in> set xs \<and> P x"
  by (induction xs) (auto split: if_splits)

lemma publish_scan_history:
  assumes "history_ok i es"
  shows "publish_scan p nb es =
    (case find (\<lambda>e. entry_version e = ps_version p) es of
       Some e \<Rightarrow> if set_canonical_bytes (se_policy_set e) = Inr nb then Inr True else Inl (PolicyError ''version-conflict'')
     | None \<Rightarrow> if \<exists>e \<in> set es. ps_version p < entry_version e then Inl (PolicyError ''version-regression'') else Inr False)"
  using assms
proof (induction es)
  case (Cons e es)
  then have h: "history_ok i es" "\<forall>f \<in> set es. entry_version e < entry_version f"
    and c: "isOk (set_canonical_bytes (se_policy_set e))"
    by (auto simp: history_ok_def)
  then obtain ob where ob: "set_canonical_bytes (se_policy_set e) = Inr ob" by (auto simp: isOk_iff)
  note IH = Cons.IH [OF h(1)]
  consider "ps_version p < entry_version e" | "ps_version p = entry_version e" | "entry_version e < ps_version p"
    by linarith
  then show ?case
  proof cases
    case 1
    then have "find (\<lambda>e. entry_version e = ps_version p) es = None" using h(2) by (auto simp: find_None_iff)
    with 1 show ?thesis by simp
  next
    case 2
    then show ?thesis using ob by auto
  next
    case 3
    then show ?thesis using IH by (auto split: option.split)
  qed
qed simp

lemma sorted_history: "sorted_wrt (<) (map f es) \<Longrightarrow> (sorted (map f es) :: bool)" for f :: "'a \<Rightarrow> int"
  by (rule sorted_wrt_mono_rel [of _ "(<)"]) simp_all

lemma append_newest:
  assumes "history_ok i es" "\<forall>e \<in> set es. entry_version e < entry_version n"
  shows "sort_key entry_version (es @ [n]) = es @ [n]"
proof (rule sort_key_ident)
  have "sorted (map entry_version es)" using assms(1) by (simp add: history_ok_def sorted_history)
  then show "sorted (map entry_version (es @ [n]))" using assms(2) by (auto simp: sorted_append intro: less_imp_le)
qed

lemma history_append:
  assumes "history_ok i es" "\<forall>e \<in> set es. entry_version e < ps_version p" "ps_set_id p = i"
    "validate_policy_set p = Inr ()" "isOk (set_canonical_bytes p)"
  shows "history_ok i (es @ [\<lparr>se_policy_set = p, se_withdrawn = w\<rparr>])"
  using assms by (auto simp: history_ok_def sorted_wrt_append entry_version_def)

lemma view_exists: "store_view s (i, v) \<noteq> None \<longleftrightarrow> (\<exists>e \<in> set (dgetd s i []). entry_version e = v)"
  by (auto simp: store_view_def find_None_iff)

lemma publish_refines:
  assumes "policy_store_ok s"
  shows "map_sum id store_view (publish s p) = register_publish (store_view s) p"
    and "\<And>s'. publish s p = Inr s' \<Longrightarrow> policy_store_ok s'"
proof -
  let ?i = "ps_set_id p" and ?es = "dgetd s (ps_set_id p) []"
  let ?n = "\<lparr>se_policy_set = p, se_withdrawn = False\<rparr>"
  have h: "history_ok ?i ?es" using assms by (simp add: policy_store_ok_def)
  have later: "(\<exists>v > ps_version p. store_view s (?i, v) \<noteq> None) \<longleftrightarrow> (\<exists>e \<in> set ?es. ps_version p < entry_version e)"
    unfolding view_exists by auto
  have here: "store_view s (set_key p) = map_option (\<lambda>e. (se_policy_set e, se_withdrawn e))
      (find (\<lambda>e. entry_version e = ps_version p) ?es)"
    by (simp add: store_view_def set_key_def)
  have new: "store_view (dset s ?i (?es @ [?n])) = (store_view s)(set_key p \<mapsto> (p, False))"
    if "find (\<lambda>e. entry_version e = ps_version p) ?es = None"
  proof (rule ext)
    fix k show "store_view (dset s ?i (?es @ [?n])) k = ((store_view s)(set_key p \<mapsto> (p, False))) k"
      using that by (cases k) (auto simp: store_view_def set_key_def find_append entry_version_def split: option.split)
  qed
  have older: "\<forall>e \<in> set ?es. entry_version e < ps_version p"
    if "find (\<lambda>e. entry_version e = ps_version p) ?es = None" "\<not> (\<exists>e \<in> set ?es. ps_version p < entry_version e)"
    using that by (force simp: find_None_iff)
  have appended: "sort_key entry_version (?es @ [?n]) = ?es @ [?n]"
    if "find (\<lambda>e. entry_version e = ps_version p) ?es = None" "\<not> (\<exists>e \<in> set ?es. ps_version p < entry_version e)"
    by (rule append_newest [OF h]) (use older [OF that] in \<open>simp add: entry_version_def\<close>)
  show "map_sum id store_view (publish s p) = register_publish (store_view s) p"
    using later new appended
    by (auto simp: publish_def register_publish_def publish_scan_history [OF h] here Let_def bindE_def
        split: sum.split option.split)
  show "policy_store_ok s'" if "publish s p = Inr s'" for s'
  proof -
    from that obtain nb b where ok: "validate_policy_set p = Inr ()" "set_canonical_bytes p = Inr nb"
      and scan: "publish_scan p nb ?es = Inr b"
      and s': "s' = (if b then s else dset s ?i (sort_key entry_version (?es @ [?n])))"
      by (auto simp: publish_def Let_def bindE_eq_Inr_iff split: if_splits)
    show ?thesis
    proof (cases "b")
      case False
      then have n: "find (\<lambda>e. entry_version e = ps_version p) ?es = None"
        "\<not> (\<exists>e \<in> set ?es. ps_version p < entry_version e)"
        using scan by (auto simp: publish_scan_history [OF h] split: option.splits if_splits)
      have "history_ok ?i (?es @ [?n])" by (rule history_append [OF h older [OF n]]) (use ok in simp_all)
      then show ?thesis using assms s' False appended [OF n] by (simp add: policy_store_ok_def)
    qed (use assms s' in simp)
  qed
qed


lemma find_entry_view:
  "find_entry s i v =
     (if i = '''' then Inl (PolicyError ''set-id'')
      else case find (\<lambda>e. entry_version e = v) (dgetd s i []) of None \<Rightarrow> Inl (PolicyError ''not-found'') | Some e \<Rightarrow> Inr e)"
  by (simp add: find_entry_def)

lemma withdraw_refines:
  assumes "policy_store_ok s"
  shows "map_sum id store_view (withdraw s i v) = register_withdraw (store_view s) i v"
    and "\<And>s'. withdraw s i v = Inr s' \<Longrightarrow> policy_store_ok s'"
proof -
  let ?es = "dgetd s i []" and ?P = "\<lambda>e. entry_version e = v"
  let ?f = "\<lambda>e. if entry_version e = v then e\<lparr>se_withdrawn := True\<rparr> else e"
  have fv [simp]: "entry_version (?f e) = entry_version e" "se_policy_set (?f e) = se_policy_set e" for e
    by (simp_all add: entry_version_def)
  have upd: "store_view (dset s i (map ?f ?es)) = (store_view s)((i, v) \<mapsto> (se_policy_set e, True))"
    if "find ?P ?es = Some e" for e
  proof (rule ext)
    fix k
    have "find (\<lambda>e. entry_version e = w) (map ?f ?es) = map_option ?f (find (\<lambda>e. entry_version e = w) ?es)" for w
      by (rule find_map_same) simp
    moreover have "entry_version e = v" using find_mem [OF that] by simp
    ultimately show "store_view (dset s i (map ?f ?es)) k = ((store_view s)((i, v) \<mapsto> (se_policy_set e, True))) k"
      using that
      by (cases k; cases "find (\<lambda>e. entry_version e = snd k) ?es")
        (auto simp: store_view_def dest: find_mem)
  qed
  have idem: "(store_view s)((i, v) \<mapsto> (se_policy_set e, True)) = store_view s"
    if "find ?P ?es = Some e" "se_withdrawn e" for e
    by (rule ext) (use that in \<open>auto simp: store_view_def\<close>)
  show "map_sum id store_view (withdraw s i v) = register_withdraw (store_view s) i v"
    by (cases "find ?P ?es")
      (auto simp: withdraw_def find_entry_view register_withdraw_def store_view_def [of s "(i, v)"] upd idem)
  show "policy_store_ok s'" if "withdraw s i v = Inr s'" for s'
  proof -
    have eq: "map entry_version (map ?f ?es) = map entry_version ?es" by simp
    have "history_ok i ?es" using assms by (simp add: policy_store_ok_def)
    then have "history_ok i (map ?f ?es)" unfolding history_ok_def eq by auto
    then have "policy_store_ok (dset s i (map ?f ?es))" using assms by (simp add: policy_store_ok_def)
    moreover have "s' = s \<or> s' = dset s i (map ?f ?es)"
      using that by (auto simp: withdraw_def bindE_eq_Inr_iff split: if_splits)
    ultimately show ?thesis using assms by auto
  qed
qed

lemma empty_policy_store: "policy_store_ok []" "store_view [] = Map.empty"
  by (auto simp: policy_store_ok_def history_ok_def store_view_def)

section \<open>The live versions\<close>

lemma live_entry_snoc: "live_entry (es @ [e]) = (if se_withdrawn e then live_entry es else Some (se_policy_set e))"
  by (simp add: live_entry_def)

lemma live_entry_iff:
  assumes "history_ok i es"
  shows "live_entry es = Some p \<longleftrightarrow> (\<exists>e \<in> set es. se_policy_set e = p \<and> \<not> se_withdrawn e \<and>
    (\<forall>f \<in> set es. entry_version e < entry_version f \<longrightarrow> se_withdrawn f))"
  using assms
proof (induction es rule: rev_induct)
  case Nil
  then show ?case by (simp add: live_entry_def)
next
  case (snoc e es)
  then have h: "history_ok i es" "\<forall>f \<in> set es. entry_version f < entry_version e"
    by (auto simp: history_ok_def sorted_wrt_append)
  show ?case
  proof (cases "se_withdrawn e")
    case True
    then show ?thesis using snoc.IH [OF h(1)] by (auto simp: live_entry_snoc)
  next
    case False
    have "(\<exists>g \<in> set (es @ [e]). se_policy_set g = p \<and> \<not> se_withdrawn g \<and>
        (\<forall>f \<in> set (es @ [e]). entry_version g < entry_version f \<longrightarrow> se_withdrawn f)) \<longleftrightarrow> se_policy_set e = p"
    proof
      assume "\<exists>g \<in> set (es @ [e]). se_policy_set g = p \<and> \<not> se_withdrawn g \<and>
        (\<forall>f \<in> set (es @ [e]). entry_version g < entry_version f \<longrightarrow> se_withdrawn f)"
      then obtain g where g: "g \<in> set (es @ [e])" "se_policy_set g = p" "entry_version g < entry_version e \<longrightarrow> se_withdrawn e"
        by auto
      then show "se_policy_set e = p" using h(2) False by auto
    next
      assume "se_policy_set e = p"
      then show "\<exists>g \<in> set (es @ [e]). se_policy_set g = p \<and> \<not> se_withdrawn g \<and>
        (\<forall>f \<in> set (es @ [e]). entry_version g < entry_version f \<longrightarrow> se_withdrawn f)"
        using h(2) False by (intro bexI [of _ e]) force+
    qed
    then show ?thesis using False by (simp add: live_entry_snoc)
  qed
qed

lemma entry_in_view:
  assumes "history_ok i (dgetd s i [])"
  shows "store_view s (i, v) = Some (p, w) \<longleftrightarrow> \<lparr>se_policy_set = p, se_withdrawn = w\<rparr> \<in> set (dgetd s i []) \<and> ps_version p = v"
proof -
  let ?es = "dgetd s i []"
  have inj: "e = f" if "e \<in> set ?es" "f \<in> set ?es" "entry_version e = entry_version f" for e f
  proof -
    have "distinct (map entry_version ?es)"
      using assms by (auto simp: history_ok_def strict_sorted_iff)
    with that show ?thesis by (auto simp: distinct_map dest: inj_onD)
  qed
  show ?thesis
  proof
    assume "store_view s (i, v) = Some (p, w)"
    then obtain e where "find (\<lambda>e. entry_version e = v) ?es = Some e" "se_policy_set e = p" "se_withdrawn e = w"
      by (auto simp: store_view_def)
    then show "\<lparr>se_policy_set = p, se_withdrawn = w\<rparr> \<in> set ?es \<and> ps_version p = v"
      using find_mem by (cases e) (fastforce simp: entry_version_def)
  next
    assume a: "\<lparr>se_policy_set = p, se_withdrawn = w\<rparr> \<in> set ?es \<and> ps_version p = v"
    then obtain e where e: "find (\<lambda>e. entry_version e = v) ?es = Some e"
      by (cases "find (\<lambda>e. entry_version e = v) ?es") (auto simp: find_None_iff entry_version_def)
    then have "e = \<lparr>se_policy_set = p, se_withdrawn = w\<rparr>"
      using a find_mem [OF e] by (intro inj) (auto simp: entry_version_def)
    with e show "store_view s (i, v) = Some (p, w)" by (simp add: store_view_def)
  qed
qed


section \<open>Histories of operations\<close>

datatype policy_store_op = Publish policy_set | Withdraw string int

definition attempt :: "'s \<Rightarrow> 'e + 's \<Rightarrow> 's" where
  \<comment> \<open>the state after an operation; one that raises has changed nothing\<close>
  "attempt s res = (case res of Inl _ \<Rightarrow> s | Inr s' \<Rightarrow> s')"

definition apply_op :: "('s \<Rightarrow> policy_set \<Rightarrow> 'e + 's) \<Rightarrow> ('s \<Rightarrow> string \<Rightarrow> int \<Rightarrow> 'e + 's) \<Rightarrow> policy_store_op \<Rightarrow> 's \<Rightarrow> 's" where
  "apply_op pub wd op s = attempt s (case op of Publish p \<Rightarrow> pub s p | Withdraw i v \<Rightarrow> wd s i v)"

definition run_policy_store :: "policy_store_op list \<Rightarrow> policy_store" where
  \<comment> \<open>the store after the operations, from the empty store of the constructor\<close>
  "run_policy_store ops = fold (apply_op publish withdraw) ops []"

definition run_register :: "policy_store_op list \<Rightarrow> register" where
  "run_register ops = fold (apply_op register_publish register_withdraw) ops Map.empty"

text \<open>The contract of a store of versions: each operation acts on its view as on the register.\<close>

locale version_register =
  fixes ok :: "'s \<Rightarrow> bool" and view :: "'s \<Rightarrow> register"
    and pub :: "'s \<Rightarrow> policy_set \<Rightarrow> policy_error + 's" and wd :: "'s \<Rightarrow> string \<Rightarrow> int \<Rightarrow> policy_error + 's"
  assumes pub_view: "ok s \<Longrightarrow> map_sum id view (pub s p) = register_publish (view s) p"
    and pub_ok: "ok s \<Longrightarrow> pub s p = Inr s' \<Longrightarrow> ok s'"
    and wd_view: "ok s \<Longrightarrow> map_sum id view (wd s i v) = register_withdraw (view s) i v"
    and wd_ok: "ok s \<Longrightarrow> wd s i v = Inr s' \<Longrightarrow> ok s'"
begin

lemma apply_op_view:
  assumes "ok s"
  shows "ok (apply_op pub wd op s)"
    "view (apply_op pub wd op s) = apply_op register_publish register_withdraw op (view s)"
proof -
  have "ok (attempt s (pub s p))" "view (attempt s (pub s p)) = attempt (view s) (register_publish (view s) p)" for p
    using pub_view [OF assms, of p] pub_ok [OF assms, of p] assms
    by (cases "pub s p"; cases "register_publish (view s) p"; auto simp: attempt_def)+
  moreover have "ok (attempt s (wd s i v))" "view (attempt s (wd s i v)) = attempt (view s) (register_withdraw (view s) i v)" for i v
    using wd_view [OF assms, of i v] wd_ok [OF assms, of i v] assms
    by (cases "wd s i v"; cases "register_withdraw (view s) i v"; auto simp: attempt_def)+
  ultimately show "ok (apply_op pub wd op s)"
    "view (apply_op pub wd op s) = apply_op register_publish register_withdraw op (view s)"
    by (cases op; simp add: apply_op_def)+
qed

lemma run_view:
  assumes "ok s"
  shows "ok (fold (apply_op pub wd) ops s) \<and>
    view (fold (apply_op pub wd) ops s) = fold (apply_op register_publish register_withdraw) ops (view s)"
  using assms apply_op_view by (induction ops arbitrary: s) simp_all

end

lemma register_publish_keeps:
  assumes "register_publish m p = Inr m'" "m k = Some (q, w)"
  shows "m' k = Some (q, w)"
proof (cases "m (set_key p)")
  case None
  then have "k \<noteq> set_key p" using assms(2) by auto
  moreover from None have "m' = m(set_key p \<mapsto> (p, False))"
    using assms(1) by (auto simp: register_publish_def bindE_eq_Inr_iff split: if_splits)
  ultimately show ?thesis using assms(2) by simp
next
  case (Some qw)
  then have "m' = m"
    using assms(1) by (cases qw) (auto simp: register_publish_def bindE_eq_Inr_iff split: if_splits)
  with assms(2) show ?thesis by simp
qed

lemma register_op_keeps:
  assumes "m k = Some (q, w)"
  shows "\<exists>w'. apply_op register_publish register_withdraw op m k = Some (q, w') \<and> (w \<longrightarrow> w')"
proof (cases op)
  case (Publish p)
  then show ?thesis
    using assms register_publish_keeps [of m p _ k q w]
    by (cases "register_publish m p") (auto simp: apply_op_def attempt_def)
next
  case (Withdraw i v)
  then show ?thesis
    using assms by (auto simp: apply_op_def attempt_def register_withdraw_def split: option.split sum.split)
qed

lemma register_run_keeps:
  "m k = Some (q, w) \<Longrightarrow> \<exists>w'. fold (apply_op register_publish register_withdraw) ops m k = Some (q, w') \<and> (w \<longrightarrow> w')"
proof (induction ops arbitrary: m w)
  case (Cons op ops)
  from register_op_keeps [where m = m and k = k and q = q and w = w, OF Cons.prems] obtain w1 where
    w1: "apply_op register_publish register_withdraw op m k = Some (q, w1)" "w \<longrightarrow> w1" by blast
  from Cons.IH [where m = "apply_op register_publish register_withdraw op m" and w = w1, OF w1(1)] w1(2)
  show ?case unfolding fold_simps by blast
qed simp

interpretation versions: version_register policy_store_ok store_view publish withdraw
  by unfold_locales (erule publish_refines withdraw_refines, assumption?)+

lemma run_policy_store_ok: "policy_store_ok (run_policy_store ops)"
  and run_policy_store_view: "store_view (run_policy_store ops) = run_register ops"
  using versions.run_view [OF empty_policy_store(1), of ops]
  by (simp_all add: run_policy_store_def run_register_def empty_policy_store(2))

section \<open>Properties of the store\<close>

text \<open>
  C27: after any operations the store behaves as the register of versions: its view, the
  outcome of publishing and withdrawing, errors included, and the queries are those of the
  map from set id and version to the set and its withdrawn flag.
\<close>

theorem policy_store_implements_register:
  "store_view (run_policy_store ops) = run_register ops \<and>
   map_sum id store_view (publish (run_policy_store ops) p) = register_publish (run_register ops) p \<and>
   map_sum id store_view (withdraw (run_policy_store ops) i v) = register_withdraw (run_register ops) i v \<and>
   get_policy_set (run_policy_store ops) i v =
     (if i = '''' then Inl (PolicyError ''set-id'')
      else case run_register ops (i, v) of None \<Rightarrow> Inl (PolicyError ''not-found'') | Some (q, w) \<Rightarrow> Inr q) \<and>
   is_withdrawn (run_policy_store ops) i v =
     (if i = '''' then Inl (PolicyError ''set-id'')
      else case run_register ops (i, v) of None \<Rightarrow> Inl (PolicyError ''not-found'') | Some (q, w) \<Rightarrow> Inr w)"
proof -
  have "find_entry (run_policy_store ops) i v =
     (if i = '''' then Inl (PolicyError ''set-id'')
      else case run_register ops (i, v) of None \<Rightarrow> Inl (PolicyError ''not-found'')
        | Some (q, w) \<Rightarrow> Inr \<lparr>se_policy_set = q, se_withdrawn = w\<rparr>)"
    unfolding run_policy_store_view [symmetric] by (simp add: find_entry_view store_view_def split: option.split)
  moreover note publish_refines(1) [OF run_policy_store_ok, of ops p] withdraw_refines(1) [OF run_policy_store_ok, of ops i v]
  ultimately show ?thesis
    by (auto simp: run_policy_store_view get_policy_set_def is_withdrawn_def split: option.split)
qed

text \<open>
  C28: a published version is immutable: whatever operations follow, the same set is
  stored under its id and version, and a withdrawn version stays withdrawn.
\<close>

theorem published_sets_are_immutable:
  assumes "store_view (run_policy_store ops) k = Some (q, w)"
  shows "\<exists>w'. store_view (run_policy_store (ops @ later)) k = Some (q, w') \<and> (w \<longrightarrow> w')"
  using assms register_run_keeps [of "run_register ops" k q w later]
  by (simp add: run_policy_store_view run_register_def)

lemma snapshot_mem:
  assumes "policy_store_ok s"
  shows "p \<in> set (snapshot s) \<longleftrightarrow> (\<exists>i. live_entry (dgetd s i []) = Some p)"
proof -
  have "live_entry (dgetd s i []) = None" if "i \<notin> set (map fst s)" for i
  proof -
    have "dget s i = None" using that by (simp add: map_of_eq_None_iff)
    then show ?thesis by (simp add: dgetd_def live_entry_def)
  qed
  then show ?thesis by (force simp: snapshot_def List.map_filter_def)
qed

text \<open>
  the snapshot holds exactly the sets that are stored and not withdrawn while every
  newer version of the same set id is withdrawn.
\<close>

theorem snapshot_is_the_newest_live_version:
  "p \<in> set (snapshot (run_policy_store ops)) \<longleftrightarrow>
     run_register ops (set_key p) = Some (p, False) \<and>
     \<not> (\<exists>v q. ps_version p < v \<and> run_register ops (ps_set_id p, v) = Some (q, False))"
proof -
  let ?s = "run_policy_store ops"
  have h: "history_ok i (dgetd ?s i [])" for i using run_policy_store_ok by (simp add: policy_store_ok_def)
  have id: "ps_set_id (se_policy_set e) = i" if "e \<in> set (dgetd ?s i [])" for e i using h that by (auto simp: history_ok_def)
  have view: "run_register ops (i, v) = Some (q, w) \<longleftrightarrow>
      \<lparr>se_policy_set = q, se_withdrawn = w\<rparr> \<in> set (dgetd ?s i []) \<and> ps_version q = v" for i v q w
    unfolding run_policy_store_view [symmetric] by (rule entry_in_view [OF h])
  have "p \<in> set (snapshot ?s) \<longleftrightarrow> live_entry (dgetd ?s (ps_set_id p) []) = Some p"
    using id by (auto simp: snapshot_mem [OF run_policy_store_ok] live_entry_iff [OF h])
  also have "\<dots> \<longleftrightarrow> \<lparr>se_policy_set = p, se_withdrawn = False\<rparr> \<in> set (dgetd ?s (ps_set_id p) []) \<and>
      (\<forall>q. ps_version p < ps_version q \<longrightarrow> \<lparr>se_policy_set = q, se_withdrawn = False\<rparr> \<notin> set (dgetd ?s (ps_set_id p) []))"
    unfolding live_entry_iff [OF h]
  proof (intro iffI conjI allI impI)
    assume "\<exists>e \<in> set (dgetd ?s (ps_set_id p) []). se_policy_set e = p \<and> \<not> se_withdrawn e \<and>
      (\<forall>f \<in> set (dgetd ?s (ps_set_id p) []). entry_version e < entry_version f \<longrightarrow> se_withdrawn f)"
    then obtain e where e: "e \<in> set (dgetd ?s (ps_set_id p) [])" "se_policy_set e = p" "\<not> se_withdrawn e"
      "\<forall>f \<in> set (dgetd ?s (ps_set_id p) []). ps_version p < entry_version f \<longrightarrow> se_withdrawn f"
      by (auto simp: entry_version_def)
    have "e = \<lparr>se_policy_set = p, se_withdrawn = False\<rparr>" using e(2,3) by (intro stored_entry.equality) simp_all
    with e(1) show "\<lparr>se_policy_set = p, se_withdrawn = False\<rparr> \<in> set (dgetd ?s (ps_set_id p) [])" by simp
    fix q :: policy_set assume "ps_version p < ps_version q"
    with e(4) show "\<lparr>se_policy_set = q, se_withdrawn = False\<rparr> \<notin> set (dgetd ?s (ps_set_id p) [])"
      by (force simp: entry_version_def)
  next
    assume a: "\<lparr>se_policy_set = p, se_withdrawn = False\<rparr> \<in> set (dgetd ?s (ps_set_id p) []) \<and>
      (\<forall>q. ps_version p < ps_version q \<longrightarrow> \<lparr>se_policy_set = q, se_withdrawn = False\<rparr> \<notin> set (dgetd ?s (ps_set_id p) []))"
    have "se_withdrawn f" if "f \<in> set (dgetd ?s (ps_set_id p) [])" "ps_version p < entry_version f" for f
    proof (rule ccontr)
      assume "\<not> se_withdrawn f"
      then have "f = \<lparr>se_policy_set = se_policy_set f, se_withdrawn = False\<rparr>" by (intro stored_entry.equality) simp_all
      with a that show False unfolding entry_version_def by metis
    qed
    with a show "\<exists>e \<in> set (dgetd ?s (ps_set_id p) []). se_policy_set e = p \<and> \<not> se_withdrawn e \<and>
      (\<forall>f \<in> set (dgetd ?s (ps_set_id p) []). entry_version e < entry_version f \<longrightarrow> se_withdrawn f)"
      by (intro bexI [of _ "\<lparr>se_policy_set = p, se_withdrawn = False\<rparr>"]) (auto simp: entry_version_def)
  qed
  finally show ?thesis by (auto simp: view set_key_def)
qed

lemma sample_set_bytes: "isOk (set_canonical_bytes (sample_set []))"
proof -
  have "canon_ok 0 (map_jval lit (set_to_dict (sample_set [])))"
    by (simp add: set_to_dict_def sample_set_def text_member_def texts_member_def MAX_CANONICAL_DEPTH_def)
  then obtain b where "canonical_bytes (set_to_dict (sample_set [])) = Inr b" by (rule canonical_ok)
  then show ?thesis by (simp add: set_canonical_bytes_def)
qed

theorem published_sets_are_immutable_witness:
  "\<exists>w'. store_view (run_policy_store [Publish (sample_set []), Withdraw ''base'' 1]) (''base'', 1) = Some (sample_set [], w')"
proof -
  have "validate_policy_set (sample_set []) = Inr ()" by (rule sample_set_ok) simp_all
  then have "store_view (run_policy_store [Publish (sample_set [])]) (''base'', 1) = Some (sample_set [], False)"
    using sample_set_bytes
    by (auto simp: run_policy_store_view run_register_def apply_op_def attempt_def register_publish_def set_key_def
        isOk_iff sample_set_def)
  from published_sets_are_immutable [OF this, of "[Withdraw ''base'' 1]"] show ?thesis by auto
qed


end
