(* ===== verification/Session_Model.thy ===== *)
theory Session_Model
  imports Routing_Engine
begin

text \<open>
  \<open>sessions/model.py\<close>: the lifecycle states and their transition table, the creation
  binding, sessions and events with the checks of their constructors, and the two
  content-derived ids.  SHA-256 is the parameter \<open>sha256_hex\<close>.  Fields have their
  annotated types; the texts of errors are left out.
\<close>

declare split_paired_All [simp del] split_paired_Ex [simp del]

section \<open>Errors, states and codes\<close>

text \<open>
  Besides \<open>SessionError\<close>, the exceptions of the objects a session refers to can leave an
  operation: they are kept apart, with the name of their class.
\<close>

datatype session_error = SessionError string | Escaped string

definition ABSENT_INTENT_MARKER :: string where
  "ABSENT_INTENT_MARKER = ''absent''"

definition session_states :: "string list" where
  "session_states = [''REQUESTED'', ''AUTHORIZED'', ''ESTABLISHED'', ''DEGRADED'', ''RECONNECTING'', ''SUSPENDED'',
     ''TERMINATING'', ''TERMINATED'', ''FAILED'']"

definition terminal_states :: "string list" where
  "terminal_states = [''TERMINATED'', ''FAILED'']"

definition TRANSITIONS :: "(string, string list) dict" where
  "TRANSITIONS =
     [(''REQUESTED'', [''AUTHORIZED'', ''FAILED'']),
      (''AUTHORIZED'', [''ESTABLISHED'', ''FAILED'']),
      (''ESTABLISHED'', [''DEGRADED'', ''RECONNECTING'', ''TERMINATING'', ''FAILED'']),
      (''DEGRADED'', [''ESTABLISHED'', ''RECONNECTING'', ''TERMINATING'', ''FAILED'']),
      (''RECONNECTING'', [''ESTABLISHED'', ''DEGRADED'', ''TERMINATING'', ''FAILED'']),
      (''SUSPENDED'', [''RECONNECTING'', ''TERMINATING'']),
      (''TERMINATING'', [''TERMINATED'', ''FAILED'']),
      (''TERMINATED'', []),
      (''FAILED'', [])]"

definition SUSPEND_SOURCES :: "string list" where
  "SUSPEND_SOURCES = [''ESTABLISHED'', ''DEGRADED'', ''RECONNECTING'']"

definition TERMINATABLE_STATES :: "string list" where
  "TERMINATABLE_STATES = [''ESTABLISHED'', ''DEGRADED'', ''RECONNECTING'', ''SUSPENDED'', ''TERMINATING'']"

definition transition_is_legal :: "string \<Rightarrow> string \<Rightarrow> bool" where
  "transition_is_legal previous new \<longleftrightarrow>
     (if previous = '''' then new = ''REQUESTED''
      else if new = ''SUSPENDED'' then previous \<in> set SUSPEND_SOURCES
      else new \<in> set (dgetd TRANSITIONS previous []))"

definition session_reason_codes :: "string list" where
  "session_reason_codes = [''created'', ''transitioned'', ''suspended'', ''reconnected'', ''terminated'',
     ''already-terminated'', ''replayed'', ''invalid-input'', ''invalid-node'', ''route-not-selected'',
     ''route-tampered'', ''path-tampered'', ''policy-decision-tampered'', ''policy-binding-mismatch'',
     ''intent-binding-mismatch'', ''endpoint-mismatch'', ''route-expired'', ''session-exists'', ''unknown-session'',
     ''illegal-transition'', ''terminal-state'', ''not-reconnecting'', ''sequence-conflict'', ''sequence-gap'',
     ''event-tampered'', ''event-state-mismatch'', ''reconnect-validation-required'', ''event-binding-mismatch'',
     ''event-appended'', ''extension-authority-required'']"

section \<open>Free text\<close>

definition session_secret_hints :: "string list" where
  "session_secret_hints = [''private_key'', ''secret_key'', ''priv_key'', ''password'', ''token'',
     ''credential_secret'', ''subscriber_secret'', ''modem_secret'']"

definition session_looks_secret :: "string \<Rightarrow> bool" where
  "session_looks_secret s \<longleftrightarrow> ascii_lower s \<in> set session_secret_hints"

fun session_has_secret :: "string jval \<Rightarrow> bool" where
  "session_has_secret (JObj kvs) \<longleftrightarrow>
     (\<exists>kv \<in> set kvs. session_looks_secret (fst kv) \<or> session_has_secret (snd kv))"
| "session_has_secret (JArr xs) \<longleftrightarrow>
     (\<exists>x \<in> set xs. (case x of JStr s \<Rightarrow> session_looks_secret s | _ \<Rightarrow> False) \<or> session_has_secret x)"
| "session_has_secret _ \<longleftrightarrow> False"

definition session_forbidden_tokens :: "string list" where
  "session_forbidden_tokens = [''5g'', ''6g'', ''nr'', ''lte'', ''wifi'', ''wi-fi'', ''3g'', ''4g'', ''cellular'',
     ''satellite'', ''mesh'', ''fiber'', ''ethernet'', ''vendor'', ''ran'', ''cn'', ''bearer'', ''apn'', ''imsi'',
     ''imei'', ''ssid'']"

definition has_session_token :: "string \<Rightarrow> bool" where
  "has_session_token v \<longleftrightarrow> list_ex (\<lambda>w. has_word w True (ascii_lower v)) session_forbidden_tokens"

definition validate_free_text :: "string \<Rightarrow> session_error + unit" where
  "validate_free_text v =
     bindE (guardE (session_looks_secret v) (SessionError ''secret-material'')) (\<lambda>_.
       guardE (has_session_token v) (SessionError ''access-technology-leakage''))"

fun check_each :: "('a \<Rightarrow> 'e + unit) \<Rightarrow> 'a list \<Rightarrow> 'e + unit" where
  \<comment> \<open>a \<open>for\<close> loop whose body only raises\<close>
  "check_each f [] = Inr ()"
| "check_each f (x # xs) = bindE (f x) (\<lambda>_. check_each f xs)"

definition check_extension :: "string jval \<Rightarrow> session_error + unit" where
  \<comment> \<open>one round of the loop over \<open>extensions\<close> in the constructors\<close>
  "check_extension ext =
     (case ext of
        JObj d \<Rightarrow>
          bindE (guardE (session_has_secret ext) (SessionError ''secret-material'')) (\<lambda>_.
            guardE (list_ex (\<lambda>kv. has_session_token (fst kv)) d) (SessionError ''access-technology-leakage''))
      | _ \<Rightarrow> Inl (SessionError ''extensions''))"

section \<open>Creation bindings\<close>

record session_binding =
  sb_source :: string
  sb_destination :: string
  sb_route_decision_id :: string
  sb_policy_decision_id :: string
  sb_path_id :: string
  sb_path_expires_at :: string
  sb_intent_digest :: string
  sb_policy_set_id :: string
  sb_policy_set_version :: int

definition make_binding :: "session_binding \<Rightarrow> session_error + session_binding" where
  "make_binding b =
     bindE (guardE (sb_source b = '''' \<or> \<not> node_ok (sb_source b)) (SessionError ''endpoint'')) (\<lambda>_.
     bindE (guardE (sb_destination b = '''' \<or> \<not> node_ok (sb_destination b)) (SessionError ''endpoint'')) (\<lambda>_.
     bindE (guardE (sb_route_decision_id b = '''') (SessionError ''route_decision_id'')) (\<lambda>_.
     bindE (guardE (sb_policy_decision_id b = '''') (SessionError ''policy_decision_id'')) (\<lambda>_.
     bindE (guardE (sb_path_id b = '''') (SessionError ''path_id'')) (\<lambda>_.
     bindE (guardE (sb_intent_digest b \<noteq> '''' \<and> \<not> is_valid_content_digest (sb_intent_digest b))
              (SessionError ''intent-digest'')) (\<lambda>_.
     bindE (guardE (sb_policy_set_version b < -1) (SessionError ''policy-set-version'')) (\<lambda>_.
     bindE (guardE (parse_instant (sb_path_expires_at b) = None) (SessionError ''path-expires-at'')) (\<lambda>_.
       Inr b))))))))"

definition intent_slot :: "session_binding \<Rightarrow> string" where
  "intent_slot b = (if sb_intent_digest b = '''' then ABSENT_INTENT_MARKER else sb_intent_digest b)"

definition binding_to_dict :: "session_binding \<Rightarrow> string jval" where
  "binding_to_dict b = JObj
     ([(''source_node_id'', JStr (sb_source b)), (''destination_node_id'', JStr (sb_destination b)),
       (''route_decision_id'', JStr (sb_route_decision_id b)), (''policy_decision_id'', JStr (sb_policy_decision_id b)),
       (''path_id'', JStr (sb_path_id b)), (''path_expires_at'', JStr (sb_path_expires_at b))]
      @ text_member ''intent_digest'' (sb_intent_digest b)
      @ text_member ''policy_set_id'' (sb_policy_set_id b)
      @ (if 0 \<le> sb_policy_set_version b then [(''policy_set_version'', JInt (sb_policy_set_version b))] else []))"

section \<open>Sessions\<close>

definition identity_document :: "session_binding \<Rightarrow> string \<Rightarrow> string jval" where
  "identity_document b creation_instant = JObj
     [(''source_node_id'', JStr (sb_source b)), (''destination_node_id'', JStr (sb_destination b)),
      (''route_decision_id'', JStr (sb_route_decision_id b)), (''policy_decision_id'', JStr (sb_policy_decision_id b)),
      (''intent_digest'', JStr (intent_slot b)), (''creation_instant'', JStr creation_instant)]"

definition derive_session_id :: "(bytes \<Rightarrow> string) \<Rightarrow> session_binding \<Rightarrow> string \<Rightarrow> session_error + string" where
  \<comment> \<open>the arguments are the binding's members\<close>
  "derive_session_id sha256_hex b creation_instant =
     (case canonical_bytes (identity_document b creation_instant) of
        Inl _ \<Rightarrow> Inl (SessionError ''session-id'') | Inr bs \<Rightarrow> Inr (''sha256:'' @ sha256_hex bs))"

record session =
  ss_session_id :: string
  ss_binding :: session_binding
  ss_state :: string
  ss_creation_instant :: string
  ss_route_decision_id :: string
  ss_path_id :: string
  ss_path_expires_at :: string
  ss_last_sequence :: int
  ss_last_instant :: string
  ss_extensions :: "string jval list"

definition or_default :: "string \<Rightarrow> string \<Rightarrow> string" where
  "or_default s d = (if s = '''' then d else s)"

definition make_session :: "(bytes \<Rightarrow> string) \<Rightarrow> session \<Rightarrow> session_error + session" where
  \<comment> \<open>\<open>Session.__post_init__\<close>, which \<open>replace\<close> runs again; empty route references and an
     empty id are filled in\<close>
  "make_session sha256_hex s0 =
     (let b = ss_binding s0;
          s = s0\<lparr>ss_route_decision_id := or_default (ss_route_decision_id s0) (sb_route_decision_id b),
                 ss_path_id := or_default (ss_path_id s0) (sb_path_id b),
                 ss_path_expires_at := or_default (ss_path_expires_at s0) (sb_path_expires_at b)\<rparr>
      in
     bindE (guardE (ss_state s \<notin> set session_states) (SessionError ''state'')) (\<lambda>_.
     bindE (guardE (parse_instant (ss_creation_instant s) = None) (SessionError ''creation-instant'')) (\<lambda>_.
     bindE (guardE (ss_route_decision_id s = '''') (SessionError ''current_route_decision_id'')) (\<lambda>_.
     bindE (guardE (ss_path_id s = '''') (SessionError ''current_path_id'')) (\<lambda>_.
     bindE (guardE (ss_path_expires_at s = '''') (SessionError ''current_path_expires_at'')) (\<lambda>_.
     bindE (guardE (ss_last_sequence s < 0) (SessionError ''sequence'')) (\<lambda>_.
     bindE (guardE (ss_last_instant s \<noteq> '''' \<and> parse_instant (ss_last_instant s) = None)
              (SessionError ''last-event-instant'')) (\<lambda>_.
     bindE (check_each check_extension (ss_extensions s)) (\<lambda>_.
     bindE (derive_session_id sha256_hex b (ss_creation_instant s)) (\<lambda>expected.
       if ss_session_id s = '''' then Inr (s\<lparr>ss_session_id := expected\<rparr>)
       else if ss_session_id s \<noteq> expected then Inl (SessionError ''session-id'')
       else Inr s))))))))))"

definition session_to_dict :: "session \<Rightarrow> string jval" where
  "session_to_dict s = JObj
     ([(''session_id'', JStr (ss_session_id s)), (''binding'', binding_to_dict (ss_binding s)),
       (''state'', JStr (ss_state s)), (''creation_instant'', JStr (ss_creation_instant s)),
       (''current_route_decision_id'', JStr (ss_route_decision_id s)), (''current_path_id'', JStr (ss_path_id s)),
       (''current_path_expires_at'', JStr (ss_path_expires_at s)),
       (''last_event_sequence'', JInt (ss_last_sequence s))]
      @ text_member ''last_event_instant'' (ss_last_instant s)
      @ (if ss_extensions s = [] then [] else [(''extensions'', JArr (ss_extensions s))]))"

section \<open>Events\<close>

record session_event =
  ev_event_id :: string
  ev_session_id :: string
  ev_sequence :: int
  ev_previous_state :: string
  ev_new_state :: string
  ev_event_type :: string
  ev_instant :: string
  ev_actor :: string
  ev_reason :: string
  ev_metadata :: "(string \<times> string) list"
  ev_extensions :: "string jval list"

definition event_content :: "session_event \<Rightarrow> string jval" where
  \<comment> \<open>\<open>SessionEvent.content_dict\<close>: everything but the id, the metadata sorted by key\<close>
  "event_content e = JObj
     ([(''session_id'', JStr (ev_session_id e)), (''sequence'', JInt (ev_sequence e)),
       (''previous_state'', JStr (ev_previous_state e)), (''new_state'', JStr (ev_new_state e)),
       (''event_type'', JStr (ev_event_type e)), (''event_instant'', JStr (ev_instant e))]
      @ text_member ''actor_reference'' (ev_actor e)
      @ text_member ''reason_code'' (ev_reason e)
      @ (if ev_metadata e = [] then [] else [(''metadata'', pairs_doc (sort_key fst (ev_metadata e)))])
      @ (if ev_extensions e = [] then [] else [(''extensions'', JArr (ev_extensions e))]))"

definition event_to_dict :: "session_event \<Rightarrow> string jval" where
  "event_to_dict e = (case event_content e of JObj d \<Rightarrow> JObj ((''event_id'', JStr (ev_event_id e)) # d))"

definition derive_event_id :: "(bytes \<Rightarrow> string) \<Rightarrow> session_event \<Rightarrow> session_error + string" where
  "derive_event_id sha256_hex e =
     (case canonical_bytes (event_content e) of
        Inl _ \<Rightarrow> Inl (SessionError ''event-id'') | Inr bs \<Rightarrow> Inr (''sha256:'' @ sha256_hex bs))"

fun check_metadata :: "string list \<Rightarrow> (string \<times> string) list \<Rightarrow> session_error + unit" where
  \<comment> \<open>the loop over the pairs with the keys seen so far\<close>
  "check_metadata seen [] = Inr ()"
| "check_metadata seen (kv # kvs) =
     bindE (guardE (fst kv = '''') (SessionError ''metadata'')) (\<lambda>_.
     bindE (guardE (fst kv \<in> set seen) (SessionError ''metadata'')) (\<lambda>_.
     bindE (validate_free_text (fst kv)) (\<lambda>_.
     bindE (validate_free_text (snd kv)) (\<lambda>_.
       check_metadata (fst kv # seen) kvs))))"

definition make_event :: "(bytes \<Rightarrow> string) \<Rightarrow> session_event \<Rightarrow> session_error + session_event" where
  "make_event sha256_hex e =
     bindE (guardE (ev_session_id e = '''') (SessionError ''session-id'')) (\<lambda>_.
     bindE (guardE (ev_sequence e < 1) (SessionError ''sequence'')) (\<lambda>_.
     bindE (guardE (ev_previous_state e \<noteq> '''' \<and> ev_previous_state e \<notin> set session_states)
              (SessionError ''previous-state'')) (\<lambda>_.
     bindE (guardE (ev_new_state e \<notin> set session_states) (SessionError ''new-state'')) (\<lambda>_.
     bindE (guardE (ev_event_type e = '''') (SessionError ''event-type'')) (\<lambda>_.
     bindE (guardE (parse_instant (ev_instant e) = None) (SessionError ''event-instant'')) (\<lambda>_.
     bindE (validate_free_text (ev_actor e)) (\<lambda>_.
     bindE (validate_free_text (ev_reason e)) (\<lambda>_.
     bindE (check_metadata [] (ev_metadata e)) (\<lambda>_.
     bindE (check_each check_extension (ev_extensions e)) (\<lambda>_.
     bindE (derive_event_id sha256_hex e) (\<lambda>expected.
       if ev_event_id e = '''' then Inr (e\<lparr>ev_event_id := expected\<rparr>)
       else if ev_event_id e \<noteq> expected then Inl (SessionError ''event-id'')
       else Inr e)))))))))))"

section \<open>Results\<close>

record session_result =
  sr_ok :: bool
  sr_code :: string
  sr_session :: "session option"
  sr_event :: "session_event option"

end
