(* ===== verification/Session_Validation.thy ===== *)
theory Session_Validation
  imports Session_Model
begin

text \<open>
  \<open>sessions/validation.py\<close>: what a session checks of the routing decision and the policy
  decision it refers to, when it is created and when it reconnects, in the order of the
  code; and the facts that hold once a check has passed.
\<close>

declare split_paired_All [simp del] split_paired_Ex [simp del]

section \<open>The checks\<close>

definition decision_id_matches :: "(bytes \<Rightarrow> string) \<Rightarrow> policy_decision \<Rightarrow> session_error + bool" where
  \<comment> \<open>\<open>canonical_bytes\<close> raises \<open>PolicyError\<close>, which is not among the caught exceptions\<close>
  "decision_id_matches sha256_hex d =
     (case canonical_bytes (policy_content d) of
        Inl _ \<Rightarrow> Inl (Escaped ''PolicyError'') | Inr b \<Rightarrow> Inr (sha256_hex b = strip_sha256 (pd_decision_id d)))"

definition route_decision_id_matches :: "(bytes \<Rightarrow> string) \<Rightarrow> route_decision \<Rightarrow> session_error + bool" where
  "route_decision_id_matches sha256_hex d =
     (case canonical_bytes (decision_content d) of
        Inl _ \<Rightarrow> Inl (Escaped ''RoutingError'') | Inr b \<Rightarrow> Inr (sha256_hex b = strip_sha256 (rd_decision_id d)))"

definition route_intent_slot :: "route_decision \<Rightarrow> string" where
  "route_intent_slot d = dgetd (rd_input_digests d) ''intent'' ABSENT_INTENT_MARKER"

definition path_is_content_bound :: "(bytes \<Rightarrow> string) \<Rightarrow> route_path \<Rightarrow> bool" where
  "path_is_content_bound sha256_hex p \<longleftrightarrow>
     (case derive_path_id sha256_hex (pa_source p) (pa_destination p) (pa_hops p) (pa_nodes p) of
        Inl _ \<Rightarrow> False | Inr expected \<Rightarrow> pa_path_id p = expected)"

definition not_expired :: "string \<Rightarrow> string \<Rightarrow> session_error + bool" where
  "not_expired instant expires_at =
     (case (parse_instant instant, parse_instant expires_at) of
        (Some now, Some expires) \<Rightarrow> Inr (now \<le> expires) | _ \<Rightarrow> Inl (Escaped ''TemporalError''))"

definition check_node :: "string \<Rightarrow> session_error + unit" where
  "check_node v = guardE (v = '''' \<or> \<not> node_ok v) (SessionError ''invalid-node'')"

definition check_selected :: "(bytes \<Rightarrow> string) \<Rightarrow> route_decision \<Rightarrow> string \<Rightarrow> string \<Rightarrow> session_error + route_path" where
  \<comment> \<open>the part both verifications share: an intact decision, that selected an intact path
     between the given nodes\<close>
  "check_selected sha256_hex rd src dst =
     bindE (route_decision_id_matches sha256_hex rd) (\<lambda>intact.
     bindE (guardE (\<not> intact) (SessionError ''route-tampered'')) (\<lambda>_.
     bindE (guardE (rd_code rd \<noteq> ''selected'') (SessionError ''route-not-selected'')) (\<lambda>_.
       case rd_selected rd of
         None \<Rightarrow> Inl (SessionError ''route-not-selected'')
       | Some p \<Rightarrow>
           bindE (guardE (\<not> path_is_content_bound sha256_hex p) (SessionError ''path-tampered'')) (\<lambda>_.
           bindE (guardE (pa_source p \<noteq> src \<or> pa_destination p \<noteq> dst) (SessionError ''endpoint-mismatch'')) (\<lambda>_.
             Inr p)))))"

definition verify_route_for_creation ::
  "(bytes \<Rightarrow> string) \<Rightarrow> route_decision \<Rightarrow> policy_decision \<Rightarrow> string \<Rightarrow> string \<Rightarrow> string \<Rightarrow> string \<Rightarrow>
   session_error + session_binding" where
  "verify_route_for_creation sha256_hex rd pd src dst intent_digest creation_instant =
     bindE (check_node src) (\<lambda>_.
     bindE (check_node dst) (\<lambda>_.
     bindE (guardE (parse_instant creation_instant = None) (SessionError ''invalid-input'')) (\<lambda>_.
     bindE (check_selected sha256_hex rd src dst) (\<lambda>selected.
     bindE (decision_id_matches sha256_hex pd) (\<lambda>intact.
     bindE (guardE (\<not> intact) (SessionError ''policy-decision-tampered'')) (\<lambda>_.
     bindE (guardE (pd_effect pd \<noteq> ''allow'') (SessionError ''policy-binding-mismatch'')) (\<lambda>_.
     bindE (guardE (rd_policy_decision_id rd = '''') (SessionError ''policy-binding-mismatch'')) (\<lambda>_.
     bindE (guardE (pd_decision_id pd \<noteq> rd_policy_decision_id rd) (SessionError ''policy-binding-mismatch'')) (\<lambda>_.
     bindE (guardE (intent_digest \<noteq> '''' \<and> \<not> is_valid_content_digest intent_digest)
              (SessionError ''invalid-input'')) (\<lambda>_.
     bindE (guardE (route_intent_slot rd \<noteq> or_default intent_digest ABSENT_INTENT_MARKER)
              (SessionError ''intent-binding-mismatch'')) (\<lambda>_.
     bindE (not_expired creation_instant (me_expires_at (pa_metrics selected))) (\<lambda>live.
     bindE (guardE (\<not> live) (SessionError ''route-expired'')) (\<lambda>_.
       make_binding \<lparr>sb_source = src, sb_destination = dst, sb_route_decision_id = rd_decision_id rd,
         sb_policy_decision_id = pd_decision_id pd, sb_path_id = pa_path_id selected,
         sb_path_expires_at = me_expires_at (pa_metrics selected), sb_intent_digest = intent_digest,
         sb_policy_set_id = pd_policy_set_id pd, sb_policy_set_version = pd_policy_set_version pd\<rparr>)))))))))))))"

definition check_policy_rebinding ::
  "(bytes \<Rightarrow> string) \<Rightarrow> session_binding \<Rightarrow> policy_decision \<Rightarrow> session_error + unit" where
  \<comment> \<open>the checks of a policy decision supplied with a reconnect\<close>
  "check_policy_rebinding sha256_hex b pd =
     bindE (decision_id_matches sha256_hex pd) (\<lambda>intact.
     bindE (guardE (\<not> intact) (SessionError ''policy-decision-tampered'')) (\<lambda>_.
     bindE (guardE (pd_effect pd \<noteq> ''allow'') (SessionError ''policy-binding-mismatch'')) (\<lambda>_.
     bindE (guardE (pd_decision_id pd \<noteq> sb_policy_decision_id b) (SessionError ''policy-binding-mismatch'')) (\<lambda>_.
     bindE (guardE (sb_policy_set_id b \<noteq> '''' \<and> pd_policy_set_id pd \<noteq> sb_policy_set_id b)
              (SessionError ''policy-binding-mismatch'')) (\<lambda>_.
       guardE (0 \<le> sb_policy_set_version b \<and> pd_policy_set_version pd \<noteq> sb_policy_set_version b)
         (SessionError ''policy-binding-mismatch''))))))"

definition verify_route_for_reconnect ::
  "(bytes \<Rightarrow> string) \<Rightarrow> session_binding \<Rightarrow> route_decision \<Rightarrow> string \<Rightarrow> policy_decision option \<Rightarrow>
   session_error + (string \<times> string \<times> string)" where
  "verify_route_for_reconnect sha256_hex b rd reconnect_instant pd =
     bindE (guardE (parse_instant reconnect_instant = None) (SessionError ''invalid-input'')) (\<lambda>_.
     bindE (check_selected sha256_hex rd (sb_source b) (sb_destination b)) (\<lambda>selected.
     bindE (guardE (rd_policy_decision_id rd \<noteq> sb_policy_decision_id b) (SessionError ''policy-binding-mismatch'')) (\<lambda>_.
     bindE (case pd of None \<Rightarrow> Inr () | Some p \<Rightarrow> check_policy_rebinding sha256_hex b p) (\<lambda>_.
     bindE (guardE (route_intent_slot rd \<noteq> intent_slot b) (SessionError ''intent-binding-mismatch'')) (\<lambda>_.
     bindE (not_expired reconnect_instant (me_expires_at (pa_metrics selected))) (\<lambda>live.
     bindE (guardE (\<not> live) (SessionError ''route-expired'')) (\<lambda>_.
       Inr (rd_decision_id rd, pa_path_id selected, me_expires_at (pa_metrics selected)))))))))"

section \<open>What a passed check establishes\<close>

definition intact_route :: "(bytes \<Rightarrow> string) \<Rightarrow> route_decision \<Rightarrow> string \<Rightarrow> string \<Rightarrow> route_path \<Rightarrow> bool" where
  \<comment> \<open>a decision whose id is the digest of its content, that selected the path, whose id is
     the digest of its nodes and links, between the two nodes\<close>
  "intact_route sha256_hex rd src dst p \<longleftrightarrow>
     (\<exists>b. canonical_bytes (decision_content rd) = Inr b \<and> strip_sha256 (rd_decision_id rd) = sha256_hex b) \<and>
     rd_code rd = ''selected'' \<and> rd_selected rd = Some p \<and> pa_source p = src \<and> pa_destination p = dst \<and>
     derive_path_id sha256_hex src dst (pa_hops p) (pa_nodes p) = Inr (pa_path_id p)"

definition intact_permit :: "(bytes \<Rightarrow> string) \<Rightarrow> policy_decision \<Rightarrow> bool" where
  "intact_permit sha256_hex pd \<longleftrightarrow>
     (\<exists>b. canonical_bytes (policy_content pd) = Inr b \<and> strip_sha256 (pd_decision_id pd) = sha256_hex b) \<and>
     pd_effect pd = ''allow''"

definition live_at :: "string \<Rightarrow> string \<Rightarrow> bool" where
  \<comment> \<open>the first instant is not after the second\<close>
  "live_at instant expires_at \<longleftrightarrow>
     (\<exists>now expires. parse_instant instant = Some now \<and> parse_instant expires_at = Some expires \<and> now \<le> expires)"

lemma not_expired_iff: "not_expired i e = Inr True \<longleftrightarrow> live_at i e"
  by (auto simp: not_expired_def live_at_def split: option.splits)

lemma check_node_iff: "check_node v = Inr u \<longleftrightarrow> v \<noteq> '''' \<and> node_ok v"
  by (simp add: check_node_def)

lemma check_selected_iff: "check_selected H rd src dst = Inr p \<longleftrightarrow> intact_route H rd src dst p"
  unfolding check_selected_def intact_route_def route_decision_id_matches_def path_is_content_bound_def
  by (cases "rd_selected rd") (auto simp: bindE_eq_Inr_iff split: sum.splits)

lemma decision_id_matches_iff:
  "decision_id_matches H pd = Inr True \<longleftrightarrow>
     (\<exists>b. canonical_bytes (policy_content pd) = Inr b \<and> strip_sha256 (pd_decision_id pd) = H b)"
  by (auto simp: decision_id_matches_def split: sum.splits)

lemma check_policy_rebinding_iff:
  "check_policy_rebinding H b pd = Inr u \<longleftrightarrow>
     intact_permit H pd \<and> pd_decision_id pd = sb_policy_decision_id b \<and>
     (sb_policy_set_id b = '''' \<or> pd_policy_set_id pd = sb_policy_set_id b) \<and>
     (sb_policy_set_version b < 0 \<or> pd_policy_set_version pd = sb_policy_set_version b)"
  by (auto simp: check_policy_rebinding_def intact_permit_def bindE_eq_Inr_iff decision_id_matches_iff
      decision_id_matches_def not_le split: sum.splits)

definition creation_facts ::
  "(bytes \<Rightarrow> string) \<Rightarrow> route_decision \<Rightarrow> policy_decision \<Rightarrow> string \<Rightarrow> string \<Rightarrow> string \<Rightarrow> string \<Rightarrow> route_path \<Rightarrow> bool" where
  "creation_facts sha256_hex rd pd src dst intent_digest instant p \<longleftrightarrow>
     src \<noteq> '''' \<and> node_ok src \<and> dst \<noteq> '''' \<and> node_ok dst \<and> parse_instant instant \<noteq> None \<and>
     intact_route sha256_hex rd src dst p \<and> intact_permit sha256_hex pd \<and>
     pd_decision_id pd \<noteq> '''' \<and> rd_policy_decision_id rd = pd_decision_id pd \<and>
     (intent_digest = '''' \<or> is_valid_content_digest intent_digest) \<and>
     route_intent_slot rd = or_default intent_digest ABSENT_INTENT_MARKER \<and>
     live_at instant (me_expires_at (pa_metrics p)) \<and>
     rd_decision_id rd \<noteq> '''' \<and> pa_path_id p \<noteq> '''' \<and> -1 \<le> pd_policy_set_version pd"

definition bound_to ::
  "route_decision \<Rightarrow> policy_decision \<Rightarrow> string \<Rightarrow> string \<Rightarrow> string \<Rightarrow> route_path \<Rightarrow> session_binding" where
  "bound_to rd pd src dst intent_digest p =
     \<lparr>sb_source = src, sb_destination = dst, sb_route_decision_id = rd_decision_id rd,
      sb_policy_decision_id = pd_decision_id pd, sb_path_id = pa_path_id p,
      sb_path_expires_at = me_expires_at (pa_metrics p), sb_intent_digest = intent_digest,
      sb_policy_set_id = pd_policy_set_id pd, sb_policy_set_version = pd_policy_set_version pd\<rparr>"

lemma make_binding_iff:
  "make_binding b = Inr b' \<longleftrightarrow>
     b' = b \<and> sb_source b \<noteq> '''' \<and> node_ok (sb_source b) \<and> sb_destination b \<noteq> '''' \<and> node_ok (sb_destination b) \<and>
     sb_route_decision_id b \<noteq> '''' \<and> sb_policy_decision_id b \<noteq> '''' \<and> sb_path_id b \<noteq> '''' \<and>
     (sb_intent_digest b = '''' \<or> is_valid_content_digest (sb_intent_digest b)) \<and> -1 \<le> sb_policy_set_version b \<and>
     parse_instant (sb_path_expires_at b) \<noteq> None"
  by (auto simp: make_binding_def bindE_eq_Inr_iff not_less)

lemma verify_creation_iff:
  "verify_route_for_creation H rd pd src dst dig inst = Inr b \<longleftrightarrow>
     (\<exists>p. creation_facts H rd pd src dst dig inst p \<and> b = bound_to rd pd src dst dig p)"
proof
  assume "verify_route_for_creation H rd pd src dst dig inst = Inr b"
  then obtain p intact live and u v :: unit where p: "check_node src = Inr u" "check_node dst = Inr v"
    "\<not> parse_instant inst = None"
    "check_selected H rd src dst = Inr p" "decision_id_matches H pd = Inr intact" "\<not> \<not> intact"
    "\<not> pd_effect pd \<noteq> ''allow''" "\<not> rd_policy_decision_id rd = ''''" "\<not> pd_decision_id pd \<noteq> rd_policy_decision_id rd"
    "\<not> (dig \<noteq> '''' \<and> \<not> is_valid_content_digest dig)" "\<not> route_intent_slot rd \<noteq> or_default dig ABSENT_INTENT_MARKER"
    "not_expired inst (me_expires_at (pa_metrics p)) = Inr live" "\<not> \<not> live"
    "make_binding (bound_to rd pd src dst dig p) = Inr b"
    unfolding verify_route_for_creation_def bound_to_def bindE_eq_Inr_iff guardE_eq_Inr_iff by blast
  then have "creation_facts H rd pd src dst dig inst p" "b = bound_to rd pd src dst dig p"
    by (simp_all add: creation_facts_def check_node_iff check_selected_iff decision_id_matches_iff intact_permit_def
        make_binding_iff not_expired_iff) (simp_all add: bound_to_def)
  then show "\<exists>p. creation_facts H rd pd src dst dig inst p \<and> b = bound_to rd pd src dst dig p" by blast
next
  assume "\<exists>p. creation_facts H rd pd src dst dig inst p \<and> b = bound_to rd pd src dst dig p"
  then obtain p where p: "creation_facts H rd pd src dst dig inst p" "b = bound_to rd pd src dst dig p" by blast
  have s: "check_selected H rd src dst = Inr p" using p(1) by (simp add: check_selected_iff creation_facts_def)
  have d: "decision_id_matches H pd = Inr True"
    using p(1) by (simp add: decision_id_matches_iff creation_facts_def intact_permit_def)
  have l: "not_expired inst (me_expires_at (pa_metrics p)) = Inr True"
    using p(1) by (simp add: not_expired_iff creation_facts_def)
  have m: "make_binding b = Inr b"
    using p by (auto simp: make_binding_iff bound_to_def creation_facts_def live_at_def)
  show "verify_route_for_creation H rd pd src dst dig inst = Inr b"
    using p(1) m by (auto simp: verify_route_for_creation_def check_node_def s d l p(2) creation_facts_def
        intact_permit_def bound_to_def)
qed

definition reconnect_facts ::
  "(bytes \<Rightarrow> string) \<Rightarrow> session_binding \<Rightarrow> route_decision \<Rightarrow> string \<Rightarrow> route_path \<Rightarrow> bool" where
  "reconnect_facts sha256_hex b rd instant p \<longleftrightarrow>
     intact_route sha256_hex rd (sb_source b) (sb_destination b) p \<and>
     rd_policy_decision_id rd = sb_policy_decision_id b \<and> route_intent_slot rd = intent_slot b \<and>
     live_at instant (me_expires_at (pa_metrics p))"

lemma verify_reconnect_iff:
  "verify_route_for_reconnect H b rd inst pd = Inr r \<longleftrightarrow>
     (\<exists>p. reconnect_facts H b rd inst p \<and> r = (rd_decision_id rd, pa_path_id p, me_expires_at (pa_metrics p))) \<and>
     (case pd of None \<Rightarrow> True | Some d \<Rightarrow> check_policy_rebinding H b d = Inr ())"
proof
  assume "verify_route_for_reconnect H b rd inst pd = Inr r"
  then show "(\<exists>p. reconnect_facts H b rd inst p \<and> r = (rd_decision_id rd, pa_path_id p, me_expires_at (pa_metrics p))) \<and>
     (case pd of None \<Rightarrow> True | Some d \<Rightarrow> check_policy_rebinding H b d = Inr ())"
    by (auto simp: verify_route_for_reconnect_def reconnect_facts_def bindE_eq_Inr_iff check_selected_iff
        not_expired_iff split: option.splits if_splits)
next
  assume "(\<exists>p. reconnect_facts H b rd inst p \<and> r = (rd_decision_id rd, pa_path_id p, me_expires_at (pa_metrics p))) \<and>
     (case pd of None \<Rightarrow> True | Some d \<Rightarrow> check_policy_rebinding H b d = Inr ())"
  then obtain p where p: "reconnect_facts H b rd inst p" "r = (rd_decision_id rd, pa_path_id p, me_expires_at (pa_metrics p))"
    and d: "(case pd of None \<Rightarrow> Inr () | Some d \<Rightarrow> check_policy_rebinding H b d) = Inr ()"
    by (auto split: option.splits)
  have "check_selected H rd (sb_source b) (sb_destination b) = Inr p" "parse_instant inst \<noteq> None"
    "not_expired inst (me_expires_at (pa_metrics p)) = Inr True"
    using p(1) by (auto simp: check_selected_iff reconnect_facts_def live_at_def not_expired_iff)
  then show "verify_route_for_reconnect H b rd inst pd = Inr r"
    using p by (simp add: verify_route_for_reconnect_def d) (simp add: reconnect_facts_def)
qed

end
