(* ===== verification/Session_Store.thy ===== *)
theory Session_Store
  imports Session_Validation
begin

text \<open>
  \<open>sessions/store.py\<close>: the store of sessions and their event histories.  An operation
  returns its result together with the store it leaves; \<open>Inl\<close> is an exception that leaves
  the operation, in which case the store is the one before the call.  The store's lock
  serialises the operations, so a run is a sequence of calls.  Python code objects, which
  the store compares by identity, are records of a number and the two names it reads; the
  frame an operation is called from is an argument.  The details of results are left out.
\<close>

declare split_paired_All [simp del] split_paired_Ex [simp del]

section \<open>Extension trust\<close>

record py_code =
  co_id :: nat
  co_filename :: string
  co_name :: string

definition declare_extension_constructor ::
  "py_code \<Rightarrow> py_code \<Rightarrow> py_code list \<Rightarrow> session_error + py_code list" where
  \<comment> \<open>\<open>_declare\<close>: the declaring frame, the declared constructor, the declarations so far\<close>
  "declare_extension_constructor declaring constructor declared =
     bindE (guardE (co_name declaring \<noteq> ''<module>'') (SessionError ''extension-authority'')) (\<lambda>_.
     bindE (guardE (co_filename constructor \<noteq> co_filename declaring) (SessionError ''extension-authority'')) (\<lambda>_.
     bindE (guardE (co_name constructor \<noteq> ''__init__'') (SessionError ''extension-authority'')) (\<lambda>_.
       Inr (List.insert constructor declared))))"

record session_store =
  st_sessions :: "(string, session) dict"
  st_events :: "(string, session_event list) dict"
  st_trusted :: "py_code list"

definition empty_session_store :: session_store where
  "empty_session_store = \<lparr>st_sessions = [], st_events = [], st_trusted = []\<rparr>"

definition register_extension_commit_capability ::
  "py_code list \<Rightarrow> py_code \<Rightarrow> py_code \<Rightarrow> session_store \<Rightarrow> session_error + session_store" where
  "register_extension_commit_capability declared frame code_object st =
     bindE (guardE (st_trusted st \<noteq> []) (SessionError ''extension-authority'')) (\<lambda>_.
     bindE (guardE (frame \<notin> set declared) (SessionError ''extension-authority'')) (\<lambda>_.
       Inr (st\<lparr>st_trusted := st_trusted st @ [code_object]\<rparr>)))"

section \<open>Results and commits\<close>

type_synonym store_outcome = "session_error + (session_result \<times> session_store)"

definition failed :: "session_store \<Rightarrow> string \<Rightarrow> session option \<Rightarrow> store_outcome" where
  "failed st code s = Inr (\<lparr>sr_ok = False, sr_code = code, sr_session = s, sr_event = None\<rparr>, st)"

definition envelope_error :: "session_store \<Rightarrow> session_error \<Rightarrow> store_outcome" where
  \<comment> \<open>\<open>except SessionError as error: return _envelope_error(error)\<close>\<close>
  "envelope_error st e =
     (case e of
        SessionError code \<Rightarrow>
          failed st (if code \<in> set session_reason_codes \<or> code \<in> {''invalid-input'', ''invalid-node''}
                     then code else ''invalid-input'') None
      | Escaped n \<Rightarrow> Inl (Escaped n))"

definition require_session :: "session_store \<Rightarrow> string \<Rightarrow> session option" where
  "require_session st sid = (if sid = '''' then None else dget (st_sessions st) sid)"

definition unknown_session :: "session_store \<Rightarrow> store_outcome" where
  "unknown_session st = failed st ''unknown-session'' None"

definition history :: "session_store \<Rightarrow> string \<Rightarrow> session_event list" where
  "history st sid = dgetd (st_events st) sid []"

definition commit_events :: "session_store \<Rightarrow> session \<Rightarrow> session_event list \<Rightarrow> string \<Rightarrow> store_outcome" where
  "commit_events st s events code =
     (if events = [] then Inl (SessionError ''invalid-input'')
      else Inr (\<lparr>sr_ok = True, sr_code = code, sr_session = Some s, sr_event = Some (last events)\<rparr>,
        st\<lparr>st_sessions := dset (st_sessions st) (ss_session_id s) s,
           st_events := dset (st_events st) (ss_session_id s) (history st (ss_session_id s) @ events)\<rparr>))"

definition advanced :: "session \<Rightarrow> string \<Rightarrow> int \<Rightarrow> string \<Rightarrow> (string \<times> string \<times> string) option \<Rightarrow> session" where
  \<comment> \<open>the fields \<open>replace\<close> is given after an event, with or without a new route\<close>
  "advanced s new_state sequence instant route =
     (let s' = s\<lparr>ss_state := new_state, ss_last_sequence := sequence, ss_last_instant := instant\<rparr> in
      case route of
        None \<Rightarrow> s'
      | Some (rid, pid, expires) \<Rightarrow>
          s'\<lparr>ss_route_decision_id := rid, ss_path_id := pid, ss_path_expires_at := expires\<rparr>)"

record annotations =
  an_actor :: string
  an_reason :: string
  an_metadata :: "(string \<times> string) list"
  an_extensions :: "string jval list"

definition next_event ::
  "session \<Rightarrow> int \<Rightarrow> string \<Rightarrow> string \<Rightarrow> string \<Rightarrow> string \<Rightarrow> annotations \<Rightarrow> session_event" where
  "next_event s sequence previous_state new_state event_type instant an =
     \<lparr>ev_event_id = '''', ev_session_id = ss_session_id s, ev_sequence = sequence,
      ev_previous_state = previous_state, ev_new_state = new_state, ev_event_type = event_type, ev_instant = instant,
      ev_actor = an_actor an, ev_reason = an_reason an, ev_metadata = an_metadata an,
      ev_extensions = an_extensions an\<rparr>"

definition apply_transition ::
  "(bytes \<Rightarrow> string) \<Rightarrow> session_store \<Rightarrow> session \<Rightarrow> string \<Rightarrow> string \<Rightarrow> string \<Rightarrow> annotations \<Rightarrow> string \<Rightarrow>
   (string \<times> string \<times> string) option \<Rightarrow> store_outcome" where
  \<comment> \<open>an error of the event's constructor is answered, one of the session's escapes\<close>
  "apply_transition sha256_hex st s new_state event_type instant an code route =
     (let sequence = ss_last_sequence s + 1 in
      case make_event sha256_hex (next_event s sequence (ss_state s) new_state event_type instant an) of
        Inl e \<Rightarrow> envelope_error st e
      | Inr ev \<Rightarrow>
          bindE (make_session sha256_hex (advanced s new_state sequence (ev_instant ev) route)) (\<lambda>updated.
            commit_events st updated [ev] code))"

section \<open>Operations\<close>

definition create_session ::
  "(bytes \<Rightarrow> string) \<Rightarrow> session_store \<Rightarrow> route_decision \<Rightarrow> policy_decision \<Rightarrow> string \<Rightarrow> string \<Rightarrow> string \<Rightarrow> string \<Rightarrow>
   annotations \<Rightarrow> store_outcome" where
  \<comment> \<open>\<open>SessionStore.create\<close>; the event takes no metadata, and the extensions go to the session\<close>
  "create_session sha256_hex st rd pd src dst instant intent_digest an =
     (case verify_route_for_creation sha256_hex rd pd src dst intent_digest instant of
        Inl e \<Rightarrow> envelope_error st e
      | Inr b \<Rightarrow>
         (case make_session sha256_hex
                 \<lparr>ss_session_id = '''', ss_binding = b, ss_state = ''REQUESTED'', ss_creation_instant = instant,
                  ss_route_decision_id = '''', ss_path_id = '''', ss_path_expires_at = '''',
                  ss_last_sequence = 0, ss_last_instant = '''', ss_extensions = an_extensions an\<rparr> of
            Inl e \<Rightarrow> envelope_error st e
          | Inr probe \<Rightarrow>
             (case dget (st_sessions st) (ss_session_id probe) of
                Some existing \<Rightarrow>
                  if ss_binding existing = b \<and> ss_creation_instant existing = instant
                  then Inr (\<lparr>sr_ok = True, sr_code = ''created'', sr_session = Some existing, sr_event = None\<rparr>, st)
                  else failed st ''session-exists'' (Some existing)
              | None \<Rightarrow>
                 (case bindE (make_event sha256_hex (next_event probe 1 '''' ''REQUESTED'' ''created'' instant
                               (an\<lparr>an_metadata := [], an_extensions := []\<rparr>))) (\<lambda>event.
                       bindE (make_session sha256_hex (probe\<lparr>ss_last_sequence := 1, ss_last_instant := ev_instant event\<rparr>))
                         (\<lambda>s. Inr (event, s))) of
                    Inl e \<Rightarrow> envelope_error st e
                  | Inr (event, s) \<Rightarrow>
                      Inr (\<lparr>sr_ok = True, sr_code = ''created'', sr_session = Some s, sr_event = Some event\<rparr>,
                        st\<lparr>st_sessions := dset (st_sessions st) (ss_session_id probe) s,
                           st_events := dset (st_events st) (ss_session_id probe) [event]\<rparr>)))))"

definition transition_session ::
  "(bytes \<Rightarrow> string) \<Rightarrow> session_store \<Rightarrow> string \<Rightarrow> string \<Rightarrow> string \<Rightarrow> annotations \<Rightarrow> store_outcome" where
  "transition_session sha256_hex st sid new_state instant an =
     (case require_session st sid of
        None \<Rightarrow> unknown_session st
      | Some s \<Rightarrow>
          if new_state \<notin> set session_states then failed st ''invalid-input'' None
          else if ss_state s \<in> set terminal_states then failed st ''terminal-state'' (Some s)
          else if new_state = ''SUSPENDED'' then failed st ''illegal-transition'' (Some s)
          else if \<not> transition_is_legal (ss_state s) new_state then failed st ''illegal-transition'' (Some s)
          else (case parse_instant instant of
              None \<Rightarrow> failed st ''invalid-input'' None
            | Some now \<Rightarrow>
               (let proceed = apply_transition sha256_hex st s new_state (ascii_lower new_state) instant an ''transitioned'' None in
                if new_state = ''ESTABLISHED''
                then (case parse_instant (ss_path_expires_at s) of
                        None \<Rightarrow> failed st ''invalid-input'' None
                      | Some expires \<Rightarrow> if expires < now then failed st ''route-expired'' (Some s) else proceed)
                else proceed)))"

definition suspend_session ::
  "(bytes \<Rightarrow> string) \<Rightarrow> session_store \<Rightarrow> string \<Rightarrow> string \<Rightarrow> annotations \<Rightarrow> store_outcome" where
  "suspend_session sha256_hex st sid instant an =
     (case require_session st sid of
        None \<Rightarrow> unknown_session st
      | Some s \<Rightarrow>
          if ss_state s \<in> set terminal_states then failed st ''terminal-state'' (Some s)
          else if ss_state s \<notin> set SUSPEND_SOURCES then failed st ''illegal-transition'' (Some s)
          else apply_transition sha256_hex st s ''SUSPENDED'' ''suspended'' instant an ''suspended'' None)"

definition route_metadata :: "session \<Rightarrow> string \<times> string \<times> string \<Rightarrow> (string \<times> string) list" where
  "route_metadata s r =
     (case r of (rid, pid, expires) \<Rightarrow>
       [(''old_route_decision_id'', ss_route_decision_id s), (''new_route_decision_id'', rid),
        (''old_path_id'', ss_path_id s), (''new_path_id'', pid), (''new_path_expires_at'', expires)])"

definition reconnect_session ::
  "(bytes \<Rightarrow> string) \<Rightarrow> session_store \<Rightarrow> string \<Rightarrow> route_decision \<Rightarrow> string \<Rightarrow> policy_decision option \<Rightarrow> annotations \<Rightarrow>
   store_outcome" where
  "reconnect_session sha256_hex st sid rd instant pd an =
     (case require_session st sid of
        None \<Rightarrow> unknown_session st
      | Some s \<Rightarrow>
          if ss_state s \<noteq> ''RECONNECTING'' then failed st ''not-reconnecting'' (Some s)
          else (case verify_route_for_reconnect sha256_hex (ss_binding s) rd instant pd of
              Inl e \<Rightarrow> envelope_error st e
            | Inr r \<Rightarrow>
                apply_transition sha256_hex st s ''ESTABLISHED'' ''reconnected'' instant
                  (an\<lparr>an_metadata := route_metadata s r\<rparr>) ''reconnected'' (Some r)))"

definition terminate_session ::
  "(bytes \<Rightarrow> string) \<Rightarrow> session_store \<Rightarrow> string \<Rightarrow> string \<Rightarrow> annotations \<Rightarrow> store_outcome" where
  \<comment> \<open>its events take no metadata\<close>
  "terminate_session sha256_hex st sid instant an0 =
     (case require_session st sid of
        None \<Rightarrow> unknown_session st
      | Some s \<Rightarrow>
         (let an = an0\<lparr>an_metadata := []\<rparr> in
          if parse_instant instant = None then failed st ''invalid-input'' None
          else if ss_state s = ''TERMINATED''
          then Inr (\<lparr>sr_ok = True, sr_code = ''already-terminated'', sr_session = Some s, sr_event = None\<rparr>, st)
          else if ss_state s = ''FAILED'' then failed st ''terminal-state'' (Some s)
          else if ss_state s = ''TERMINATING''
          then apply_transition sha256_hex st s ''TERMINATED'' ''terminated'' instant an ''terminated'' None
          else if ss_state s \<notin> set TERMINATABLE_STATES then failed st ''illegal-transition'' (Some s)
          else
           (let sequence = ss_last_sequence s + 1 in
            case bindE (make_event sha256_hex (next_event s sequence (ss_state s) ''TERMINATING'' ''terminating'' instant an)) (\<lambda>ev1.
                 bindE (make_session sha256_hex (advanced s ''TERMINATING'' sequence instant None)) (\<lambda>intermediate.
                 bindE (make_event sha256_hex
                          (next_event s (sequence + 1) ''TERMINATING'' ''TERMINATED'' ''terminated'' instant an)) (\<lambda>ev2.
                 bindE (make_session sha256_hex (advanced intermediate ''TERMINATED'' (sequence + 1) instant None)) (\<lambda>final.
                   Inr (final, [ev1, ev2]))))) of
              Inl e \<Rightarrow> envelope_error st e
            | Inr (final, events) \<Rightarrow> commit_events st final events ''terminated'')))"

definition check_sequence :: "session_event list \<Rightarrow> session_event \<Rightarrow> string option" where
  \<comment> \<open>the code an event out of sequence is refused with\<close>
  "check_sequence hist ev =
     (if hist = [] then (if ev_sequence ev \<noteq> 1 then Some ''sequence-gap'' else None)
      else if ev_sequence ev \<le> ev_sequence (last hist) then Some ''sequence-conflict''
      else if ev_sequence ev \<noteq> ev_sequence (last hist) + 1 then Some ''sequence-gap''
      else None)"

definition binds_route :: "session \<Rightarrow> session_event \<Rightarrow> string \<times> string \<times> string \<Rightarrow> bool" where
  \<comment> \<open>no entry is added to \<open>binding_problems\<close>; the keys of an event's metadata are distinct\<close>
  "binds_route s ev r \<longleftrightarrow> (\<forall>kv \<in> set (route_metadata s r). dget (ev_metadata ev) (fst kv) = Some (snd kv))"

definition append_event ::
  "(bytes \<Rightarrow> string) \<Rightarrow> session_store \<Rightarrow> string \<Rightarrow> session_event \<Rightarrow> route_decision option \<Rightarrow> policy_decision option \<Rightarrow>
   store_outcome" where
  "append_event sha256_hex st sid ev rd pd =
     (case require_session st sid of
        None \<Rightarrow> unknown_session st
      | Some s \<Rightarrow>
          if ev_session_id ev \<noteq> sid then failed st ''invalid-input'' None
          else if ev_event_id ev \<in> set (map ev_event_id (history st sid))
          then Inr (\<lparr>sr_ok = True, sr_code = ''replayed'', sr_session = Some s, sr_event = Some ev\<rparr>, st)
          else (case check_sequence (history st sid) ev of
              Some code \<Rightarrow> failed st code (Some s)
            | None \<Rightarrow>
                if ev_previous_state ev \<noteq> ss_state s then failed st ''event-state-mismatch'' (Some s)
                else if \<not> transition_is_legal (ev_previous_state ev) (ev_new_state ev)
                then failed st ''illegal-transition'' (Some s)
                else
                 (let apply_update = (\<lambda>route.
                    bindE (make_session sha256_hex
                            (advanced s (ev_new_state ev) (ev_sequence ev) (ev_instant ev) route)) (\<lambda>updated.
                      commit_events st updated [ev] ''transitioned'')) in
                  if ev_event_type ev = ''reconnected''
                  then (case rd of
                      None \<Rightarrow> failed st ''reconnect-validation-required'' (Some s)
                    | Some d \<Rightarrow>
                        if ev_previous_state ev \<noteq> ''RECONNECTING'' \<or> ev_new_state ev \<noteq> ''ESTABLISHED''
                        then failed st ''event-binding-mismatch'' (Some s)
                        else (case verify_route_for_reconnect sha256_hex (ss_binding s) d (ev_instant ev) pd of
                            Inl e \<Rightarrow> envelope_error st e
                          | Inr r \<Rightarrow>
                              if binds_route s ev r then apply_update (Some r)
                              else failed st ''event-binding-mismatch'' (Some s)))
                  else if rd \<noteq> None then failed st ''invalid-input'' (Some s)
                  else apply_update None)))"

definition append_state_preserving_event ::
  "(bytes \<Rightarrow> string) \<Rightarrow> py_code \<Rightarrow> session_store \<Rightarrow> session_event \<Rightarrow> store_outcome" where
  "append_state_preserving_event sha256_hex frame st ev =
     (if frame \<notin> set (st_trusted st) then failed st ''extension-authority-required'' None
      else (case require_session st (ev_session_id ev) of
          None \<Rightarrow> unknown_session st
        | Some s \<Rightarrow>
            if ev_event_id ev \<in> set (map ev_event_id (history st (ev_session_id ev)))
            then Inr (\<lparr>sr_ok = True, sr_code = ''replayed'', sr_session = Some s, sr_event = Some ev\<rparr>, st)
            else (case check_sequence (history st (ev_session_id ev)) ev of
                Some code \<Rightarrow> failed st code (Some s)
              | None \<Rightarrow>
                  if ss_state s \<in> set terminal_states then failed st ''terminal-state'' (Some s)
                  else if ev_previous_state ev \<noteq> ss_state s \<or> ev_new_state ev \<noteq> ss_state s
                  then failed st ''event-state-mismatch'' (Some s)
                  else bindE (make_session sha256_hex
                         (s\<lparr>ss_last_sequence := ev_sequence ev, ss_last_instant := ev_instant ev\<rparr>)) (\<lambda>updated.
                    commit_events st updated [ev] ''event-appended''))))"

section \<open>Queries\<close>

definition get_session :: "session_store \<Rightarrow> string \<Rightarrow> session option" where
  "get_session st sid = dget (st_sessions st) sid"

definition session_count :: "session_store \<Rightarrow> nat" where
  "session_count st = length (st_sessions st)"

definition session_snapshot :: "session_store \<Rightarrow> string jval" where
  "session_snapshot st = JObj
     [(''sessions'', JArr (map (\<lambda>kv. session_to_dict (snd kv)) (sort_key fst (st_sessions st)))),
      (''events'', JArr (map (\<lambda>kv. JArr [JStr (fst kv), JArr (map event_to_dict (snd kv))]) (sort_key fst (st_events st))))]"

definition session_store_bytes :: "session_store \<Rightarrow> canon_error + bytes" where
  "session_store_bytes st = canonical_bytes (session_snapshot st)"

end
