(* ===== verification/Session_Log.thy ===== *)
theory Session_Log
  imports Session_Store
begin

text \<open>
  What the store is meant to be: a machine that only ever opens a session with one event or
  appends one event to the history of a session, in sequence and along an edge of the
  table, the session being the result of applying its history.  The operations of the code
  are refined to steps of this machine, so its invariant and its relations between earlier
  and later stores hold of every run of the code.
\<close>

declare split_paired_All [simp del] split_paired_Ex [simp del]

section \<open>Constructed sessions and events\<close>

definition session_facts :: "(bytes \<Rightarrow> string) \<Rightarrow> session \<Rightarrow> bool" where
  \<comment> \<open>what the constructor has checked of a session\<close>
  "session_facts sha256_hex s \<longleftrightarrow>
     ss_state s \<in> set session_states \<and> parse_instant (ss_creation_instant s) \<noteq> None \<and>
     ss_route_decision_id s \<noteq> '''' \<and> ss_path_id s \<noteq> '''' \<and> ss_path_expires_at s \<noteq> '''' \<and> 0 \<le> ss_last_sequence s \<and>
     (ss_last_instant s = '''' \<or> parse_instant (ss_last_instant s) \<noteq> None) \<and>
     check_each check_extension (ss_extensions s) = Inr () \<and>
     derive_session_id sha256_hex (ss_binding s) (ss_creation_instant s) = Inr (ss_session_id s)"

definition filled :: "session \<Rightarrow> string \<Rightarrow> session" where
  \<comment> \<open>the constructor's defaults\<close>
  "filled s sid = s\<lparr>ss_session_id := sid,
     ss_route_decision_id := or_default (ss_route_decision_id s) (sb_route_decision_id (ss_binding s)),
     ss_path_id := or_default (ss_path_id s) (sb_path_id (ss_binding s)),
     ss_path_expires_at := or_default (ss_path_expires_at s) (sb_path_expires_at (ss_binding s))\<rparr>"

lemma make_session_iff:
  "make_session H s0 = Inr s \<longleftrightarrow>
     s = filled s0 (ss_session_id s) \<and> session_facts H s \<and> (ss_session_id s0 = '''' \<or> ss_session_id s0 = ss_session_id s)"
proof
  assume "make_session H s0 = Inr s"
  then show "s = filled s0 (ss_session_id s) \<and> session_facts H s \<and>
      (ss_session_id s0 = '''' \<or> ss_session_id s0 = ss_session_id s)"
    by (auto simp: make_session_def Let_def bindE_eq_Inr_iff filled_def session_facts_def not_less split: if_splits)
next
  assume *: "s = filled s0 (ss_session_id s) \<and> session_facts H s \<and>
      (ss_session_id s0 = '''' \<or> ss_session_id s0 = ss_session_id s)"
  define i where "i = ss_session_id s"
  have s: "s = filled s0 i" and f: "session_facts H (filled s0 i)" and d: "ss_session_id s0 = '''' \<or> ss_session_id s0 = i"
    using * unfolding i_def by auto
  show "make_session H s0 = Inr s"
    using f d unfolding s
    by (auto simp: make_session_def Let_def filled_def session_facts_def not_less)
qed

lemma make_session_facts: "make_session H s0 = Inr s \<Longrightarrow> session_facts H s"
  by (simp add: make_session_iff)

lemma session_facts_make: "session_facts H s \<Longrightarrow> make_session H s = Inr s"
  by (simp add: make_session_iff) (simp add: filled_def session_facts_def or_default_def)

lemma advanced_fields [simp]:
  "ss_session_id (advanced s n q i r) = ss_session_id s" "ss_binding (advanced s n q i r) = ss_binding s"
  "ss_state (advanced s n q i r) = n" "ss_creation_instant (advanced s n q i r) = ss_creation_instant s"
  "ss_last_sequence (advanced s n q i r) = q" "ss_last_instant (advanced s n q i r) = i"
  "ss_extensions (advanced s n q i r) = ss_extensions s"
  by (simp_all add: advanced_def Let_def split: option.splits prod.splits)

definition route_of :: "session \<Rightarrow> string \<times> string \<times> string" where
  "route_of s = (ss_route_decision_id s, ss_path_id s, ss_path_expires_at s)"

lemma route_of_advanced [simp]: "route_of (advanced s n q i r) = (case r of None \<Rightarrow> route_of s | Some x \<Rightarrow> x)"
  by (simp add: advanced_def Let_def route_of_def split: option.splits prod.splits)

definition full_route :: "string \<times> string \<times> string \<Rightarrow> bool" where
  "full_route r \<longleftrightarrow> fst r \<noteq> '''' \<and> fst (snd r) \<noteq> '''' \<and> snd (snd r) \<noteq> ''''"

lemma advanced_made:
  assumes "session_facts H s" "n \<in> set session_states" "0 \<le> q" "parse_instant i \<noteq> None"
    "\<And>x. r = Some x \<Longrightarrow> full_route x"
  shows "make_session H (advanced s n q i r) = Inr (advanced s n q i r)" "session_facts H (advanced s n q i r)"
proof -
  have "full_route (route_of (advanced s n q i r))"
    unfolding route_of_advanced using assms(1,5)
    by (cases r) (simp_all add: full_route_def route_of_def session_facts_def)
  then show "session_facts H (advanced s n q i r)"
    using assms(1-4) by (simp add: session_facts_def route_of_def full_route_def)
  then show "make_session H (advanced s n q i r) = Inr (advanced s n q i r)" by (rule session_facts_make)
qed

lemma make_event_iff:
  "make_event H e0 = Inr e \<longleftrightarrow>
     e = e0\<lparr>ev_event_id := ev_event_id e\<rparr> \<and> (ev_event_id e0 = '''' \<or> ev_event_id e0 = ev_event_id e) \<and>
     ev_session_id e \<noteq> '''' \<and> 1 \<le> ev_sequence e \<and>
     (ev_previous_state e = '''' \<or> ev_previous_state e \<in> set session_states) \<and> ev_new_state e \<in> set session_states \<and>
     ev_event_type e \<noteq> '''' \<and> parse_instant (ev_instant e) \<noteq> None \<and>
     validate_free_text (ev_actor e) = Inr () \<and> validate_free_text (ev_reason e) = Inr () \<and>
     check_metadata [] (ev_metadata e) = Inr () \<and> check_each check_extension (ev_extensions e) = Inr () \<and>
     derive_event_id H e = Inr (ev_event_id e)"
proof -
  have c: "event_content (e0\<lparr>ev_event_id := i\<rparr>) = event_content e0" for i by (simp add: event_content_def)
  have d: "derive_event_id H (e0\<lparr>ev_event_id := i\<rparr>) = derive_event_id H e0" for i
    by (simp add: derive_event_id_def c)
  show ?thesis (is "?L \<longleftrightarrow> ?R")
  proof
    assume ?L
    then have n: "ev_session_id e0 \<noteq> ''''" "1 \<le> ev_sequence e0"
      "ev_previous_state e0 = '''' \<or> ev_previous_state e0 \<in> set session_states" "ev_new_state e0 \<in> set session_states"
      "ev_event_type e0 \<noteq> ''''" "parse_instant (ev_instant e0) \<noteq> None"
      "validate_free_text (ev_actor e0) = Inr ()" "validate_free_text (ev_reason e0) = Inr ()"
      "check_metadata [] (ev_metadata e0) = Inr ()" "check_each check_extension (ev_extensions e0) = Inr ()"
      by (auto simp: make_event_def bindE_eq_Inr_iff not_less)
    from \<open>?L\<close> obtain i where i: "derive_event_id H e0 = Inr i" "e = e0\<lparr>ev_event_id := i\<rparr>"
      "ev_event_id e0 = '''' \<or> ev_event_id e0 = i"
      by (auto simp: make_event_def bindE_eq_Inr_iff split: if_splits)
    show ?R using n i(1,3) d unfolding i(2) by simp
  next
    assume R: ?R
    define i where "i = ev_event_id e"
    have e: "e = e0\<lparr>ev_event_id := i\<rparr>" using R unfolding i_def by blast
    show ?L using R unfolding e by (auto simp: make_event_def d)
  qed
qed

definition event_facts :: "(bytes \<Rightarrow> string) \<Rightarrow> session_event \<Rightarrow> bool" where
  \<comment> \<open>an event object exists only if its constructor accepted it\<close>
  "event_facts sha256_hex e \<longleftrightarrow> make_event sha256_hex e = Inr e"

lemma make_event_facts: "make_event H e0 = Inr e \<Longrightarrow> event_facts H e"
  unfolding event_facts_def make_event_iff by simp

lemma event_factsD:
  assumes "event_facts H e"
  shows "ev_session_id e \<noteq> ''''" "1 \<le> ev_sequence e" "ev_new_state e \<in> set session_states"
    "parse_instant (ev_instant e) \<noteq> None" "derive_event_id H e = Inr (ev_event_id e)"
  using assms by (simp_all add: event_facts_def make_event_iff)

lemma make_event_fields:
  assumes "make_event H e0 = Inr e"
  shows "ev_session_id e = ev_session_id e0" "ev_sequence e = ev_sequence e0"
    "ev_previous_state e = ev_previous_state e0" "ev_new_state e = ev_new_state e0"
    "ev_event_type e = ev_event_type e0" "ev_instant e = ev_instant e0" "ev_metadata e = ev_metadata e0"
proof -
  from assms have "e = e0\<lparr>ev_event_id := ev_event_id e\<rparr>" by (simp add: make_event_iff)
  then show "ev_session_id e = ev_session_id e0" "ev_sequence e = ev_sequence e0"
    "ev_previous_state e = ev_previous_state e0" "ev_new_state e = ev_new_state e0"
    "ev_event_type e = ev_event_type e0" "ev_instant e = ev_instant e0" "ev_metadata e = ev_metadata e0"
    by (metis session_event.select_convs session_event.simps session_event.surjective session_event.update_convs(1))+
qed


section \<open>Refinement of machines\<close>

locale machine_refinement =
  fixes cstep :: "'s \<Rightarrow> 's \<Rightarrow> bool" and astep :: "'s \<Rightarrow> 's \<Rightarrow> bool" and inv :: "'s \<Rightarrow> bool"
  assumes simulated: "inv s \<Longrightarrow> cstep s t \<Longrightarrow> astep\<^sup>*\<^sup>* s t"
    and kept: "inv s \<Longrightarrow> astep s t \<Longrightarrow> inv t"
begin

lemma astep_run_kept: "astep\<^sup>*\<^sup>* s t \<Longrightarrow> inv s \<Longrightarrow> inv t"
  by (induction rule: rtranclp_induct) (auto intro: kept)

lemma run_simulated: "cstep\<^sup>*\<^sup>* s t \<Longrightarrow> inv s \<Longrightarrow> astep\<^sup>*\<^sup>* s t"
proof (induction rule: rtranclp_induct)
  case (step t u)
  then have "inv t" by (blast intro: astep_run_kept)
  then show ?case using step simulated by (blast intro: rtranclp_trans)
qed simp

lemma run_kept: "cstep\<^sup>*\<^sup>* s t \<Longrightarrow> inv s \<Longrightarrow> inv t"
  by (blast intro: astep_run_kept run_simulated)

lemma run_relates:
  assumes "cstep\<^sup>*\<^sup>* s t" "inv s" "\<And>s. P s s" "\<And>s t u. P s t \<Longrightarrow> P t u \<Longrightarrow> P s u"
    and "\<And>s t. inv s \<Longrightarrow> astep s t \<Longrightarrow> P s t"
  shows "P s t"
proof -
  from assms(1,2) have "astep\<^sup>*\<^sup>* s t" by (rule run_simulated)
  then show ?thesis using assms(2)
  proof (induction rule: rtranclp_induct)
    case (step t u)
    then have "inv t" by (blast intro: astep_run_kept)
    then show ?case using step assms(4,5) by blast
  qed (rule assms(3))
qed

end

section \<open>The log machine\<close>

definition is_reconnect :: "session_event \<Rightarrow> bool" where
  "is_reconnect ev \<longleftrightarrow> ev_event_type ev = ''reconnected'' \<and> ev_previous_state ev = ''RECONNECTING'' \<and>
     ev_new_state ev = ''ESTABLISHED''"

definition recorded_route :: "session_event \<Rightarrow> string \<times> string \<times> string" where
  "recorded_route ev =
     (dgetd (ev_metadata ev) ''new_route_decision_id'' '''', dgetd (ev_metadata ev) ''new_path_id'' '''',
      dgetd (ev_metadata ev) ''new_path_expires_at'' '''')"

definition apply_event :: "session \<Rightarrow> session_event \<Rightarrow> session" where
  \<comment> \<open>what an event says of the session\<close>
  "apply_event s ev =
     advanced s (ev_new_state ev) (ev_sequence ev) (ev_instant ev) (if is_reconnect ev then Some (recorded_route ev) else None)"

definition opened :: "session \<Rightarrow> session" where
  \<comment> \<open>a session before its first event: its identity and extensions, the creation route\<close>
  "opened s =
     \<lparr>ss_session_id = ss_session_id s, ss_binding = ss_binding s, ss_state = ''REQUESTED'',
      ss_creation_instant = ss_creation_instant s, ss_route_decision_id = sb_route_decision_id (ss_binding s),
      ss_path_id = sb_path_id (ss_binding s), ss_path_expires_at = sb_path_expires_at (ss_binding s),
      ss_last_sequence = 0, ss_last_instant = '''', ss_extensions = ss_extensions s\<rparr>"

definition edge_ok :: "string \<Rightarrow> string \<Rightarrow> bool" where
  \<comment> \<open>an edge of the table, or an extension event that keeps a state that is not final\<close>
  "edge_ok p n \<longleftrightarrow> transition_is_legal p n \<or> (n = p \<and> p \<noteq> '''' \<and> p \<notin> set terminal_states)"

fun chained :: "string \<Rightarrow> session_event list \<Rightarrow> bool" where
  "chained p [] \<longleftrightarrow> True"
| "chained p (ev # evs) \<longleftrightarrow> ev_previous_state ev = p \<and> edge_ok p (ev_new_state ev) \<and> chained (ev_new_state ev) evs"

definition recorded :: "session_store \<Rightarrow> session \<Rightarrow> session_event list \<Rightarrow> session_store" where
  "recorded st s evs =
     st\<lparr>st_sessions := dset (st_sessions st) (ss_session_id s) s,
        st_events := dset (st_events st) (ss_session_id s) (history st (ss_session_id s) @ evs)\<rparr>"

definition follows :: "session \<Rightarrow> session_event \<Rightarrow> bool" where
  "follows s ev \<longleftrightarrow> ev_session_id ev = ss_session_id s \<and> ev_sequence ev = ss_last_sequence s + 1 \<and>
     ev_previous_state ev = ss_state s \<and> edge_ok (ss_state s) (ev_new_state ev)"

definition route_justified ::
  "(bytes \<Rightarrow> string) \<Rightarrow> route_decision list \<Rightarrow> session \<Rightarrow> session_event \<Rightarrow> bool" where
  \<comment> \<open>an event that changes the route records one of the given decisions, which is intact and
     for the session's nodes\<close>
  "route_justified sha256_hex rds s ev \<longleftrightarrow> (is_reconnect ev \<longrightarrow>
     (\<exists>rd p. rd \<in> set rds \<and> rd_decision_id rd \<noteq> '''' \<and> reconnect_facts sha256_hex (ss_binding s) rd (ev_instant ev) p \<and>
       recorded_route ev = (rd_decision_id rd, pa_path_id p, me_expires_at (pa_metrics p))))"

inductive log_step :: "(bytes \<Rightarrow> string) \<Rightarrow> session_store \<Rightarrow> session_store \<Rightarrow> bool" for H where
  log_open: "dget (st_sessions st) (ss_session_id s) = None \<Longrightarrow> session_facts H s \<Longrightarrow>
    make_binding (ss_binding s) = Inr (ss_binding s) \<Longrightarrow> event_facts H ev \<Longrightarrow> s = apply_event (opened s) ev \<Longrightarrow>
    ev_session_id ev = ss_session_id s \<Longrightarrow> ev_sequence ev = 1 \<Longrightarrow> ev_previous_state ev = '''' \<Longrightarrow>
    ev_new_state ev = ''REQUESTED'' \<Longrightarrow> log_step H st (recorded st s [ev])"
| log_append: "dget (st_sessions st) (ss_session_id s) = Some s \<Longrightarrow> event_facts H ev \<Longrightarrow> follows s ev \<Longrightarrow>
    route_justified H rds s ev \<Longrightarrow> log_step H st (recorded st (apply_event s ev) [ev])"
| log_trust: "log_step H st (st\<lparr>st_trusted := ts\<rparr>)"

definition log_of :: "(bytes \<Rightarrow> string) \<Rightarrow> session \<Rightarrow> session_event list \<Rightarrow> bool" where
  "log_of sha256_hex s hist \<longleftrightarrow>
     hist \<noteq> [] \<and> list_all (\<lambda>ev. event_facts sha256_hex ev \<and> ev_session_id ev = ss_session_id s) hist \<and>
     map ev_sequence hist = map int [1..<Suc (length hist)] \<and> chained '''' hist \<and>
     s = foldl apply_event (opened s) hist"

definition session_ok :: "(bytes \<Rightarrow> string) \<Rightarrow> session \<Rightarrow> bool" where
  "session_ok sha256_hex s \<longleftrightarrow> session_facts sha256_hex s \<and> make_binding (ss_binding s) = Inr (ss_binding s) \<and>
     parse_instant (ss_path_expires_at s) \<noteq> None"

definition sessions_ok :: "(bytes \<Rightarrow> string) \<Rightarrow> session_store \<Rightarrow> bool" where
  "sessions_ok sha256_hex st \<longleftrightarrow>
     dict_wf (st_sessions st) \<and> dict_wf (st_events st) \<and>
     (\<forall>sid. dget (st_sessions st) sid = None \<longleftrightarrow> dget (st_events st) sid = None) \<and>
     (\<forall>sid s. dget (st_sessions st) sid = Some s \<longrightarrow>
        ss_session_id s = sid \<and> session_ok sha256_hex s \<and> log_of sha256_hex s (history st sid))"

lemma sessions_okD:
  assumes "sessions_ok H st" "dget (st_sessions st) sid = Some s"
  shows "ss_session_id s = sid" "session_ok H s" "log_of H s (history st sid)" "session_facts H s"
  using assms by (auto simp: sessions_ok_def session_ok_def)

lemma sessions_ok_empty: "sessions_ok H empty_session_store"
  by (simp add: sessions_ok_def empty_session_store_def)

lemma foldl_apply_fields:
  "ss_session_id (foldl apply_event s evs) = ss_session_id s" "ss_binding (foldl apply_event s evs) = ss_binding s"
  "ss_creation_instant (foldl apply_event s evs) = ss_creation_instant s"
  "ss_extensions (foldl apply_event s evs) = ss_extensions s"
  by (induction evs arbitrary: s) (simp_all add: apply_event_def)

lemma apply_event_fields [simp]:
  "ss_session_id (apply_event s ev) = ss_session_id s" "ss_binding (apply_event s ev) = ss_binding s"
  "ss_creation_instant (apply_event s ev) = ss_creation_instant s"
  "ss_extensions (apply_event s ev) = ss_extensions s" "ss_state (apply_event s ev) = ev_new_state ev"
  "ss_last_sequence (apply_event s ev) = ev_sequence ev" "ss_last_instant (apply_event s ev) = ev_instant ev"
  by (simp_all add: apply_event_def)

lemma opening_apply [simp]: "opened (apply_event s ev) = opened s"
  by (simp add: opened_def)

lemma chained_snoc: "chained p (evs @ [ev]) \<longleftrightarrow> chained p evs \<and>
   ev_previous_state ev = (if evs = [] then p else ev_new_state (last evs)) \<and> edge_ok (ev_previous_state ev) (ev_new_state ev)"
  by (induction evs arbitrary: p) auto

lemma log_of_head:
  assumes "log_of H s hist"
  shows "ss_last_sequence s = int (length hist)" "ss_state s = ev_new_state (last hist)"
    "ss_last_instant s = ev_instant (last hist)" "ev_sequence (last hist) = int (length hist)"
proof -
  from assms have "hist \<noteq> []" and s: "s = foldl apply_event (opened s) hist"
    and seq: "map ev_sequence hist = map int [1..<Suc (length hist)]" by (simp_all add: log_of_def)
  then have s': "s = apply_event (foldl apply_event (opened s) (butlast hist)) (last hist)"
    by (metis append_butlast_last_id foldl.simps foldl_append)
  then show "ss_state s = ev_new_state (last hist)" "ss_last_instant s = ev_instant (last hist)"
    by (metis apply_event_fields(5-7))+
  have l: "ss_last_sequence s = ev_sequence (last hist)" using s' by (metis apply_event_fields(6))
  have "ev_sequence (last hist) = last (map ev_sequence hist)" using \<open>hist \<noteq> []\<close> by (simp add: last_map)
  also have "\<dots> = int (length hist)" using \<open>hist \<noteq> []\<close> by (simp add: seq Suc_le_eq)
  finally show "ev_sequence (last hist) = int (length hist)" .
  then show "ss_last_sequence s = int (length hist)" using l by simp
qed

lemma log_of_snoc:
  assumes "log_of H s hist" "event_facts H ev" "follows s ev"
  shows "log_of H (apply_event s ev) (hist @ [ev])"
proof -
  note h = log_of_head [OF assms(1)]
  from assms(1) have f: "foldl apply_event (opened s) hist = s" by (simp add: log_of_def)
  have "ev_sequence ev = int (Suc (length hist))" using assms(3) h by (simp add: follows_def)
  then have "map ev_sequence (hist @ [ev]) = map int [1..<Suc (length (hist @ [ev]))]"
    using assms(1) by (simp add: log_of_def)
  then show ?thesis using assms h by (simp add: log_of_def chained_snoc follows_def f)
qed

lemma parse_instant_Nil: "parse_instant [] = None"
  by (simp add: parse_instant_def matches_template_def instant_template_def)

lemma route_justified_full:
  assumes "route_justified H rds s ev" "is_reconnect ev"
  shows "full_route (recorded_route ev)" "parse_instant (snd (snd (recorded_route ev))) \<noteq> None"
proof -
  from assms obtain rd p where p: "rd_decision_id rd \<noteq> ''''" "reconnect_facts H (ss_binding s) rd (ev_instant ev) p"
    "recorded_route ev = (rd_decision_id rd, pa_path_id p, me_expires_at (pa_metrics p))"
    by (auto simp: route_justified_def)
  then have e: "parse_instant (me_expires_at (pa_metrics p)) \<noteq> None" by (auto simp: reconnect_facts_def live_at_def)
  have "pa_path_id p \<noteq> ''''"
    using p(2) by (auto simp: reconnect_facts_def intact_route_def derive_path_id_def split: sum.splits)
  moreover have "me_expires_at (pa_metrics p) \<noteq> ''''" using e by (auto simp: parse_instant_Nil)
  ultimately show "full_route (recorded_route ev)" "parse_instant (snd (snd (recorded_route ev))) \<noteq> None"
    using p(1,3) e by (simp_all add: full_route_def)
qed

lemma session_ok_apply:
  assumes "session_ok H s" "event_facts H ev" "route_justified H rds s ev"
  shows "session_ok H (apply_event s ev)"
    "make_session H (advanced s (ev_new_state ev) (ev_sequence ev) (ev_instant ev)
       (if is_reconnect ev then Some (recorded_route ev) else None)) = Inr (apply_event s ev)"
proof -
  note e = event_factsD [OF assms(2)]
  have f: "session_facts H s" using assms(1) by (simp add: session_ok_def)
  have r: "full_route x" if "(if is_reconnect ev then Some (recorded_route ev) else None) = Some x" for x
    using route_justified_full(1) [OF assms(3)] that by (simp split: if_splits)
  have a: "session_facts H (apply_event s ev)" unfolding apply_event_def
    by (rule advanced_made(2) [OF f e(3) _ e(4) r]) (use e(2) in simp_all)
  show "make_session H (advanced s (ev_new_state ev) (ev_sequence ev) (ev_instant ev)
       (if is_reconnect ev then Some (recorded_route ev) else None)) = Inr (apply_event s ev)" unfolding apply_event_def
    by (rule advanced_made(1) [OF f e(3) _ e(4) r]) (use e(2) in simp_all)
  have "ss_path_expires_at (apply_event s ev) = snd (snd (route_of (apply_event s ev)))" by (simp add: route_of_def)
  also have "\<dots> = (if is_reconnect ev then snd (snd (recorded_route ev)) else ss_path_expires_at s)"
    by (simp add: apply_event_def) (simp add: route_of_def)
  finally show "session_ok H (apply_event s ev)"
    using a assms(1) route_justified_full(2) [OF assms(3)] by (simp add: session_ok_def)
qed

lemma recorded_lookup:
  "dget (st_sessions (recorded st s evs)) sid = (if sid = ss_session_id s then Some s else dget (st_sessions st) sid)"
  "dget (st_events (recorded st s evs)) sid = (if sid = ss_session_id s then Some (history st sid @ evs) else dget (st_events st) sid)"
  "history (recorded st s evs) sid = (if sid = ss_session_id s then history st sid @ evs else history st sid)"
  by (simp_all add: recorded_def history_def)

lemma sessions_ok_recorded:
  assumes "sessions_ok H st" "session_ok H s" "log_of H s (history st (ss_session_id s) @ evs)"
  shows "sessions_ok H (recorded st s evs)"
  unfolding sessions_ok_def recorded_lookup
  using assms by (auto simp: sessions_ok_def recorded_def)

lemma log_step_kept:
  assumes "log_step H st st'" "sessions_ok H st"
  shows "sessions_ok H st'"
  using assms
proof cases
  case (log_open s ev)
  have "history st (ss_session_id s) = []"
    using log_open(2) assms(2) by (auto simp: sessions_ok_def history_def dgetd_def)
  moreover have "log_of H s [ev]"
    using log_open by (simp add: log_of_def edge_ok_def transition_is_legal_def)
  moreover have "session_ok H s"
  proof -
    have "\<not> is_reconnect ev" using log_open by (simp add: is_reconnect_def)
    then have "route_of s = route_of (opened s)"
      using arg_cong [OF log_open(6), of route_of] by (simp add: apply_event_def)
    then have "ss_path_expires_at s = sb_path_expires_at (ss_binding s)" by (simp add: route_of_def opened_def)
    then show ?thesis using log_open by (simp add: session_ok_def make_binding_iff)
  qed
  ultimately show ?thesis unfolding log_open(1) by (intro sessions_ok_recorded assms(2)) simp_all
next
  case (log_append s ev rds)
  note d = sessions_okD [OF assms(2) log_append(2)]
  show ?thesis unfolding log_append(1)
    by (rule sessions_ok_recorded [OF assms(2) session_ok_apply(1) [OF d(2) log_append(3,5)]])
      (use log_of_snoc [OF d(3) log_append(3,4)] in simp)
next
  case (log_trust ts)
  then show ?thesis using assms(2) by (simp add: sessions_ok_def history_def)
qed

end
