(* ===== verification/Session_Steps.thy ===== *)
theory Session_Steps
  imports Session_Log
begin

text \<open>
  What each operation of the store does to a store that satisfies the invariant: it raises,
  refuses or answers without an effect, or it opens a session, or it appends its events to
  one session in steps of the log machine.
\<close>

declare split_paired_All [simp del] split_paired_Ex [simp del]

section \<open>Calls\<close>

datatype session_call =
    Create route_decision policy_decision string string string string annotations
  | Transition string string string annotations
  | Suspend string string annotations
  | Reconnect string route_decision string "policy_decision option" annotations
  | Terminate string string annotations
  | Append string session_event "route_decision option" "policy_decision option"
  | Extend py_code session_event

fun serve :: "(bytes \<Rightarrow> string) \<Rightarrow> session_call \<Rightarrow> session_store \<Rightarrow> store_outcome" where
  "serve H (Create rd pd src dst instant digest an) st = create_session H st rd pd src dst instant digest an"
| "serve H (Transition sid new instant an) st = transition_session H st sid new instant an"
| "serve H (Suspend sid instant an) st = suspend_session H st sid instant an"
| "serve H (Reconnect sid rd instant pd an) st = reconnect_session H st sid rd instant pd an"
| "serve H (Terminate sid instant an) st = terminate_session H st sid instant an"
| "serve H (Append sid ev rd pd) st = append_event H st sid ev rd pd"
| "serve H (Extend frame ev) st = append_state_preserving_event H frame st ev"

definition made_route :: "route_decision \<Rightarrow> bool" where
  \<comment> \<open>a decision object, with its path's metrics, passed its constructor\<close>
  "made_route rd \<longleftrightarrow> make_decision rd = Inr rd \<and>
     (case rd_selected rd of None \<Rightarrow> True | Some p \<Rightarrow> make_route_metrics (pa_metrics p) = Inr (pa_metrics p))"

fun call_routes :: "session_call \<Rightarrow> route_decision list" where
  "call_routes (Create rd pd src dst instant digest an) = [rd]"
| "call_routes (Reconnect sid rd instant pd an) = [rd]"
| "call_routes (Append sid ev rd pd) = (case rd of None \<Rightarrow> [] | Some d \<Rightarrow> [d])"
| "call_routes _ = []"

fun call_policies :: "session_call \<Rightarrow> policy_decision list" where
  "call_policies (Create rd pd src dst instant digest an) = [pd]"
| "call_policies (Reconnect sid rd instant pd an) = (case pd of None \<Rightarrow> [] | Some d \<Rightarrow> [d])"
| "call_policies (Append sid ev rd pd) = (case pd of None \<Rightarrow> [] | Some d \<Rightarrow> [d])"
| "call_policies _ = []"

fun call_events :: "session_call \<Rightarrow> session_event list" where
  "call_events (Append sid ev rd pd) = [ev]"
| "call_events (Extend frame ev) = [ev]"
| "call_events _ = []"

definition made_call :: "(bytes \<Rightarrow> string) \<Rightarrow> session_call \<Rightarrow> bool" where
  \<comment> \<open>the objects a call hands over passed their constructors\<close>
  "made_call sha256_hex c \<longleftrightarrow> list_all made_route (call_routes c) \<and> list_all (event_facts sha256_hex) (call_events c)"

inductive session_store_step :: "(bytes \<Rightarrow> string) \<Rightarrow> session_store \<Rightarrow> session_store \<Rightarrow> bool" for H where
  step_call: "made_call H c \<Longrightarrow> serve H c st = Inr (r, st') \<Longrightarrow> session_store_step H st st'"
| step_register: "register_extension_commit_capability declared frame code st = Inr st' \<Longrightarrow> session_store_step H st st'"

section \<open>Every operation follows the log machine\<close>

definition escaping :: "route_decision list \<Rightarrow> policy_decision list \<Rightarrow> string set" where
  \<comment> \<open>the exceptions of decisions that have no canonical form, which the store does not catch\<close>
  "escaping rds pds =
     {n. n = ''RoutingError'' \<and> (\<exists>rd \<in> set rds. \<not> isOk (canonical_bytes (decision_content rd))) \<or>
         n = ''PolicyError'' \<and> (\<exists>d \<in> set pds. \<not> isOk (canonical_bytes (policy_content d)))}"

definition quiet :: "string set \<Rightarrow> session_store \<Rightarrow> store_outcome \<Rightarrow> bool" where
  \<comment> \<open>one of the given exceptions, a refusal with a code of the store, or an answer without
     an effect\<close>
  "quiet E st out \<longleftrightarrow> (case out of
     Inl e \<Rightarrow> e \<in> Escaped ` E
   | Inr (r, st') \<Rightarrow> st' = st \<and> sr_code r \<in> set session_reason_codes)"

lemma quiet_failed [simp]: "code \<in> set session_reason_codes \<Longrightarrow> quiet E st (failed st code s)"
  by (simp add: quiet_def failed_def)

definition benign :: "string set \<Rightarrow> session_error \<Rightarrow> bool" where
  "benign E e \<longleftrightarrow> (case e of SessionError _ \<Rightarrow> True | Escaped n \<Rightarrow> n \<in> E)"

lemma benign_simps [simp]: "benign E (SessionError c)" "benign E (Escaped n) \<longleftrightarrow> n \<in> E"
  by (simp_all add: benign_def)

lemma quiet_envelope [simp]: "benign E e \<Longrightarrow> quiet E st (envelope_error st e)"
  by (cases e) (simp_all add: envelope_error_def quiet_def failed_def session_reason_codes_def)

lemma bindE_benign: "bindE m f = Inl e \<Longrightarrow> (\<And>e. m = Inl e \<Longrightarrow> benign E e) \<Longrightarrow> (\<And>x e. m = Inr x \<Longrightarrow> f x = Inl e \<Longrightarrow> benign E e) \<Longrightarrow> benign E e"
  by (cases m) auto

lemma validate_free_text_benign: "validate_free_text v = Inl e \<Longrightarrow> benign E e"
  by (auto simp: validate_free_text_def split: if_splits)

lemma check_each_benign: "check_each check_extension exts = Inl e \<Longrightarrow> benign E e"
  by (induction exts) (auto simp: bindE_eq_Inl_iff check_extension_def split: jval.splits if_splits)

lemma check_metadata_benign: "check_metadata seen kvs = Inl e \<Longrightarrow> benign E e"
  by (induction kvs arbitrary: seen)
    (auto simp: bindE_eq_Inl_iff split: if_splits dest: validate_free_text_benign)

lemma make_event_benign: "make_event H ev = Inl e \<Longrightarrow> benign E e"
  by (auto simp: make_event_def derive_event_id_def bindE_eq_Inl_iff split: if_splits sum.splits
      dest: validate_free_text_benign check_metadata_benign check_each_benign)

lemma make_session_benign: "make_session H s = Inl e \<Longrightarrow> benign E e"
  by (auto simp: make_session_def Let_def derive_session_id_def bindE_eq_Inl_iff split: if_splits sum.splits
      dest: check_each_benign)

definition advances ::
  "(bytes \<Rightarrow> string) \<Rightarrow> route_decision list \<Rightarrow> session_store \<Rightarrow> session \<Rightarrow> session_event list \<Rightarrow> store_outcome \<Rightarrow>
   bool" where
  \<comment> \<open>the events are appended, one after the other, to the history of the session; a route
     among them comes from the given decisions\<close>
  "advances sha256_hex rds st s evs out \<longleftrightarrow>
     (\<exists>r. out = Inr (r, recorded st (foldl apply_event s evs) evs) \<and> sr_ok r \<and> sr_code r \<in> set session_reason_codes \<and>
        sr_session r = Some (foldl apply_event s evs) \<and> sr_event r = Some (last evs)) \<and> evs \<noteq> [] \<and>
     (length evs = 1 \<or> list_all (\<lambda>ev. \<not> is_reconnect ev) evs) \<and>
     (\<forall>i < length evs. event_facts sha256_hex (evs ! i) \<and> follows (foldl apply_event s (take i evs)) (evs ! i) \<and>
        route_justified sha256_hex rds (foldl apply_event s (take i evs)) (evs ! i))"

lemma session_states_codes:
  "''REQUESTED'' \<in> set session_states" "''ESTABLISHED'' \<in> set session_states" "''SUSPENDED'' \<in> set session_states"
  "''TERMINATING'' \<in> set session_states" "''TERMINATED'' \<in> set session_states"
  by (simp_all add: session_states_def)

lemma commit_advances:
  assumes "event_facts H ev" "follows s ev" "route_justified H rds s ev" "code \<in> set session_reason_codes"
  shows "advances H rds st s [ev] (commit_events st (apply_event s ev) [ev] code)"
  using assms by (simp add: advances_def commit_events_def recorded_def)

lemma apply_transition_cases:
  assumes "session_ok H s" "edge_ok (ss_state s) new_state" "code \<in> set session_reason_codes"
    and "\<And>ev. make_event H (next_event s (ss_last_sequence s + 1) (ss_state s) new_state event_type instant an) = Inr ev \<Longrightarrow>
       route_justified H rds s ev \<and> route = (if is_reconnect ev then Some (recorded_route ev) else None)"
  shows "quiet E st (apply_transition H st s new_state event_type instant an code route) \<or>
    (\<exists>ev. advances H rds st s [ev] (apply_transition H st s new_state event_type instant an code route) \<and>
       make_event H (next_event s (ss_last_sequence s + 1) (ss_state s) new_state event_type instant an) = Inr ev)"
proof (cases "make_event H (next_event s (ss_last_sequence s + 1) (ss_state s) new_state event_type instant an)")
  case (Inl e)
  then show ?thesis using make_event_benign [OF Inl] by (simp add: apply_transition_def)
next
  case (Inr ev)
  note f = make_event_fields [OF Inr] and j = assms(4) [OF Inr]
  have e: "event_facts H ev" using Inr by (rule make_event_facts)
  have "ev_session_id ev = ss_session_id s" "ev_sequence ev = ss_last_sequence s + 1"
    "ev_previous_state ev = ss_state s" "ev_new_state ev = new_state"
    using f by (simp_all add: next_event_def)
  then have w: "follows s ev" and i: "ev_new_state ev = new_state" "ev_sequence ev = ss_last_sequence s + 1"
    using assms(2) by (simp_all add: follows_def)
  have "make_session H (advanced s new_state (ss_last_sequence s + 1) (ev_instant ev) route) = Inr (apply_event s ev)"
    using session_ok_apply(2) [OF assms(1) e conjunct1 [OF j]] j i by simp
  then have "apply_transition H st s new_state event_type instant an code route = commit_events st (apply_event s ev) [ev] code"
    by (simp add: apply_transition_def Inr)
  then show ?thesis using commit_advances [OF e w _ assms(3)] j Inr by auto
qed

lemma unjustified_route: "\<not> is_reconnect ev \<Longrightarrow> route_justified H rds s ev"
  by (simp add: route_justified_def)

lemma plain_transition_cases:
  assumes "session_ok H s" "edge_ok (ss_state s) new_state" "code \<in> set session_reason_codes" "event_type \<noteq> ''reconnected''"
  shows "quiet E st (apply_transition H st s new_state event_type instant an code None) \<or>
    (\<exists>ev. advances H rds st s [ev] (apply_transition H st s new_state event_type instant an code None) \<and>
       make_event H (next_event s (ss_last_sequence s + 1) (ss_state s) new_state event_type instant an) = Inr ev)"
proof (rule apply_transition_cases [OF assms(1-3)])
  fix ev
  assume "make_event H (next_event s (ss_last_sequence s + 1) (ss_state s) new_state event_type instant an) = Inr ev"
  from make_event_fields(5) [OF this] have "\<not> is_reconnect ev" using assms(4) by (simp add: is_reconnect_def next_event_def)
  then show "route_justified H rds s ev \<and> None = (if is_reconnect ev then Some (recorded_route ev) else None)"
    by (simp add: unjustified_route)
qed

lemma require_session_Some: "require_session st sid = Some s \<longleftrightarrow> sid \<noteq> '''' \<and> dget (st_sessions st) sid = Some s"
  by (simp add: require_session_def)

lemma transition_result:
  assumes "sessions_ok H st"
  shows "quiet E st (transition_session H st sid new instant an) \<or>
    (\<exists>s ev. dget (st_sessions st) sid = Some s \<and> advances H rds st s [ev] (transition_session H st sid new instant an))"
proof (cases "require_session st sid")
  case None
  then show ?thesis by (simp add: transition_session_def unknown_session_def session_reason_codes_def)
next
  case (Some s)
  then have s: "dget (st_sessions st) sid = Some s" by (simp add: require_session_Some)
  note ok = sessions_okD(2) [OF assms s]
  let ?go = "apply_transition H st s new (ascii_lower new) instant an ''transitioned'' None"
  show ?thesis
  proof (cases "new \<in> set session_states \<and> transition_is_legal (ss_state s) new")
    case True
    then have "ascii_lower new \<noteq> ''reconnected''" by (auto simp: session_states_def ascii_lower_def less_eq_char_def)
    then have "quiet E st ?go \<or> (\<exists>ev. advances H rds st s [ev] ?go)"
      using plain_transition_cases [OF ok, of new "''transitioned''" "ascii_lower new" E st instant an] True
      by (auto simp: edge_ok_def session_reason_codes_def)
    then show ?thesis using s
      by (auto simp: transition_session_def Some Let_def session_reason_codes_def split: option.splits)
  next
    case False
    then show ?thesis by (auto simp: transition_session_def Some session_reason_codes_def)
  qed
qed

lemmas code_member = session_reason_codes_def

lemma quiet_unknown [simp]: "quiet E st (unknown_session st)"
  by (simp add: unknown_session_def code_member)

lemma suspend_result:
  assumes "sessions_ok H st"
  shows "quiet E st (suspend_session H st sid instant an) \<or>
    (\<exists>s ev. dget (st_sessions st) sid = Some s \<and> advances H rds st s [ev] (suspend_session H st sid instant an))"
proof (cases "require_session st sid")
  case (Some s)
  then have s: "dget (st_sessions st) sid = Some s" by (simp add: require_session_Some)
  note ok = sessions_okD(2) [OF assms s]
  have "quiet E st (apply_transition H st s ''SUSPENDED'' ''suspended'' instant an ''suspended'' None) \<or>
    (\<exists>ev. advances H rds st s [ev] (apply_transition H st s ''SUSPENDED'' ''suspended'' instant an ''suspended'' None))"
    if "ss_state s \<in> set SUSPEND_SOURCES"
    using plain_transition_cases [OF ok, where new_state = "''SUSPENDED''" and code = "''suspended''" and event_type = "''suspended''" and st = st
        and instant = instant and an = an and rds = rds] that
    by (auto simp: edge_ok_def transition_is_legal_def code_member SUSPEND_SOURCES_def)
  then show ?thesis using s by (auto simp: suspend_session_def Some code_member)
qed (simp add: suspend_session_def)

lemma recorded_route_metadata:
  assumes "\<And>k. dget (ev_metadata ev) k = dget (route_metadata s r) k"
  shows "recorded_route ev = r"
  using assms by (cases r) (simp add: recorded_route_def dgetd_def route_metadata_def)

lemma verified_route_justified:
  assumes "verify_route_for_reconnect H (ss_binding s) rd (ev_instant ev) pd = Inr r" "made_route rd"
    "recorded_route ev = r" "rd \<in> set rds"
  shows "route_justified H rds s ev"
proof -
  from assms(1) obtain p where "reconnect_facts H (ss_binding s) rd (ev_instant ev) p"
    "r = (rd_decision_id rd, pa_path_id p, me_expires_at (pa_metrics p))"
    by (auto simp: verify_reconnect_iff)
  moreover have "rd_decision_id rd \<noteq> ''''"
    using assms(2) by (auto simp: made_route_def make_decision_def bindE_eq_Inr_iff)
  ultimately show ?thesis using assms(3,4) by (auto simp: route_justified_def)
qed

lemma verify_benign:
  assumes "made_route rd" "escaping rds pds \<subseteq> E" "rd \<in> set rds"
  shows "set_option pd \<subseteq> set pds \<Longrightarrow> verify_route_for_reconnect H b rd instant pd = Inl e \<Longrightarrow> benign E e"
    "d \<in> set pds \<Longrightarrow> verify_route_for_creation H rd d src dst digest instant = Inl e \<Longrightarrow> benign E e"
proof -
  have escapes: "\<not> isOk (canonical_bytes (decision_content rd)) \<Longrightarrow> ''RoutingError'' \<in> E"
    "\<not> isOk (canonical_bytes (policy_content d)) \<Longrightarrow> d \<in> set pds \<Longrightarrow> ''PolicyError'' \<in> E" for d
    using assms(2,3) unfolding escaping_def by blast+
  have "route_decision_id_matches H rd = Inl e \<Longrightarrow> benign E e" for e
    using escapes(1) by (cases "canonical_bytes (decision_content rd)") (auto simp: route_decision_id_matches_def)
  then have sel: "check_selected H rd x y = Inl e \<Longrightarrow> benign E e" for x y e
    by (auto simp: check_selected_def bindE_eq_Inl_iff split: option.splits if_splits)
  have ex: "parse_instant (me_expires_at (pa_metrics p)) \<noteq> None" if "check_selected H rd x y = Inr p" for x y p
  proof -
    have "rd_selected rd = Some p" using that by (simp add: check_selected_iff intact_route_def)
    then have "make_route_metrics (pa_metrics p) = Inr (pa_metrics p)" using assms by (simp add: made_route_def)
    then show ?thesis by (auto simp: make_route_metrics_def bindE_eq_Inr_iff split: if_splits)
  qed
  have m: "decision_id_matches H d = Inl e \<Longrightarrow> d \<in> set pds \<Longrightarrow> benign E e" for d e
    using escapes(2) [of d] by (cases "canonical_bytes (policy_content d)") (auto simp: decision_id_matches_def)
  then have pol: "check_policy_rebinding H b d = Inl e \<Longrightarrow> d \<in> set pds \<Longrightarrow> benign E e" for d e
    by (auto simp: check_policy_rebinding_def bindE_eq_Inl_iff split: if_splits)
  have nex: "benign E e" if "not_expired i (me_expires_at (pa_metrics p)) = Inl e" "parse_instant i \<noteq> None"
    "check_selected H rd x y = Inr p" for i p e x y
    using that ex [OF that(3)] by (auto simp: not_expired_def)
  show "verify_route_for_reconnect H b rd instant pd = Inl e \<Longrightarrow> benign E e" if "set_option pd \<subseteq> set pds"
    using sel pol nex that
    by (auto simp: verify_route_for_reconnect_def bindE_eq_Inl_iff split: option.splits if_splits)
  have mb: "make_binding x = Inl e \<Longrightarrow> benign E e" for x e by (auto simp: make_binding_def split: if_splits)
  show "verify_route_for_creation H rd d src dst digest instant = Inl e \<Longrightarrow> benign E e" if "d \<in> set pds"
    using sel m nex mb that
    by (auto simp: verify_route_for_creation_def check_node_def bindE_eq_Inl_iff split: if_splits)
qed

lemma reconnect_result:
  assumes "sessions_ok H st" "made_route rd" "rd \<in> set rds" "escaping rds pds \<subseteq> E" "set_option pd \<subseteq> set pds"
  shows "quiet E st (reconnect_session H st sid rd instant pd an) \<or>
    (\<exists>s ev. dget (st_sessions st) sid = Some s \<and> advances H rds st s [ev] (reconnect_session H st sid rd instant pd an))"
proof (cases "require_session st sid")
  case (Some s)
  then have s: "dget (st_sessions st) sid = Some s" by (simp add: require_session_Some)
  show ?thesis
  proof (cases "ss_state s = ''RECONNECTING''")
    case True
    show ?thesis
    proof (cases "verify_route_for_reconnect H (ss_binding s) rd instant pd")
      case (Inr r)
      let ?an = "an\<lparr>an_metadata := route_metadata s r\<rparr>"
      have j: "route_justified H rds s ev \<and> Some r = (if is_reconnect ev then Some (recorded_route ev) else None)"
        if "make_event H (next_event s (ss_last_sequence s + 1) (ss_state s) ''ESTABLISHED'' ''reconnected'' instant ?an) = Inr ev" for ev
      proof -
        note f = make_event_fields [OF that, unfolded next_event_def, simplified]
        have r: "recorded_route ev = r" by (rule recorded_route_metadata) (simp add: f)
        moreover have "is_reconnect ev" using f True by (simp add: is_reconnect_def)
        moreover have "route_justified H rds s ev"
          by (rule verified_route_justified [OF _ assms(2) r assms(3), where pd = pd]) (simp add: f Inr)
        ultimately show ?thesis by simp
      qed
      have "edge_ok (ss_state s) ''ESTABLISHED''"
        unfolding True by (simp add: edge_ok_def transition_is_legal_def TRANSITIONS_def)
      then have "quiet E st (apply_transition H st s ''ESTABLISHED'' ''reconnected'' instant ?an ''reconnected'' (Some r)) \<or>
        (\<exists>ev. advances H rds st s [ev] (apply_transition H st s ''ESTABLISHED'' ''reconnected'' instant ?an ''reconnected'' (Some r)) \<and>
          make_event H (next_event s (ss_last_sequence s + 1) (ss_state s) ''ESTABLISHED'' ''reconnected'' instant ?an) = Inr ev)"
        by (rule apply_transition_cases [OF sessions_okD(2) [OF assms(1) s]]) (use j in \<open>simp_all add: code_member\<close>)
      then show ?thesis using s by (auto simp: reconnect_session_def Some True Inr)
    qed (use verify_benign(1) [OF assms(2,4,3,5)] in \<open>simp add: reconnect_session_def Some True\<close>)
  qed (simp add: reconnect_session_def Some code_member)
qed (simp add: reconnect_session_def)

lemma terminatable_edge:
  "st \<in> set TERMINATABLE_STATES \<Longrightarrow> st \<noteq> ''TERMINATING'' \<Longrightarrow> edge_ok st ''TERMINATING''"
  "edge_ok ''TERMINATING'' ''TERMINATED''"
  by (auto simp: TERMINATABLE_STATES_def edge_ok_def transition_is_legal_def TRANSITIONS_def)

lemma two_events_advance:
  assumes ok: "session_ok H s" and edge: "edge_ok (ss_state s) ''TERMINATING''"
    and e1: "make_event H (next_event s (ss_last_sequence s + 1) (ss_state s) ''TERMINATING'' ''terminating'' instant an) = Inr ev1"
    and e2: "make_event H (next_event s (ss_last_sequence s + 2) ''TERMINATING'' ''TERMINATED'' ''terminated'' instant an) = Inr ev2"
  shows "make_session H (advanced s ''TERMINATING'' (ss_last_sequence s + 1) instant None) = Inr (apply_event s ev1)"
    "make_session H (advanced (apply_event s ev1) ''TERMINATED'' (ss_last_sequence s + 2) instant None)
       = Inr (apply_event (apply_event s ev1) ev2)"
    "advances H rds st s [ev1, ev2] (commit_events st (apply_event (apply_event s ev1) ev2) [ev1, ev2] ''terminated'')"
proof -
  note f1 = make_event_fields [OF e1, unfolded next_event_def, simplified]
    and f2 = make_event_fields [OF e2, unfolded next_event_def, simplified]
    and v1 = make_event_facts [OF e1] and v2 = make_event_facts [OF e2]
  have n: "\<not> is_reconnect ev1" "\<not> is_reconnect ev2" by (simp_all add: is_reconnect_def f1 f2)
  note j1 = unjustified_route [OF n(1), of H rds s] and j2 = unjustified_route [OF n(2), of H rds "apply_event s ev1"]
  note k1 = session_ok_apply [OF ok v1 j1]
  note k2 = session_ok_apply [OF k1(1) v2 j2]
  show "make_session H (advanced s ''TERMINATING'' (ss_last_sequence s + 1) instant None) = Inr (apply_event s ev1)"
    using k1(2) n by (simp add: f1)
  show "make_session H (advanced (apply_event s ev1) ''TERMINATED'' (ss_last_sequence s + 2) instant None)
       = Inr (apply_event (apply_event s ev1) ev2)"
    using k2(2) n by (simp add: f2)
  have "follows s ev1" "follows (apply_event s ev1) ev2"
    using edge terminatable_edge(2) by (simp_all add: follows_def f1 f2)
  then show "advances H rds st s [ev1, ev2] (commit_events st (apply_event (apply_event s ev1) ev2) [ev1, ev2] ''terminated'')"
    using v1 v2 j1 j2 n
    by (simp add: advances_def commit_events_def recorded_def code_member less_Suc_eq numeral_2_eq_2 All_less_Suc)
qed

lemma terminate_result:
  assumes "sessions_ok H st"
  shows "quiet E st (terminate_session H st sid instant an0) \<or>
    (\<exists>s evs. dget (st_sessions st) sid = Some s \<and> advances H rds st s evs (terminate_session H st sid instant an0))"
proof (cases "require_session st sid")
  case (Some s)
  then have s: "dget (st_sessions st) sid = Some s" by (simp add: require_session_Some)
  note ok = sessions_okD(2) [OF assms s]
  let ?an = "an0\<lparr>an_metadata := []\<rparr>" and ?q = "ss_last_sequence s + 1"
  let ?out = "terminate_session H st sid instant an0"
  consider "parse_instant instant = None \<or> ss_state s \<in> {''TERMINATED'', ''FAILED''}"
    | "parse_instant instant \<noteq> None" "ss_state s = ''TERMINATING''"
    | "parse_instant instant \<noteq> None" "ss_state s \<notin> {''TERMINATED'', ''FAILED'', ''TERMINATING''}"
      "ss_state s \<notin> set TERMINATABLE_STATES"
    | "parse_instant instant \<noteq> None" "ss_state s \<notin> {''TERMINATED'', ''FAILED'', ''TERMINATING''}"
      "ss_state s \<in> set TERMINATABLE_STATES" by blast
  then show ?thesis
  proof cases
    case 1
    then have "?out \<in> {failed st ''invalid-input'' None, failed st ''terminal-state'' (Some s),
        Inr (\<lparr>sr_ok = True, sr_code = ''already-terminated'', sr_session = Some s, sr_event = None\<rparr>, st)}"
      by (auto simp: terminate_session_def Some Let_def)
    moreover have "quiet E st (Inr (\<lparr>sr_ok = True, sr_code = ''already-terminated'', sr_session = Some s, sr_event = None\<rparr>, st))"
      "quiet E st (failed st ''invalid-input'' None)" "quiet E st (failed st ''terminal-state'' (Some s))"
      by (simp_all add: quiet_def failed_def code_member)
    ultimately have "quiet E st ?out" by (elim insertE emptyE) simp_all
    then show ?thesis ..
  next
    case 2
    have "edge_ok (ss_state s) ''TERMINATED''" unfolding 2(2) by (rule terminatable_edge(2))
    from plain_transition_cases [OF ok this, where code = "''terminated''" and event_type = "''terminated''" and st = st
        and instant = instant and an = ?an and rds = rds]
    have "quiet E st (apply_transition H st s ''TERMINATED'' ''terminated'' instant ?an ''terminated'' None) \<or>
      (\<exists>ev. advances H rds st s [ev] (apply_transition H st s ''TERMINATED'' ''terminated'' instant ?an ''terminated'' None))"
      by (auto simp: code_member)
    moreover have "?out = apply_transition H st s ''TERMINATED'' ''terminated'' instant ?an ''terminated'' None"
      using 2 by (auto simp: terminate_session_def Some Let_def)
    ultimately show ?thesis using s by metis
  next
    case 3
    then have "quiet E st ?out" by (auto simp: terminate_session_def Some code_member Let_def)
    then show ?thesis ..
  next
    case 4
    note edge = terminatable_edge(1) [OF 4(3)]
    let ?both = "bindE (make_event H (next_event s ?q (ss_state s) ''TERMINATING'' ''terminating'' instant ?an)) (\<lambda>ev1.
                 bindE (make_session H (advanced s ''TERMINATING'' ?q instant None)) (\<lambda>intermediate.
                 bindE (make_event H (next_event s (?q + 1) ''TERMINATING'' ''TERMINATED'' ''terminated'' instant ?an)) (\<lambda>ev2.
                 bindE (make_session H (advanced intermediate ''TERMINATED'' (?q + 1) instant None)) (\<lambda>final.
                   Inr (final, [ev1, ev2])))))"
    have out: "?out = (case ?both of Inl e \<Rightarrow> envelope_error st e
        | Inr (final, events) \<Rightarrow> commit_events st final events ''terminated'')"
      using 4 by (auto simp: terminate_session_def Some Let_def)
    show ?thesis
    proof (cases ?both)
      case (Inl e)
      then have "benign E e" by (auto simp: bindE_eq_Inl_iff dest: make_event_benign make_session_benign)
      then show ?thesis unfolding out Inl by simp
    next
      case (Inr x)
      then obtain ev1 ev2 where ev:
        "make_event H (next_event s ?q (ss_state s) ''TERMINATING'' ''terminating'' instant ?an) = Inr ev1"
        "make_event H (next_event s (ss_last_sequence s + 2) ''TERMINATING'' ''TERMINATED'' ''terminated'' instant ?an) = Inr ev2"
        by (auto simp: bindE_eq_Inr_iff add.assoc)
      have e: "edge_ok (ss_state s) ''TERMINATING''" using edge 4(2) by simp
      note t = two_events_advance [OF ok e ev]
      have "?both = Inr (apply_event (apply_event s ev1) ev2, [ev1, ev2])"
        using ev t(1,2) by (simp add: add.assoc)
      then have "?out = commit_events st (apply_event (apply_event s ev1) ev2) [ev1, ev2] ''terminated''"
        unfolding out by simp
      then show ?thesis using t(3) s by auto
    qed
  qed
qed (simp add: terminate_session_def)

lemma check_sequence_None:
  assumes "check_sequence hist ev = None" "log_of H s hist"
  shows "ev_sequence ev = ss_last_sequence s + 1"
  using assms(1) log_of_head(1,4) [OF assms(2)] assms(2)
  by (simp add: check_sequence_def log_of_def split: if_splits)

lemma check_sequence_code: "check_sequence hist ev = Some code \<Longrightarrow> code \<in> set session_reason_codes"
  by (auto simp: check_sequence_def code_member split: if_splits)

lemma quiet_answer:
  "code \<in> set session_reason_codes \<Longrightarrow> quiet E st (Inr (\<lparr>sr_ok = b, sr_code = code, sr_session = x, sr_event = y\<rparr>, st))"
  by (simp add: quiet_def)

lemma apply_event_result:
  assumes "sessions_ok H st" "dget (st_sessions st) sid = Some s" "event_facts H ev" "ev_session_id ev = sid"
    and "check_sequence (history st sid) ev = None" "ev_previous_state ev = ss_state s"
    and "edge_ok (ss_state s) (ev_new_state ev)" "route_justified H rds s ev" "code \<in> set session_reason_codes"
    and "route = (if is_reconnect ev then Some (recorded_route ev) else None)"
  shows "advances H rds st s [ev]
    (bindE (make_session H (advanced s (ev_new_state ev) (ev_sequence ev) (ev_instant ev) route)) (\<lambda>updated.
       commit_events st updated [ev] code))"
proof -
  note d = sessions_okD [OF assms(1,2)]
  have w: "follows s ev"
    using assms(4,6,7) check_sequence_None [OF assms(5) d(3)] d(1) by (simp add: follows_def)
  have m: "make_session H (advanced s (ev_new_state ev) (ev_sequence ev) (ev_instant ev) route) = Inr (apply_event s ev)"
    unfolding assms(10) by (rule session_ok_apply(2) [OF d(2) assms(3,8)])
  show ?thesis unfolding m bindE_Inr by (rule commit_advances [OF assms(3) w assms(8,9)])
qed

lemma binds_recorded_route: "binds_route s ev r \<Longrightarrow> recorded_route ev = r"
  by (cases r) (simp add: binds_route_def route_metadata_def recorded_route_def dgetd_def)

lemma append_result:
  assumes "sessions_ok H st" "event_facts H ev" "\<And>d. rd = Some d \<Longrightarrow> made_route d \<and> d \<in> set rds"
    and "escaping rds pds \<subseteq> E" "set_option pd \<subseteq> set pds"
  shows "quiet E st (append_event H st sid ev rd pd) \<or>
    (\<exists>s. dget (st_sessions st) sid = Some s \<and> advances H rds st s [ev] (append_event H st sid ev rd pd))"
proof (cases "require_session st sid")
  case (Some s)
  then have s: "dget (st_sessions st) sid = Some s" by (simp add: require_session_Some)
  let ?out = "append_event H st sid ev rd pd"
  let ?apply = "\<lambda>route. bindE (make_session H (advanced s (ev_new_state ev) (ev_sequence ev) (ev_instant ev) route)) (\<lambda>updated.
       commit_events st updated [ev] ''transitioned'')"
  consider "ev_session_id ev \<noteq> sid" | "ev_session_id ev = sid" "ev_event_id ev \<in> set (map ev_event_id (history st sid))"
    | code where "ev_session_id ev = sid" "ev_event_id ev \<notin> set (map ev_event_id (history st sid))"
      "check_sequence (history st sid) ev = Some code"
    | "ev_session_id ev = sid" "ev_event_id ev \<notin> set (map ev_event_id (history st sid))"
      "check_sequence (history st sid) ev = None"
      "ev_previous_state ev \<noteq> ss_state s \<or> \<not> transition_is_legal (ev_previous_state ev) (ev_new_state ev)"
    | "ev_session_id ev = sid" "ev_event_id ev \<notin> set (map ev_event_id (history st sid))"
      "check_sequence (history st sid) ev = None"
      "ev_previous_state ev = ss_state s" "transition_is_legal (ev_previous_state ev) (ev_new_state ev)"
    by (cases "check_sequence (history st sid) ev") auto
  then show ?thesis
  proof cases
    case 1
    then have "?out = failed st ''invalid-input'' None" by (simp add: append_event_def Some)
    then show ?thesis by (simp add: code_member)
  next
    case 2
    then have "quiet E st ?out" unfolding append_event_def Some option.case by (simp add: quiet_answer code_member)
    then show ?thesis ..
  next
    case 3
    then have "?out = failed st code (Some s)" by (simp add: append_event_def Some)
    then show ?thesis using check_sequence_code [OF 3(3)] by simp
  next
    case 4
    then have "?out \<in> {failed st ''event-state-mismatch'' (Some s), failed st ''illegal-transition'' (Some s)}"
      by (auto simp: append_event_def Some)
    then show ?thesis by (auto simp: code_member)
  next
    case 5
    then have out: "?out = (if ev_event_type ev = ''reconnected''
        then (case rd of
            None \<Rightarrow> failed st ''reconnect-validation-required'' (Some s)
          | Some d \<Rightarrow>
              if ev_previous_state ev \<noteq> ''RECONNECTING'' \<or> ev_new_state ev \<noteq> ''ESTABLISHED''
              then failed st ''event-binding-mismatch'' (Some s)
              else (case verify_route_for_reconnect H (ss_binding s) d (ev_instant ev) pd of
                  Inl e \<Rightarrow> envelope_error st e
                | Inr r \<Rightarrow>
                    if binds_route s ev r then ?apply (Some r)
                    else failed st ''event-binding-mismatch'' (Some s)))
        else if rd \<noteq> None then failed st ''invalid-input'' (Some s)
        else ?apply None)"
      by (simp add: append_event_def Some Let_def)
    have edge: "edge_ok (ss_state s) (ev_new_state ev)" using 5(4,5) by (simp add: edge_ok_def)
    note go = apply_event_result [OF assms(1) s assms(2) 5(1,3,4) edge, where code = "''transitioned''"]
    show ?thesis
    proof (cases "ev_event_type ev = ''reconnected''")
      case False
      then have "\<not> is_reconnect ev" by (simp add: is_reconnect_def)
      then have "advances H rds st s [ev] (?apply None)"
        by (intro go) (simp_all add: unjustified_route code_member)
      then show ?thesis using s False by (auto simp: out code_member)
    next
      case True
      show ?thesis
      proof (cases "\<exists>d r. rd = Some d \<and> ev_previous_state ev = ''RECONNECTING'' \<and> ev_new_state ev = ''ESTABLISHED'' \<and>
          verify_route_for_reconnect H (ss_binding s) d (ev_instant ev) pd = Inr r \<and> binds_route s ev r")
        case True': True
        then obtain d r where r: "rd = Some d" "is_reconnect ev" "binds_route s ev r"
          "verify_route_for_reconnect H (ss_binding s) d (ev_instant ev) pd = Inr r"
          using True by (auto simp: is_reconnect_def)
        note rr = binds_recorded_route [OF r(3)]
        have "advances H rds st s [ev] (?apply (Some r))"
          by (intro go) (use verified_route_justified [OF r(4) _ rr] assms(3) [OF r(1)] r(2) rr in \<open>simp_all add: code_member\<close>)
        moreover have "?out = ?apply (Some r)" unfolding out using True r(2-) by (simp add: r(1) is_reconnect_def)
        ultimately have "advances H rds st s [ev] ?out" by simp
        then show ?thesis using s by blast
      next
        case False
        have vb: "verify_route_for_reconnect H (ss_binding s) d (ev_instant ev) pd = Inl e \<Longrightarrow> rd = Some d \<Longrightarrow> benign E e"
          for d e using verify_benign(1) [OF _ assms(4) _ assms(5)] assms(3) by blast
        from False have "quiet E st ?out" unfolding out using True
          by (auto simp: code_member split: option.splits sum.splits dest: vb)
        then show ?thesis ..
      qed
    qed
  qed
qed (simp add: append_event_def)

lemma extend_result:
  assumes "sessions_ok H st" "event_facts H ev"
  shows "quiet E st (append_state_preserving_event H frame st ev) \<or>
    (\<exists>s. dget (st_sessions st) (ev_session_id ev) = Some s \<and> advances H rds st s [ev] (append_state_preserving_event H frame st ev))"
proof (cases "frame \<in> set (st_trusted st) \<and> require_session st (ev_session_id ev) \<noteq> None")
  case True
  then obtain s where req: "require_session st (ev_session_id ev) = Some s" and t: "frame \<in> set (st_trusted st)" by auto
  then have s: "dget (st_sessions st) (ev_session_id ev) = Some s" by (simp add: require_session_Some)
  let ?out = "append_state_preserving_event H frame st ev" and ?hist = "history st (ev_session_id ev)"
  show ?thesis
  proof (cases "ev_event_id ev \<notin> set (map ev_event_id ?hist) \<and> check_sequence ?hist ev = None \<and>
      ss_state s \<notin> set terminal_states \<and> ev_previous_state ev = ss_state s \<and> ev_new_state ev = ss_state s")
    case go: True
    have ns: "ss_state s \<noteq> ''''"
      using sessions_okD(4) [OF assms(1) s] by (auto simp: session_facts_def session_states_def)
    then have edge: "edge_ok (ss_state s) (ev_new_state ev)" using go by (simp add: edge_ok_def)
    have n: "\<not> is_reconnect ev" using go by (auto simp: is_reconnect_def)
    have "?out = bindE (make_session H (s\<lparr>ss_last_sequence := ev_sequence ev, ss_last_instant := ev_instant ev\<rparr>)) (\<lambda>updated.
        commit_events st updated [ev] ''event-appended'')"
      unfolding append_state_preserving_event_def req option.case using go t by simp
    also have "s\<lparr>ss_last_sequence := ev_sequence ev, ss_last_instant := ev_instant ev\<rparr>
        = advanced s (ev_new_state ev) (ev_sequence ev) (ev_instant ev) None"
      using go by (simp add: advanced_def)
    finally have "advances H rds st s [ev] ?out"
      using apply_event_result [OF assms(1) s assms(2) refl _ _ edge unjustified_route [OF n], of "''event-appended''" None] go n
      by (simp add: code_member)
    then show ?thesis using s by blast
  next
    case False
    then have "quiet E st ?out" unfolding append_state_preserving_event_def req option.case using t check_sequence_code
      by (auto simp: code_member quiet_answer split: option.splits)
    then show ?thesis ..
  qed
next
  case False
  then show ?thesis by (auto simp: append_state_preserving_event_def code_member)
qed

section \<open>Creation\<close>

definition opens :: "(bytes \<Rightarrow> string) \<Rightarrow> session_store \<Rightarrow> session \<Rightarrow> session_event \<Rightarrow> store_outcome \<Rightarrow> bool" where
  \<comment> \<open>a new session with its first event\<close>
  "opens sha256_hex st s ev out \<longleftrightarrow>
     out = Inr (\<lparr>sr_ok = True, sr_code = ''created'', sr_session = Some s, sr_event = Some ev\<rparr>, recorded st s [ev]) \<and>
     dget (st_sessions st) (ss_session_id s) = None \<and> session_facts sha256_hex s \<and>
     make_binding (ss_binding s) = Inr (ss_binding s) \<and> event_facts sha256_hex ev \<and> s = apply_event (opened s) ev \<and>
     ev_session_id ev = ss_session_id s \<and> ev_sequence ev = 1 \<and> ev_previous_state ev = '''' \<and>
     ev_new_state ev = ''REQUESTED''"

definition blank_session :: "session_binding \<Rightarrow> string \<Rightarrow> string jval list \<Rightarrow> session" where
  \<comment> \<open>the arguments of the constructor in \<open>create\<close>\<close>
  "blank_session b instant exts =
     \<lparr>ss_session_id = '''', ss_binding = b, ss_state = ''REQUESTED'', ss_creation_instant = instant,
      ss_route_decision_id = '''', ss_path_id = '''', ss_path_expires_at = '''',
      ss_last_sequence = 0, ss_last_instant = '''', ss_extensions = exts\<rparr>"

lemma probe_opened:
  assumes "make_session H (blank_session b instant exts) = Inr probe"
  shows "opened probe = probe" "ss_binding probe = b" "ss_creation_instant probe = instant" "session_facts H probe"
    "derive_session_id H b instant = Inr (ss_session_id probe)"
proof -
  from assms have f: "session_facts H probe" and p: "probe = filled (blank_session b instant exts) (ss_session_id probe)"
    by (simp_all add: make_session_iff)
  define i where "i = ss_session_id probe"
  have q: "probe = filled (blank_session b instant exts) i" using p unfolding i_def .
  show "opened probe = probe" "ss_binding probe = b" "ss_creation_instant probe = instant" "session_facts H probe"
    "derive_session_id H b instant = Inr (ss_session_id probe)"
    using f unfolding q by (simp_all add: opened_def filled_def blank_session_def or_default_def session_facts_def)
qed

lemma create_result:
  assumes "sessions_ok H st" "made_route rd" "escaping [rd] [pd] \<subseteq> E"
  shows "quiet E st (create_session H st rd pd src dst instant digest an) \<or>
    (\<exists>s ev. opens H st s ev (create_session H st rd pd src dst instant digest an) \<and>
       verify_route_for_creation H rd pd src dst digest instant = Inr (ss_binding s) \<and> ss_creation_instant s = instant)"
proof -
  let ?out = "create_session H st rd pd src dst instant digest an"
  consider "\<not> (\<exists>b probe. verify_route_for_creation H rd pd src dst digest instant = Inr b \<and>
      make_session H (blank_session b instant (an_extensions an)) = Inr probe)"
    | b probe where "verify_route_for_creation H rd pd src dst digest instant = Inr b"
      "make_session H (blank_session b instant (an_extensions an)) = Inr probe" by blast
  then show ?thesis
  proof cases
    case 1
    then have "quiet E st ?out" unfolding create_session_def blank_session_def [symmetric]
      by (auto split: sum.splits dest: verify_benign(2) [OF assms(2,3) list.set_intros(1) list.set_intros(1)]
          make_session_benign [where E = E])
    then show ?thesis ..
  next
    case (2 b probe)
    note p = probe_opened [OF 2(2)]
    let ?e = "make_event H (next_event probe 1 '''' ''REQUESTED'' ''created'' instant (an\<lparr>an_metadata := [], an_extensions := []\<rparr>))"
    show ?thesis
    proof (cases "dget (st_sessions st) (ss_session_id probe)")
      case (Some ex)
      then have "quiet E st ?out" unfolding create_session_def blank_session_def [symmetric] 2 sum.case Some option.case
        by (simp add: code_member quiet_answer)
      then show ?thesis ..
    next
      case None
      show ?thesis
      proof (cases ?e)
        case (Inl e)
        then have "quiet E st ?out" unfolding create_session_def blank_session_def [symmetric] 2 sum.case None option.case
          using make_event_benign [OF Inl] by simp
        then show ?thesis ..
      next
        case (Inr ev)
        note f = make_event_fields [OF Inr, unfolded next_event_def, simplified] and ef = make_event_facts [OF Inr]
        let ?s = "apply_event probe ev"
        have n: "\<not> is_reconnect ev" by (simp add: is_reconnect_def f)
        have st: "ss_state probe = ''REQUESTED''" using p(1) by (metis opened_def session.select_convs(3))
        have s: "probe\<lparr>ss_last_sequence := 1, ss_last_instant := ev_instant ev\<rparr> = ?s"
          using st n by (simp add: apply_event_def advanced_def f)
        have m: "make_session H ?s = Inr ?s" "session_facts H ?s"
          using advanced_made [OF p(4) event_factsD(3) [OF ef] _ event_factsD(4) [OF ef], of 1 None] n
          by (simp_all add: apply_event_def f)
        have hist: "history st (ss_session_id probe) = []"
          using None assms(1) by (auto simp: sessions_ok_def history_def dgetd_def)
        have "?out = Inr (\<lparr>sr_ok = True, sr_code = ''created'', sr_session = Some ?s, sr_event = Some ev\<rparr>, recorded st ?s [ev])"
          unfolding create_session_def blank_session_def [symmetric] 2 sum.case None option.case Inr bindE_Inr s m
          by (simp add: recorded_def hist)
        moreover have "make_binding (ss_binding ?s) = Inr (ss_binding ?s)"
          using 2(1) by (auto simp: p(2) verify_route_for_creation_def bindE_eq_Inr_iff make_binding_iff)
        ultimately have "opens H st ?s ev ?out"
          using None m(2) ef p(1) f by (simp add: opens_def)
        moreover have "verify_route_for_creation H rd pd src dst digest instant = Inr (ss_binding ?s)"
          "ss_creation_instant ?s = instant" by (simp_all add: p(2,3) 2(1))
        ultimately show ?thesis by blast
      qed
    qed
  qed
qed

end
