(* ===== verification/Session_Lifecycle.thy ===== *)
theory Session_Lifecycle
  imports Session_Steps
begin

text \<open>
  The operations refine the log machine, so every store a run of the code reaches satisfies
  its invariant, and every later store extends the earlier ones.
\<close>

declare split_paired_All [simp del] split_paired_Ex [simp del]

section \<open>The refinement\<close>

lemma recorded_twice:
  "ss_session_id t = ss_session_id s \<Longrightarrow> recorded (recorded st s es) t fs = recorded st t (es @ fs)"
  by (simp add: recorded_def history_def)

lemma advance_run:
  assumes "dget (st_sessions st) (ss_session_id s) = Some s" "0 < n" "n \<le> length evs"
    and "\<And>i. i < length evs \<Longrightarrow> event_facts H (evs ! i) \<and> follows (foldl apply_event s (take i evs)) (evs ! i) \<and>
      route_justified H rds (foldl apply_event s (take i evs)) (evs ! i)"
  shows "(log_step H)\<^sup>*\<^sup>* st (recorded st (foldl apply_event s (take n evs)) (take n evs))"
  using assms(2,3)
proof (induction n)
  case (Suc n)
  let ?t = "foldl apply_event s (take n evs)"
  have i: "ss_session_id ?t = ss_session_id s" by (simp add: foldl_apply_fields)
  note e = assms(4) [of n, THEN conjunct1] assms(4) [of n, THEN conjunct2, THEN conjunct1]
    assms(4) [of n, THEN conjunct2, THEN conjunct2]
  have n: "n < length evs" using Suc.prems by simp
  then have t: "take (Suc n) evs = take n evs @ [evs ! n]" by (rule take_Suc_conv_app_nth)
  show ?case
  proof (cases "n = 0")
    case True
    have "log_step H st (recorded st (apply_event s (evs ! 0)) [evs ! 0])"
      by (rule log_append [OF assms(1)]) (use assms(4) [of 0] n True in auto)
    then show ?thesis using True t by simp
  next
    case False
    then have "(log_step H)\<^sup>*\<^sup>* st (recorded st ?t (take n evs))" using Suc by simp
    moreover have "log_step H (recorded st ?t (take n evs))
        (recorded (recorded st ?t (take n evs)) (apply_event ?t (evs ! n)) [evs ! n])"
      by (rule log_append) (use e n in \<open>simp_all add: recorded_lookup\<close>)
    ultimately show ?thesis by (simp add: t recorded_twice)
  qed
qed simp

lemma serve_result:
  assumes "sessions_ok H st" "made_call H c"
  shows "quiet (escaping (call_routes c) (call_policies c)) st (serve H c st) \<or>
    (\<exists>s evs. dget (st_sessions st) (ss_session_id s) = Some s \<and> advances H (call_routes c) st s evs (serve H c st)) \<or>
    (\<exists>s ev. opens H st s ev (serve H c st))"
proof -
  have key: "dget (st_sessions st) (ss_session_id s) = Some s" if "dget (st_sessions st) sid = Some s" for sid s
    using that sessions_okD(1) [OF assms(1) that] by simp
  let ?E = "escaping (call_routes c) (call_policies c)"
  show ?thesis
  proof (cases c)
    case (Create rd pd src dst instant digest an)
    then have "escaping [rd] [pd] \<subseteq> ?E" "made_route rd" using assms(2) by (simp_all add: made_call_def)
    from create_result [OF assms(1) this(2,1), of src dst instant digest an] show ?thesis using Create by auto
  next
    case (Transition sid new instant an)
    then show ?thesis using transition_result [OF assms(1), of ?E sid new instant an] key by fastforce
  next
    case (Suspend sid instant an)
    then show ?thesis using suspend_result [OF assms(1), of ?E sid instant an] key by fastforce
  next
    case (Reconnect sid rd instant pd an)
    then have "escaping [rd] (call_policies c) \<subseteq> ?E" "made_route rd" "set_option pd \<subseteq> set (call_policies c)"
      using assms(2) by (cases pd; simp add: made_call_def)+
    from reconnect_result [OF assms(1) this(2) list.set_intros(1) this(1,3), of sid instant an] show ?thesis
      using Reconnect key by fastforce
  next
    case (Terminate sid instant an)
    then show ?thesis using terminate_result [OF assms(1), of ?E sid instant an] key by fastforce
  next
    case (Append sid ev rd pd)
    have "made_route d \<and> d \<in> set (call_routes c)" if "rd = Some d" for d
      using assms(2) that Append by (simp add: made_call_def)
    moreover have "event_facts H ev" using assms(2) Append by (simp add: made_call_def)
    moreover have "set_option pd \<subseteq> set (call_policies c)" by (cases pd) (simp_all add: Append)
    ultimately show ?thesis
      using append_result [OF assms(1) _ _ subset_refl, of ev rd "call_routes c" pd "call_policies c" sid] key Append by fastforce
  next
    case (Extend frame ev)
    then show ?thesis using extend_result [OF assms(1), of ev ?E frame] key assms(2) by (fastforce simp: made_call_def)
  qed
qed

lemma opensD:
  assumes "opens H st s ev out"
  shows "out = Inr (\<lparr>sr_ok = True, sr_code = ''created'', sr_session = Some s, sr_event = Some ev\<rparr>, recorded st s [ev])"
    "log_step H st (recorded st s [ev])" "dget (st_sessions st) (ss_session_id s) = None"
proof -
  note o = assms [unfolded opens_def]
  from o show "out = Inr (\<lparr>sr_ok = True, sr_code = ''created'', sr_session = Some s, sr_event = Some ev\<rparr>, recorded st s [ev])"
    by (elim conjE)
  from o show "dget (st_sessions st) (ss_session_id s) = None" by (elim conjE)
  from o show "log_step H st (recorded st s [ev])" by (elim conjE) (rule log_open)
qed

lemma serve_simulated:
  assumes "sessions_ok H st" "made_call H c" "serve H c st = Inr (r, st')"
  shows "(log_step H)\<^sup>*\<^sup>* st st'"
proof -
  from serve_result [OF assms(1,2)] consider "quiet (escaping (call_routes c) (call_policies c)) st (serve H c st)"
    | s evs where "dget (st_sessions st) (ss_session_id s) = Some s" "advances H (call_routes c) st s evs (serve H c st)"
    | s ev where "opens H st s ev (serve H c st)" by blast
  then show ?thesis
  proof cases
    case 1
    then show ?thesis using assms(3) by (simp add: quiet_def)
  next
    case 2
    then have st': "st' = recorded st (foldl apply_event s evs) evs" and n: "evs \<noteq> []"
      using assms(3) by (auto simp: advances_def)
    have "(log_step H)\<^sup>*\<^sup>* st (recorded st (foldl apply_event s (take (length evs) evs)) (take (length evs) evs))"
      using 2(2) n by (intro advance_run [OF 2(1), where rds = "call_routes c"]) (auto simp: advances_def)
    then show ?thesis by (simp add: st')
  next
    case 3
    then have "st' = recorded st s [ev]" using opensD(1) assms(3) by fastforce
    then show ?thesis using opensD(2) [OF 3] by blast
  qed
qed

interpretation sessions: machine_refinement "session_store_step H" "log_step H" "sessions_ok H" for H
proof unfold_locales
  fix s t
  assume "sessions_ok H s" "session_store_step H s t"
  from this(2,1) show "(log_step H)\<^sup>*\<^sup>* s t"
  proof cases
    case (step_call c r)
    then show ?thesis using serve_simulated \<open>sessions_ok H s\<close> by blast
  next
    case (step_register declared frame code)
    then have "t = s\<lparr>st_trusted := st_trusted s @ [code]\<rparr>"
      by (auto simp: register_extension_commit_capability_def bindE_eq_Inr_iff)
    then show ?thesis using log_trust [of H s] by auto
  qed
next
  fix s t
  show "sessions_ok H s \<Longrightarrow> log_step H s t \<Longrightarrow> sessions_ok H t" by (rule log_step_kept)
qed

lemmas reachable_ok = sessions.run_kept [OF _ sessions_ok_empty]

section \<open>Relations between earlier and later stores\<close>

definition store_extends :: "session_store \<Rightarrow> session_store \<Rightarrow> bool" where
  \<comment> \<open>every session is still there, with its identity and a longer history; unchanged where
     it had ended\<close>
  "store_extends st st' \<longleftrightarrow>
     (\<forall>sid s. dget (st_sessions st) sid = Some s \<longrightarrow>
        (\<exists>s' es. dget (st_sessions st') sid = Some s' \<and> opened s' = opened s \<and>
           history st' sid = history st sid @ es \<and> (ss_state s \<in> set terminal_states \<longrightarrow> s' = s \<and> es = [])))"

lemma store_extends_refl: "store_extends st st"
  unfolding store_extends_def by (metis append_Nil2)

lemma store_extends_trans:
  assumes "store_extends st st'" "store_extends st' st''"
  shows "store_extends st st''"
  unfolding store_extends_def
proof (intro allI impI)
  fix sid s
  assume s: "dget (st_sessions st) sid = Some s"
  with assms(1) obtain s' es where 1: "dget (st_sessions st') sid = Some s'" "opened s' = opened s"
    "history st' sid = history st sid @ es" "ss_state s \<in> set terminal_states \<longrightarrow> s' = s \<and> es = []"
    unfolding store_extends_def by blast
  with assms(2) obtain s'' fs where 2: "dget (st_sessions st'') sid = Some s''" "opened s'' = opened s'"
    "history st'' sid = history st' sid @ fs" "ss_state s' \<in> set terminal_states \<longrightarrow> s'' = s' \<and> fs = []"
    unfolding store_extends_def by blast
  show "\<exists>s' es. dget (st_sessions st'') sid = Some s' \<and> opened s' = opened s \<and>
      history st'' sid = history st sid @ es \<and> (ss_state s \<in> set terminal_states \<longrightarrow> s' = s \<and> es = [])"
  proof (intro exI [of _ s''] exI [of _ "es @ fs"] conjI)
    show "dget (st_sessions st'') sid = Some s''" by (rule 2(1))
    show "opened s'' = opened s" using 1(2) 2(2) by simp
    show "history st'' sid = history st sid @ es @ fs" using 1(3) 2(3) by simp
    show "ss_state s \<in> set terminal_states \<longrightarrow> s'' = s \<and> es @ fs = []" using 1(4) 2(4) by blast
  qed
qed

lemma no_edge_from_terminal:
  assumes "p \<in> set terminal_states"
  shows "\<not> edge_ok p n"
proof -
  have "\<not> edge_ok ''TERMINATED'' n" "\<not> edge_ok ''FAILED'' n"
    by (simp_all add: edge_ok_def transition_is_legal_def terminal_states_def TRANSITIONS_def SUSPEND_SOURCES_def)
  moreover have "p = ''TERMINATED'' \<or> p = ''FAILED''" using assms by (simp add: terminal_states_def)
  ultimately show ?thesis by blast
qed

lemma log_step_extends:
  assumes "sessions_ok H st" "log_step H st st'"
  shows "store_extends st st'"
  using assms(2)
proof cases
  case (log_open s ev)
  have "dget (st_sessions st') sid = Some t \<and> history st' sid = history st sid @ []"
    if "dget (st_sessions st) sid = Some t" for sid t
  proof -
    have "sid \<noteq> ss_session_id s" using that log_open(2) by auto
    then show ?thesis using that by (simp add: log_open(1) recorded_lookup)
  qed
  then show ?thesis unfolding store_extends_def by (intro allI impI) (metis append_Nil2)
next
  case (log_append s ev rds)
  have 1: "ss_state s \<notin> set terminal_states" using log_append(4) no_edge_from_terminal by (auto simp: follows_def)
  have "\<exists>t' es. dget (st_sessions st') sid = Some t' \<and> opened t' = opened t \<and> history st' sid = history st sid @ es \<and>
      (ss_state t \<in> set terminal_states \<longrightarrow> t' = t \<and> es = [])" if "dget (st_sessions st) sid = Some t" for sid t
  proof (cases "sid = ss_session_id s")
    case True
    then have "t = s" using that log_append(2) by simp
    then show ?thesis using True 1
      by (intro exI [of _ "apply_event s ev"] exI [of _ "[ev]"]) (simp add: log_append(1) recorded_lookup)
  next
    case False
    then show ?thesis using that by (intro exI [of _ t] exI [of _ "[]"]) (simp add: log_append(1) recorded_lookup)
  qed
  then show ?thesis unfolding store_extends_def by (intro allI impI)
next
  case (log_trust ts)
  then show ?thesis using store_extends_refl [of st] by (simp add: store_extends_def history_def)
qed

lemma run_extends:
  assumes "(session_store_step H)\<^sup>*\<^sup>* st st'" "sessions_ok H st"
  shows "store_extends st st'"
  by (rule sessions.run_relates [OF assms, where P = store_extends])
    (blast intro: store_extends_refl store_extends_trans log_step_extends)+

end
