(* ===== verification/Session_Properties.thy ===== *)
theory Session_Properties
  imports Session_Lifecycle Routing_Properties
begin

text \<open>
  What the session store promises, with a sample session for the witnesses: calls that
  succeed, a routing decision and a policy decision with their digests as ids, and runs
  that lead to the sample session in each state.
\<close>

declare split_paired_All [simp del] split_paired_Ex [simp del]

section \<open>Calls that succeed\<close>

definition plain :: annotations where
  "plain = \<lparr>an_actor = '''', an_reason = '''', an_metadata = [], an_extensions = []\<rparr>"

lemma plain_text: "validate_free_text '''' = Inr ()"
  by (simp add: validate_free_text_def has_session_token_def session_forbidden_tokens_def session_looks_secret_def
      session_secret_hints_def ascii_lower_def)

lemma event_content_canonical:
  assumes "ev_extensions ev = []"
  obtains b where "canonical_bytes (event_content ev) = Inr b"
proof -
  have "canon_ok 0 (map_jval lit (event_content ev))"
    using assms by (auto simp: event_content_def text_member_def pairs_doc_def MAX_CANONICAL_DEPTH_def)
  then show thesis using that by (rule canonical_ok)
qed

lemma next_event_made:
  assumes "ss_session_id s \<noteq> ''''" "1 \<le> q" "prev \<in> insert '''' (set session_states)" "new \<in> set session_states"
    "type \<noteq> ''''" "parse_instant instant = Some now"
  shows "\<exists>ev. make_event H (next_event s q prev new type instant plain) = Inr ev"
proof -
  let ?e = "next_event s q prev new type instant plain"
  obtain b where b: "canonical_bytes (event_content ?e) = Inr b"
    by (rule event_content_canonical [of ?e]) (simp add: next_event_def plain_def)
  have "make_event H ?e = Inr (?e\<lparr>ev_event_id := ''sha256:'' @ H b\<rparr>)"
    using assms b
    by (auto simp: make_event_def derive_event_id_def) (simp_all add: next_event_def plain_def plain_text)
  then show ?thesis by blast
qed

lemma transition_plain:
  assumes "sessions_ok H st" "dget (st_sessions st) sid = Some s" "new \<in> set session_states" "new \<noteq> ''SUSPENDED''"
    and "transition_is_legal (ss_state s) new" "parse_instant instant = Some now"
    and "new = ''ESTABLISHED'' \<Longrightarrow> live_at instant (ss_path_expires_at s)"
  shows "\<exists>ev. advances H [] st s [ev] (transition_session H st sid new instant plain) \<and> ev_new_state ev = new \<and> ev_instant ev = instant"
proof -
  note d = sessions_okD [OF assms(1,2)]
  have sid: "sid \<noteq> ''''" "ss_session_id s \<noteq> ''''" using d(1,4) by (auto simp: session_facts_def derive_session_id_def split: sum.splits)
  have q: "1 \<le> ss_last_sequence s + 1" "ss_state s \<in> set session_states" using d(4) by (simp_all add: session_facts_def)
  have low: "ascii_lower new \<noteq> ''reconnected''" "ascii_lower new \<noteq> ''''"
    using assms(3) by (auto simp: session_states_def ascii_lower_def less_eq_char_def)
  obtain ev where ev: "make_event H (next_event s (ss_last_sequence s + 1) (ss_state s) new (ascii_lower new) instant plain) = Inr ev"
    using next_event_made [OF sid(2) q(1) insertI2 [OF q(2)] assms(3) low(2) assms(6)] by blast
  note f = make_event_fields [OF ev, unfolded next_event_def, simplified]
  have nt: "ss_state s \<notin> set terminal_states" using no_edge_from_terminal assms(5) by (auto simp: edge_ok_def)
  let ?go = "apply_transition H st s new (ascii_lower new) instant plain ''transitioned'' None"
  have out: "transition_session H st sid new instant plain = ?go"
    using assms(3-7) nt sid by (auto simp: transition_session_def require_session_def assms(2) live_at_def Let_def)
  have n: "\<not> is_reconnect ev" using low by (simp add: is_reconnect_def f)
  have w: "follows s ev" using assms(5) by (simp add: follows_def f edge_ok_def)
  have m: "make_session H (advanced s new (ss_last_sequence s + 1) (ev_instant ev) None) = Inr (apply_event s ev)"
    using session_ok_apply(2) [OF d(2) make_event_facts [OF ev] unjustified_route [OF n, of H "[]"]] n by (simp add: f)
  have "?go = commit_events st (apply_event s ev) [ev] ''transitioned''" by (simp add: apply_transition_def ev m)
  then have "advances H [] st s [ev] ?go"
    using commit_advances [OF make_event_facts [OF ev] w unjustified_route [OF n]] by (simp add: code_member)
  then show ?thesis unfolding out using f by blast
qed

lemma terminate_plain:
  assumes "sessions_ok H st" "dget (st_sessions st) sid = Some s" "ss_state s \<in> set TERMINATABLE_STATES"
    and "parse_instant instant = Some now"
  shows "\<exists>evs. advances H [] st s evs (terminate_session H st sid instant plain) \<and> ev_new_state (last evs) = ''TERMINATED''"
proof -
  note d = sessions_okD [OF assms(1,2)]
  have sid: "sid \<noteq> ''''" "ss_session_id s \<noteq> ''''" using d(1,4) by (auto simp: session_facts_def derive_session_id_def split: sum.splits)
  have q: "1 \<le> ss_last_sequence s + 1" "1 \<le> ss_last_sequence s + 2" "ss_state s \<in> set session_states"
    using d(4) by (simp_all add: session_facts_def)
  have an: "plain\<lparr>an_metadata := []\<rparr> = plain" by (simp add: plain_def)
  have not: "ss_state s \<noteq> ''TERMINATED''" "ss_state s \<noteq> ''FAILED''" using assms(3) by (auto simp: TERMINATABLE_STATES_def)
  show ?thesis
  proof (cases "ss_state s = ''TERMINATING''")
    case True
    obtain ev where ev: "make_event H (next_event s (ss_last_sequence s + 1) (ss_state s) ''TERMINATED'' ''terminated'' instant plain) = Inr ev"
      using next_event_made [OF sid(2) q(1) insertI2 [OF q(3)] session_states_codes(5) _ assms(4), of "''terminated''"] by auto
    note f = make_event_fields [OF ev, unfolded next_event_def, simplified]
    have n: "\<not> is_reconnect ev" by (simp add: is_reconnect_def f)
    have w: "follows s ev" using terminatable_edge(2) by (simp add: follows_def f True)
    have m: "make_session H (advanced s ''TERMINATED'' (ss_last_sequence s + 1) (ev_instant ev) None) = Inr (apply_event s ev)"
      using session_ok_apply(2) [OF d(2) make_event_facts [OF ev] unjustified_route [OF n, of H "[]"]] n by (simp add: f)
    have "terminate_session H st sid instant plain = commit_events st (apply_event s ev) [ev] ''terminated''"
      using assms(4) sid True ev m
      by (simp add: terminate_session_def require_session_def assms(2) Let_def an apply_transition_def)
    then have "advances H [] st s [ev] (terminate_session H st sid instant plain)"
      using commit_advances [OF make_event_facts [OF ev] w unjustified_route [OF n]] by (simp add: code_member)
    then show ?thesis using f by (intro exI [of _ "[ev]"]) simp
  next
    case False
    obtain ev1 where e1: "make_event H (next_event s (ss_last_sequence s + 1) (ss_state s) ''TERMINATING'' ''terminating'' instant plain) = Inr ev1"
      using next_event_made [OF sid(2) q(1) insertI2 [OF q(3)] session_states_codes(4) _ assms(4), of "''terminating''"] by auto
    obtain ev2 where e2: "make_event H (next_event s (ss_last_sequence s + 2) ''TERMINATING'' ''TERMINATED'' ''terminated'' instant plain) = Inr ev2"
      using next_event_made [OF sid(2) q(2) insertI2 [OF session_states_codes(4)] session_states_codes(5) _ assms(4), of "''terminated''"] by auto
    note t = two_events_advance [OF d(2) terminatable_edge(1) [OF assms(3) False] e1 e2]
    have "terminate_session H st sid instant plain = commit_events st (apply_event (apply_event s ev1) ev2) [ev1, ev2] ''terminated''"
      using assms(3,4) sid not False e1 e2 t(1,2)
      by (simp add: terminate_session_def require_session_def assms(2) Let_def an add.assoc)
    then have "advances H [] st s [ev1, ev2] (terminate_session H st sid instant plain)" using t(3) by simp
    then show ?thesis using make_event_fields(4) [OF e2] by (intro exI [of _ "[ev1, ev2]"]) (simp add: next_event_def)
  qed
qed

lemma foldl_apply_state: "evs \<noteq> [] \<Longrightarrow> ss_state (foldl apply_event s evs) = ev_new_state (last evs)"
  by (induction evs rule: rev_induct) simp_all

lemma advances_outcome:
  assumes "advances H rds st s evs out" "dget (st_sessions st) sid = Some s" "ss_session_id s = sid"
  obtains r where "out = Inr (r, recorded st (foldl apply_event s evs) evs)" "sr_ok r"
    "dget (st_sessions (recorded st (foldl apply_event s evs) evs)) sid = Some (foldl apply_event s evs)"
    "history (recorded st (foldl apply_event s evs) evs) sid = history st sid @ evs"
    "ss_state (foldl apply_event s evs) = ev_new_state (last evs)"
  using assms by (auto simp: advances_def recorded_lookup foldl_apply_fields foldl_apply_state)

lemma session_id_derived:
  obtains sid where "derive_session_id H b instant = Inr sid" "sid \<noteq> ''''"
proof -
  have "canon_ok 0 (map_jval lit (identity_document b instant))"
    by (simp add: identity_document_def MAX_CANONICAL_DEPTH_def)
  then obtain bs where "canonical_bytes (identity_document b instant) = Inr bs" by (rule canonical_ok)
  then show thesis using that by (simp add: derive_session_id_def)
qed

lemma create_plain:
  assumes "sessions_ok H st" "creation_facts H rd pd src dst dig instant p"
    and "derive_session_id H (bound_to rd pd src dst dig p) instant = Inr sid" "dget (st_sessions st) sid = None"
  shows "\<exists>s ev. opens H st s ev (create_session H st rd pd src dst instant dig plain) \<and> ss_session_id s = sid \<and>
    ss_binding s = bound_to rd pd src dst dig p \<and> ss_state s = ''REQUESTED'' \<and>
    route_of s = (rd_decision_id rd, pa_path_id p, me_expires_at (pa_metrics p))"
proof -
  let ?b = "bound_to rd pd src dst dig p" and ?out = "create_session H st rd pd src dst instant dig plain"
  have v: "verify_route_for_creation H rd pd src dst dig instant = Inr ?b" using assms(2) by (auto simp: verify_creation_iff)
  define probe where "probe = filled (blank_session ?b instant []) sid"
  obtain now where now: "parse_instant instant = Some now" using assms(2) by (auto simp: creation_facts_def)
  have e: "me_expires_at (pa_metrics p) \<noteq> ''''"
    using assms(2) parse_instant_Nil by (auto simp: creation_facts_def live_at_def)
  have pf: "session_facts H probe" "ss_session_id probe = sid" "ss_binding probe = ?b" "ss_state probe = ''REQUESTED''"
    "ss_creation_instant probe = instant" "route_of probe = (rd_decision_id rd, pa_path_id p, me_expires_at (pa_metrics p))"
    using assms(2,3) now e
    by (simp_all add: probe_def session_facts_def filled_def blank_session_def or_default_def bound_to_def creation_facts_def
        session_states_def route_of_def)
  have mk: "make_session H (blank_session ?b instant (an_extensions plain)) = Inr probe"
    using pf(1,2) by (simp add: make_session_iff plain_def) (simp add: probe_def filled_def blank_session_def)
  have ns: "ss_session_id probe \<noteq> ''''" using assms(3) pf(2) by (auto simp: derive_session_id_def split: sum.splits)
  have an: "plain\<lparr>an_metadata := [], an_extensions := []\<rparr> = plain" by (simp add: plain_def)
  obtain ev where ev: "make_event H (next_event probe 1 '''' ''REQUESTED'' ''created'' instant plain) = Inr ev"
    using next_event_made [OF ns, of 1 "''''" "''REQUESTED''" "''created''" instant now H] now session_states_codes by auto
  note f = make_event_fields [OF ev, unfolded next_event_def, simplified] and ef = make_event_facts [OF ev]
  let ?s = "apply_event probe ev"
  have n: "\<not> is_reconnect ev" by (simp add: is_reconnect_def f)
  have s: "probe\<lparr>ss_last_sequence := 1, ss_last_instant := ev_instant ev\<rparr> = ?s"
    using pf(4) n by (simp add: apply_event_def advanced_def f)
  have m: "make_session H ?s = Inr ?s" "session_facts H ?s"
    using advanced_made [OF pf(1) event_factsD(3) [OF ef] _ event_factsD(4) [OF ef], of 1 None] n
    by (simp_all add: apply_event_def f)
  have none: "dget (st_sessions st) (ss_session_id probe) = None" using assms(4) pf(2) by simp
  have hist: "history st (ss_session_id probe) = []"
    using none assms(1) by (auto simp: sessions_ok_def history_def dgetd_def)
  have out: "?out = Inr (\<lparr>sr_ok = True, sr_code = ''created'', sr_session = Some ?s, sr_event = Some ev\<rparr>, recorded st ?s [ev])"
    unfolding create_session_def blank_session_def [symmetric] v mk sum.case none option.case an ev bindE_Inr s m
    by (simp add: recorded_def hist)
  have o: "opened probe = probe" by (simp add: probe_def opened_def filled_def blank_session_def or_default_def)
  have mb: "make_binding ?b = Inr ?b"
    using assms(2) by (auto simp: make_binding_iff bound_to_def creation_facts_def live_at_def)
  have "opens H st ?s ev ?out"
    using none m(2) ef f mb pf(3) by (simp add: opens_def out o)
  moreover have "route_of ?s = (rd_decision_id rd, pa_path_id p, me_expires_at (pa_metrics p))"
    using n pf(6) by (simp add: apply_event_def)
  ultimately show ?thesis using pf f by (intro exI [of _ ?s] exI [of _ ev]) simp
qed

lemma opens_step:
  assumes "opens H st s ev (serve H c st)" "made_call H c"
  shows "session_store_step H st (recorded st s [ev])"
  using step_call [OF assms(2) opensD(1) [OF assms(1)]] .

lemma advances_step:
  assumes "advances H rds st s evs (serve H c st)" "made_call H c"
  shows "session_store_step H st (recorded st (foldl apply_event s evs) evs)"
  using assms by (auto simp: advances_def intro: step_call)

section \<open>A sample session\<close>

definition session_policy :: "(bytes \<Rightarrow> string) \<Rightarrow> policy_decision" where
  \<comment> \<open>an allowing decision with its digest as id\<close>
  "session_policy H = sample_policy\<lparr>pd_decision_id := ''sha256:'' @ H (projr (canonical_bytes
     (policy_content sample_policy)))\<rparr>"

definition session_path :: "(bytes \<Rightarrow> string) \<Rightarrow> string \<Rightarrow> route_path" where
  "session_path H expires =
     \<lparr>pa_path_id = projr (derive_path_id H (sample_node CHR ''a'') (sample_node CHR ''b'') [sample_link]
        [sample_node CHR ''a'', sample_node CHR ''b'']),
      pa_source = sample_node CHR ''a'', pa_destination = sample_node CHR ''b'', pa_hops = [sample_link],
      pa_nodes = [sample_node CHR ''a'', sample_node CHR ''b''],
      pa_metrics = \<lparr>me_hop_count = 1, me_latency_ms = 5, me_reliability = 9900, me_capacity_bps = 1000, me_energy_cost = 2,
        me_confidence = 9000, me_expires_at = expires, me_monetary = None\<rparr>,
      pa_feasible = True, pa_rejection_code = '''', pa_unmet = [], pa_policy_eligible = True,
      pa_policy_decision_id = pd_decision_id (session_policy H), pa_utility = 0, pa_evidence_refs = []\<rparr>"

definition session_route :: "(bytes \<Rightarrow> string) \<Rightarrow> string \<Rightarrow> route_decision" where
  "session_route H expires =
     (let d = \<lparr>rd_decision_id = '''', rd_code = ''selected'', rd_detail = '''', rd_selected = Some (session_path H expires),
        rd_alternates = [], rd_rejected = [], rd_candidates_considered = 1,
        rd_policy_decision_id = pd_decision_id (session_policy H), rd_computation_instant = ''2024-01-01T00:00:00Z'',
        rd_input_digests = [(''intent'', ''absent'')], rd_extensions = []\<rparr>
      in d\<lparr>rd_decision_id := ''sha256:'' @ H (projr (canonical_bytes (decision_content d)))\<rparr>)"

abbreviation day1 :: string where "day1 \<equiv> ''2024-01-01T00:00:00Z''"
abbreviation march :: string where "march \<equiv> ''2024-03-01T00:00:00Z''"

lemma session_objects:
  assumes "parse_instant expires = Some e" "63839664000000000 \<le> e"
  shows "made_route (session_route H expires)"
    "creation_facts H (session_route H expires) (session_policy H) (sample_node CHR ''a'') (sample_node CHR ''b'') '''' day1
       (session_path H expires)"
proof -
  have "canon_ok 0 (map_jval lit (policy_content sample_policy))"
    by (simp add: policy_content_def sample_policy_def texts_doc_def MAX_CANONICAL_DEPTH_def)
  then obtain b where b: "canonical_bytes (policy_content sample_policy) = Inr b" by (rule canonical_ok)
  have "canon_ok 0 (map_jval lit (path_document (sample_node CHR ''a'') (sample_node CHR ''b'') [sample_link]
        [sample_node CHR ''a'', sample_node CHR ''b'']))"
    by (simp add: path_document_def texts_doc_def MAX_CANONICAL_DEPTH_def)
  then obtain pb where pb: "canonical_bytes (path_document (sample_node CHR ''a'') (sample_node CHR ''b'') [sample_link]
        [sample_node CHR ''a'', sample_node CHR ''b'']) = Inr pb" by (rule canonical_ok)
  let ?d = "session_route H expires\<lparr>rd_decision_id := ''''\<rparr>"
  have c: "decision_content (session_route H expires) = decision_content ?d" by (simp add: decision_content_def)
  have "rd_extensions (session_route H expires) = []" by (simp add: session_route_def Let_def)
  then have "canon_ok 0 (map_jval lit (decision_content ?d))"
    by (auto simp: decision_content_def pairs_doc_def texts_doc_def MAX_CANONICAL_DEPTH_def split: option.splits)
  then obtain db where db: "canonical_bytes (decision_content ?d) = Inr db" by (rule canonical_ok)
  have pid: "policy_content (x\<lparr>pd_decision_id := i\<rparr>) = policy_content x" for x i by (simp add: policy_content_def)
  have pol: "pd_decision_id (session_policy H) = ''sha256:'' @ H b" "pd_effect (session_policy H) = ''allow''"
    "pd_policy_set_version (session_policy H) = 1"
    "canonical_bytes (policy_content (session_policy H)) = Inr b"
    using b by (simp_all add: session_policy_def pid) (simp_all add: sample_policy_def)
  have path: "pa_path_id (session_path H expires) = ''sha256:'' @ H pb"
    by (simp add: session_path_def derive_path_id_def pb)
  have id: "rd_decision_id (session_route H expires) = ''sha256:'' @ H db"
    using db by (simp add: session_route_def Let_def)
  have rest: "rd_code (session_route H expires) = ''selected''" "rd_selected (session_route H expires) = Some (session_path H expires)"
    "rd_policy_decision_id (session_route H expires) = ''sha256:'' @ H b"
    "rd_input_digests (session_route H expires) = [(''intent'', ''absent'')]" "rd_alternates (session_route H expires) = []"
    "rd_rejected (session_route H expires) = []" "rd_candidates_considered (session_route H expires) = 1"
    "rd_computation_instant (session_route H expires) = day1" "rd_extensions (session_route H expires) = []"
    by (simp_all add: session_route_def Let_def pol)
  show "made_route (session_route H expires)"
    using assms by (simp add: made_route_def make_decision_def id rest route_codes_def require_int_def sample_times)
      (simp add: session_path_def make_route_metrics_def require_int_def require_bp_def MAX_BASIS_POINTS_def check_optional_cost_def)
  have fields: "pa_source (session_path H expires) = sample_node CHR ''a''" "pa_destination (session_path H expires) = sample_node CHR ''b''"
    "pa_hops (session_path H expires) = [sample_link]" "pa_nodes (session_path H expires) = [sample_node CHR ''a'', sample_node CHR ''b'']"
    "me_expires_at (pa_metrics (session_path H expires)) = expires"
    by (simp_all add: session_path_def)
  have ne: "sample_node ch \<noteq> ''''" for ch by (simp add: sample_node_def node_prefix_def)
  show "creation_facts H (session_route H expires) (session_policy H) (sample_node CHR ''a'') (sample_node CHR ''b'') '''' day1
       (session_path H expires)"
    using db c assms
    by (simp add: creation_facts_def intact_route_def intact_permit_def ne rest id pol path fields strip_sha256_def derive_path_id_def pb
        route_intent_slot_def ABSENT_INTENT_MARKER_def or_default_def live_at_def sample_times lower_hex_def)
qed

lemma run_transition:
  assumes "(session_store_step H)\<^sup>*\<^sup>* empty_session_store st" "get_session st sid = Some s" "new \<in> set session_states"
    and "new \<noteq> ''SUSPENDED''" "transition_is_legal (ss_state s) new" "parse_instant instant = Some now"
    and "new = ''ESTABLISHED'' \<Longrightarrow> live_at instant (ss_path_expires_at s)" "ss_state s \<noteq> ''RECONNECTING''"
  shows "\<exists>st' s' ev. (session_store_step H)\<^sup>*\<^sup>* empty_session_store st' \<and> get_session st' sid = Some s' \<and> ss_state s' = new \<and>
    ss_binding s' = ss_binding s \<and> route_of s' = route_of s \<and> ss_last_sequence s' = ss_last_sequence s + 1 \<and>
    history st' sid = history st sid @ [ev] \<and> event_facts H ev \<and> ev_sequence ev = ss_last_sequence s + 1"
proof -
  have ok: "sessions_ok H st" by (rule reachable_ok [OF assms(1)])
  have g: "dget (st_sessions st) sid = Some s" using assms(2) by (simp add: get_session_def)
  obtain ev where ev: "advances H [] st s [ev] (transition_session H st sid new instant plain)" "ev_new_state ev = new"
    using transition_plain [OF ok g assms(3-6)] assms(7) by blast
  have f: "follows s ev" "event_facts H ev" using ev(1) by (simp_all add: advances_def)
  have n: "\<not> is_reconnect ev" using f(1) assms(8) by (simp add: is_reconnect_def follows_def)
  have i: "ss_session_id s = sid" by (rule sessions_okD(1) [OF ok g])
  have c: "made_call H (Transition sid new instant plain)" by (simp add: made_call_def)
  have "session_store_step H st (recorded st (apply_event s ev) [ev])"
    using advances_step [OF _ c, of "[]" st s "[ev]"] ev(1) by simp
  then have "(session_store_step H)\<^sup>*\<^sup>* empty_session_store (recorded st (apply_event s ev) [ev])" using assms(1) by simp
  moreover have "route_of (apply_event s ev) = route_of s" using n by (simp add: apply_event_def)
  ultimately show ?thesis using ev(2) f i
    by (intro exI [of _ "recorded st (apply_event s ev) [ev]"] exI [of _ "apply_event s ev"] exI [of _ ev])
      (simp add: get_session_def recorded_lookup follows_def)
qed

definition has_sample :: "(bytes \<Rightarrow> string) \<Rightarrow> string \<Rightarrow> bool" where
  \<comment> \<open>a run leads to the sample session in the given state\<close>
  "has_sample H state \<longleftrightarrow> (\<exists>st sid s. (session_store_step H)\<^sup>*\<^sup>* empty_session_store st \<and> get_session st sid = Some s \<and>
     ss_state s = state \<and> ss_binding s = bound_to (session_route H march) (session_policy H) (sample_node CHR ''a'')
       (sample_node CHR ''b'') '''' (session_path H march) \<and>
     route_of s = (rd_decision_id (session_route H march), pa_path_id (session_path H march), march))"

lemma march_time: "parse_instant march = Some 63844848000000000"
  by (rule sample_times)

lemma sample_requested: "has_sample H ''REQUESTED''"
proof -
  let ?rd = "session_route H march" and ?pd = "session_policy H" and ?p = "session_path H march"
  have obj: "made_route ?rd" "creation_facts H ?rd ?pd (sample_node CHR ''a'') (sample_node CHR ''b'') '''' day1 ?p"
    by (rule session_objects [OF march_time]; simp)+
  let ?b = "bound_to ?rd ?pd (sample_node CHR ''a'') (sample_node CHR ''b'') '''' ?p"
  obtain sid where sid: "derive_session_id H ?b day1 = Inr sid" by (rule session_id_derived)
  have e: "dget (st_sessions empty_session_store) sid = None" by (simp add: empty_session_store_def)
  have x: "me_expires_at (pa_metrics ?p) = march" by (simp add: session_path_def)
  obtain s ev where s: "opens H empty_session_store s ev (create_session H empty_session_store ?rd ?pd (sample_node CHR ''a'')
      (sample_node CHR ''b'') day1 '''' plain)" "ss_session_id s = sid" "ss_binding s = ?b" "ss_state s = ''REQUESTED''"
      "route_of s = (rd_decision_id ?rd, pa_path_id ?p, march)"
    using create_plain [OF sessions_ok_empty obj(2) sid e] unfolding x by blast
  have c: "made_call H (Create ?rd ?pd (sample_node CHR ''a'') (sample_node CHR ''b'') day1 '''' plain)"
    using obj(1) by (simp add: made_call_def)
  have "session_store_step H empty_session_store (recorded empty_session_store s [ev])"
    using opens_step [OF _ c] s(1) by simp
  then show ?thesis unfolding has_sample_def using s
    by (intro exI [of _ "recorded empty_session_store s [ev]"] exI [of _ sid] exI [of _ s])
      (auto simp: get_session_def recorded_lookup)
qed

lemma sample_moves:
  assumes "has_sample H state" "state \<noteq> ''RECONNECTING''" "new \<in> set session_states" "new \<noteq> ''SUSPENDED''"
    "transition_is_legal state new"
  shows "has_sample H new"
proof -
  from assms(1) obtain st sid s where s: "(session_store_step H)\<^sup>*\<^sup>* empty_session_store st" "get_session st sid = Some s" "ss_state s = state"
    "ss_binding s = bound_to (session_route H march) (session_policy H) (sample_node CHR ''a'')
       (sample_node CHR ''b'') '''' (session_path H march)"
    "route_of s = (rd_decision_id (session_route H march), pa_path_id (session_path H march), march)"
    unfolding has_sample_def by blast
  have "ss_path_expires_at s = march" using s(5) by (simp add: route_of_def)
  then have "live_at day1 (ss_path_expires_at s)" by (simp add: live_at_def sample_times march_time)
  then show ?thesis unfolding has_sample_def
    using run_transition [OF s(1,2) assms(3,4) _ sample_times(1)] assms(2,5) s(3-5) by metis
qed

lemma sample_authorized: "has_sample H ''AUTHORIZED''"
  by (rule sample_moves [OF sample_requested]) (simp_all add: session_states_def transition_is_legal_def TRANSITIONS_def)

lemma sample_established: "has_sample H ''ESTABLISHED''"
  by (rule sample_moves [OF sample_authorized]) (simp_all add: session_states_def transition_is_legal_def TRANSITIONS_def)

lemma sample_reconnecting: "has_sample H ''RECONNECTING''"
  by (rule sample_moves [OF sample_established]) (simp_all add: session_states_def transition_is_legal_def TRANSITIONS_def)

section \<open>Decisions of the routing engine\<close>

lemma finish_keeps_digests: "finish_decision H d0 = Inr d \<Longrightarrow> rd_input_digests d = rd_input_digests d0"
  by (elim finish_decision_Inr) simp

lemma computed_digests:
  assumes "compute_decision H c b = Inr d"
  shows "rd_input_digests d = bi_input_digests b"
proof -
  have fd: "failure_decision H code detail c (bi_input_digests b) rejected n = Inr d \<Longrightarrow> ?thesis" for code detail rejected n
    unfolding failure_decision_def by (drule finish_keeps_digests) simp
  from assms obtain now co where now: "parse_evaluation_instant (rc_instant c) = Inr now"
    and co: "construct_candidates H c = Inr co"
    by (auto simp: compute_decision_def bindE_eq_Inr_iff Let_def)
  show ?thesis
  proof (cases "co_connected co \<and> co_paths co \<noteq> []")
    case False
    then show ?thesis using assms fd by (auto simp: compute_decision_def now co Let_def split: if_splits)
  next
    case True
    with assms obtain judged where
      "(case filter pa_feasible (rank_candidates c judged) of
          [] \<Rightarrow> failure_decision H ''no-feasible-path'' (rejected_detail (filter (\<lambda>p. \<not> pa_feasible p) (rank_candidates c judged))) c
            (bi_input_digests b) (filter (\<lambda>p. \<not> pa_feasible p) (rank_candidates c judged))
            (int (length (filter (\<lambda>p. \<not> pa_feasible p) (rank_candidates c judged))))
        | selected # alternates \<Rightarrow>
            finish_decision H
              \<lparr>rd_decision_id = ''placeholder'', rd_code = ''selected'',
               rd_detail = selected_detail selected (length alternates) (length (filter (\<lambda>p. \<not> pa_feasible p) (rank_candidates c judged))),
               rd_selected = Some selected, rd_alternates = alternates,
               rd_rejected = filter (\<lambda>p. \<not> pa_feasible p) (rank_candidates c judged),
               rd_candidates_considered = int (length (rank_candidates c judged)),
               rd_policy_decision_id = bi_policy_decision_id b,
               rd_computation_instant = rc_instant c, rd_input_digests = bi_input_digests b, rd_extensions = []\<rparr>) = Inr d"
      by (auto simp: compute_decision_def now co Let_def bindE_eq_Inr_iff)
    then show ?thesis
      by (cases "filter pa_feasible (rank_candidates c judged)") (auto dest: fd finish_keeps_digests)
  qed
qed

lemma bindings_intent:
  assumes "check_bindings H c = Inr b"
  shows "dgetd (bi_input_digests b) ''intent'' x = (case rc_intent c of None \<Rightarrow> ''absent'' | Some i \<Rightarrow> in_digest i)"
  using assms by (auto simp: check_bindings_def bindE_eq_Inr_iff)

lemma foldl_min_mem: "foldl (\<lambda>m y. min m (f y)) z ys \<in> insert z (f ` set ys)"
proof (induction ys arbitrary: z)
  case (Cons y ys)
  have "foldl (\<lambda>m y. min m (f y)) (min z (f y)) ys \<in> insert (min z (f y)) (f ` set ys)" by (rule Cons.IH)
  then show ?case by (auto simp: min_def split: if_splits)
qed simp

lemma min_list_by_mem: "xs \<noteq> [] \<Longrightarrow> min_list_by f xs \<in> f ` set xs"
  using foldl_min_mem [where f = f] by (cases xs) (simp_all add: min_list_by_def)

lemma judged_ends:
  assumes "judge_path H c i now p = Inr q"
  shows "pa_source q = pa_source p" "pa_destination q = pa_destination p"
proof -
  from assms obtain v u where v: "evaluate_feasibility H p c now = Inr v"
    and q: "q = v\<lparr>pa_policy_eligible := True, pa_policy_decision_id := i, pa_utility := u\<rparr>" by (rule judge_path_Inr)
  from v have "pa_source v = pa_source p \<and> pa_destination v = pa_destination p"
    by (cases rule: evaluate_feasibility_cases) simp_all
  then show "pa_source q = pa_source p" "pa_destination q = pa_destination p" using q by simp_all
qed

lemma constructed_ends:
  assumes "construct_candidates H c = Inr co" "p \<in> set (co_paths co)"
  shows "pa_source p = rc_source c" "pa_destination p = rc_destination c"
proof -
  from construct_candidates_cases [OF assms(1)] obtain now raw where "mapE (build_path H c now) raw = Inr (co_paths co)"
    by metis
  from mapE_mem [OF this assms(2)] obtain r where "build_path H c now r = Inr p" by blast
  from build_path_fields [OF this] show "pa_source p = rc_source c" "pa_destination p = rc_destination c" by simp_all
qed

lemma fresh_path_live:
  assumes "parse_instant i = Some now" "hops \<noteq> []" "\<forall>x \<in> set hops. link_fresh_at (g x) now"
    and "aggregate_link_metrics (map g hops) = Inr m"
  shows "live_at i (me_expires_at m)"
proof -
  have "me_expires_at m = min_list_by lm_freshness_until (map g hops)"
    using assms(2,4) by (auto simp: aggregate_link_metrics_def make_route_metrics_def bindE_eq_Inr_iff split: if_splits)
  moreover have "min_list_by lm_freshness_until (map g hops) \<in> lm_freshness_until ` set (map g hops)"
    by (rule min_list_by_mem) (simp add: assms(2))
  ultimately obtain x where "x \<in> set hops" "me_expires_at m = lm_freshness_until (g x)" by auto
  moreover from this have "link_fresh_at (g x) now" using assms(3) by blast
  ultimately show ?thesis using assms(1) by (auto simp: live_at_def link_fresh_at_def within_def split: option.splits)
qed

lemma aggregate_made:
  assumes "aggregate_link_metrics links = Inr m"
  shows "make_route_metrics m = Inr m"
proof -
  have same: "n = k" if "make_route_metrics k = Inr n" for k n
    using that by (auto simp: make_route_metrics_def bindE_eq_Inr_iff split: if_splits)
  from assms obtain k where "make_route_metrics k = Inr m" by (auto simp only: aggregate_link_metrics_def split: if_splits)
  with same [OF this] show ?thesis by simp
qed

lemma no_node: "\<not> node_ok ''''"
proof
  assume "node_ok ''''"
  then obtain n where "node_text n = ''''" by (rule node_ok_cases)
  then show False by (cases n) (simp add: node_text_def node_prefix_def)
qed

lemma selected_route_creates:
  assumes "make_context c0 = Inr c" "evaluate H c = Inr r" "rr_decision r = Some d" "rd_selected d = Some p"
    and "rc_policy c = Some pd" "make_policy_decision pd = Inr pd"
    and "rc_intent c = None \<or> is_valid_content_digest (intent_digest_of c)"
  shows "creation_facts H d pd (rc_source c) (rc_destination c) (intent_digest_of c) (rc_instant c) p" "made_route d"
proof -
  from assms(2-4) obtain b now co judged where b: "check_bindings H c = Inr b" "compute_decision H c b = Inr d"
    and now: "parse_instant (rc_instant c) = Some now" and co: "construct_candidates H c = Inr co"
    and j: "mapE (judge_path H c (policy_id_of c) now) (co_paths co) = Inr judged"
    and f: "filter pa_feasible (rank_candidates c judged) = p # rd_alternates d"
    by (rule selected_cases)
  have "p \<in> set (filter pa_feasible (rank_candidates c judged))" by (simp add: f)
  then have p: "pa_feasible p" "p \<in> set judged" by (simp_all add: rank_candidates_props)
  from mapE_mem [OF j p(2)] obtain q where q: "q \<in> set (co_paths co)" "judge_path H c (policy_id_of c) now q = Inr p"
    by blast
  note qf = constructed_fields [OF co q(1)]
  note pf = judged_path [OF q(2) conjunct1 [OF qf]]
  have ends: "pa_source p = rc_source c" "pa_destination p = rc_destination c"
    using judged_ends [OF q(2)] constructed_ends [OF co q(1)] by simp_all
  have path: "derive_path_id H (rc_source c) (rc_destination c) (pa_hops p) (pa_nodes p) = Inr (pa_path_id p)"
    using qf pf by simp
  have hops: "pa_hops p \<noteq> []"
    using construct_candidates_ok(2) [OF assms(1) co now q(1)] pf by (simp add: candidate_ok_def)
  have agg: "aggregate_link_metrics (map (metrics_of c) (pa_hops p)) = Inr (pa_metrics p)" using qf pf by simp
  have "route_admissible c now p" using pf p(1) by simp
  then have live: "live_at (rc_instant c) (me_expires_at (pa_metrics p))"
    by (intro fresh_path_live [OF now hops _ agg]) (simp add: route_admissible_def)
  have sel: "rd_code d = ''selected''" "rd_policy_decision_id d = policy_id_of c"
    "finish_decision H (d\<lparr>rd_decision_id := ''placeholder''\<rparr>) = Inr d"
    using b(2) check_bindings_Inr(9) [OF b(1)] assms(4) by (cases rule: compute_decision_cases; simp)+
  from sel(3) obtain i where e: "d = d\<lparr>rd_decision_id := ''placeholder''\<rparr>\<lparr>rd_decision_id := i\<rparr>"
    and i: "derive_decision_id H d = Inr i" "make_decision d = Inr d"
    by (rule finish_decision_Inr)
  from e have "rd_decision_id d = rd_decision_id (d\<lparr>rd_decision_id := ''placeholder''\<rparr>\<lparr>rd_decision_id := i\<rparr>)"
    by (rule arg_cong)
  then have "rd_decision_id d = i" by simp
  with i(1) obtain db where db: "canonical_bytes (decision_content d) = Inr db" "rd_decision_id d = ''sha256:'' @ H db"
    by (auto simp: derive_decision_id_def split: sum.splits)
  have route: "intact_route H d (rc_source c) (rc_destination c) p"
    using db sel(1) assms(4) ends path by (simp add: intact_route_def strip_sha256_def)
  obtain pd' where pol: "policy_allows H c pd'" using check_policy_binding_Inr [OF check_bindings_Inr(1) [OF b(1)]] by blast
  then have permit: "intact_permit H pd" using assms(5) by (auto simp: policy_allows_def intact_permit_def)
  have pdf: "pd_decision_id pd \<noteq> ''''" "0 \<le> pd_policy_set_version pd"
    using assms(6) by (auto simp: make_policy_decision_def bindE_eq_Inr_iff not_less)
  have slot: "route_intent_slot d = or_default (intent_digest_of c) ABSENT_INTENT_MARKER"
  proof -
    have "route_intent_slot d = (case rc_intent c of None \<Rightarrow> ''absent'' | Some i \<Rightarrow> in_digest i)"
      by (simp add: route_intent_slot_def computed_digests [OF b(2)] bindings_intent [OF b(1)])
    moreover have "\<not> is_valid_content_digest ''''" by (simp add: is_valid_content_digest_def digest_ok_def)
    ultimately show ?thesis using assms(7)
      by (auto simp: or_default_def intent_digest_of_def ABSENT_INTENT_MARKER_def split: option.splits)
  qed
  have nodes: "node_ok (rc_source c)" "node_ok (rc_destination c)"
    using assms(1) by (auto simp: make_context_def bindE_eq_Inr_iff)
  have "pa_path_id p \<noteq> ''''" using path by (auto simp: derive_path_id_def split: sum.splits)
  then show "creation_facts H d pd (rc_source c) (rc_destination c) (intent_digest_of c) (rc_instant c) p"
    using nodes no_node now route permit pdf sel(2) assms(5,7) slot live db(2)
    by (auto simp: creation_facts_def policy_id_of_def intent_digest_of_def)
  have "make_route_metrics (pa_metrics p) = Inr (pa_metrics p)"
    using aggregate_made [OF agg] .
  then show "made_route d" using i(2) assms(4) by (simp add: made_route_def)
qed

section \<open>Properties\<close>

text \<open>
  C5: A session is the result of its history: in every store that calls can reach, the
  session is what its events, applied in order to the session as opened, produce; the
  events are numbered from one without a gap, each continues the state the previous one
  left along an edge of the table, and the ids of the session and of every event are the
  digests of their content.
\<close>

theorem session_is_its_history:
  assumes "(session_store_step H)\<^sup>*\<^sup>* empty_session_store st" "get_session st sid = Some s"
  shows "s = foldl apply_event (opened s) (history st sid) \<and>
    map ev_sequence (history st sid) = map int [1..<Suc (length (history st sid))] \<and>
    chained '''' (history st sid) \<and>
    derive_session_id H (ss_binding s) (ss_creation_instant s) = Inr sid \<and>
    list_all (\<lambda>ev. ev_session_id ev = sid \<and> derive_event_id H ev = Inr (ev_event_id ev)) (history st sid)"
proof -
  have "sessions_ok H st" by (rule reachable_ok [OF assms(1)])
  note d = sessions_okD [OF this assms(2) [unfolded get_session_def]]
  then show ?thesis by (auto simp: log_of_def session_facts_def list_all_iff dest: event_factsD(5))
qed

theorem session_is_its_history_witness:
  "\<exists>st sid s. get_session st sid = Some s \<and> ss_state s = ''RECONNECTING'' \<and> history st sid \<noteq> [] \<and>
     s = foldl apply_event (opened s) (history st sid) \<and> chained '''' (history st sid)"
proof -
  from sample_reconnecting [of sample_hash] obtain st sid s where s: "(session_store_step sample_hash)\<^sup>*\<^sup>* empty_session_store st"
    "get_session st sid = Some s" "ss_state s = ''RECONNECTING''"
    unfolding has_sample_def by blast
  note t = session_is_its_history [OF s(1,2)]
  have "history st sid \<noteq> []"
    using sessions_okD(3) [OF reachable_ok [OF s(1)] s(2) [unfolded get_session_def]] by (simp add: log_of_def)
  with t s show ?thesis by blast
qed

text \<open>
  C8: Nothing of a session is lost or rewritten: whatever is called later, the session is
  still there with the identity, binding and extensions it was opened with, its history
  has only grown, and if it had ended, in TERMINATED or FAILED, neither it nor its history
  has changed.
\<close>

theorem histories_only_grow:
  assumes "(session_store_step H)\<^sup>*\<^sup>* empty_session_store st" "(session_store_step H)\<^sup>*\<^sup>* st st'" "get_session st sid = Some s"
  shows "\<exists>s' es. get_session st' sid = Some s' \<and> opened s' = opened s \<and> history st' sid = history st sid @ es \<and>
    (ss_state s \<notin> {''TERMINATED'', ''FAILED''} \<or> s' = s \<and> es = [])"
  using run_extends [OF assms(2) reachable_ok [OF assms(1)]] assms(3)
  by (fastforce simp: store_extends_def get_session_def terminal_states_def)

theorem histories_only_grow_witness:
  "\<exists>st st' sid s s' e. st \<noteq> st' \<and> get_session st sid = Some s \<and> get_session st' sid = Some s' \<and>
     (session_store_step sample_hash)\<^sup>*\<^sup>* st st' \<and> opened s' = opened s \<and> history st' sid = history st sid @ [e]"
proof -
  from sample_authorized [of sample_hash] obtain st sid s where s: "(session_store_step sample_hash)\<^sup>*\<^sup>* empty_session_store st"
    "get_session st sid = Some s" "ss_state s = ''AUTHORIZED''"
    unfolding has_sample_def by blast
  note ok = reachable_ok [OF s(1)] and g = s(2) [unfolded get_session_def]
  have leg: "''FAILED'' \<in> set session_states" "transition_is_legal (ss_state s) ''FAILED''"
    by (simp_all add: s(3) session_states_def transition_is_legal_def TRANSITIONS_def)
  obtain ev where ev: "advances sample_hash [] st s [ev] (transition_session sample_hash st sid ''FAILED'' day1 plain)"
    using transition_plain [OF ok g leg(1) _ leg(2) sample_times(1)] by auto
  let ?st = "recorded st (foldl apply_event s [ev]) [ev]"
  have i: "ss_session_id s = sid" by (rule sessions_okD(1) [OF ok g])
  have "session_store_step sample_hash st ?st"
    by (rule advances_step [where c = "Transition sid ''FAILED'' day1 plain" and rds = "[]"]) (use ev in \<open>simp_all add: made_call_def\<close>)
  then have r: "(session_store_step sample_hash)\<^sup>*\<^sup>* st ?st" by blast
  from histories_only_grow [OF s(1) r s(2)] obtain s' es where t: "get_session ?st sid = Some s'" "opened s' = opened s"
    "history ?st sid = history st sid @ es" by blast
  have h: "history ?st sid = history st sid @ [ev]" using i by (simp add: recorded_lookup)
  then have "st \<noteq> ?st" by (metis append_self_conv not_Cons_self2)
  then show ?thesis using s(2) t r h by blast
qed

text \<open>
  C6: A session changes its route only by a verified reconnect: if a call leaves a session
  with another route, the session was RECONNECTING and is now ESTABLISHED, and the route
  is that of a routing decision of the call which is intact, selected a path between the
  session's own nodes, was made under the session's policy decision and intent, and has
  not expired.
\<close>

theorem route_changes_are_verified:
  assumes "(session_store_step H)\<^sup>*\<^sup>* empty_session_store st" "made_call H c" "serve H c st = Inr (r, st')"
    and "get_session st sid = Some s" "get_session st' sid = Some s'" "route_of s' \<noteq> route_of s"
  shows "ss_state s = ''RECONNECTING'' \<and> ss_state s' = ''ESTABLISHED'' \<and>
    (\<exists>rd p. rd \<in> set (call_routes c) \<and> reconnect_facts H (ss_binding s) rd (ss_last_instant s') p \<and>
       route_of s' = (rd_decision_id rd, pa_path_id p, me_expires_at (pa_metrics p)))"
proof -
  have ok: "sessions_ok H st" by (rule reachable_ok [OF assms(1)])
  have g: "dget (st_sessions st) sid = Some s" and g': "dget (st_sessions st') sid = Some s'"
    using assms(4,5) by (simp_all add: get_session_def)
  have ne: "s' \<noteq> s" using assms(6) by auto
  from serve_result [OF ok assms(2)] consider "quiet (escaping (call_routes c) (call_policies c)) st (serve H c st)"
    | t evs where "dget (st_sessions st) (ss_session_id t) = Some t" "advances H (call_routes c) st t evs (serve H c st)"
    | t ev where "opens H st t ev (serve H c st)" by blast
  then show ?thesis
  proof cases
    case 1
    then show ?thesis using assms(3) g g' ne by (simp add: quiet_def)
  next
    case 2
    have st': "st' = recorded st (foldl apply_event t evs) evs" using 2(2) assms(3) by (auto simp: advances_def)
    have t: "t = s" "s' = foldl apply_event s evs"
      using g g' ne 2(1) unfolding st' recorded_lookup foldl_apply_fields by (auto split: if_splits)
    have nr: "route_of (foldl apply_event u es) = route_of u" if "list_all (\<lambda>ev. \<not> is_reconnect ev) es" for u es
      using that by (induction es arbitrary: u) (simp_all add: apply_event_def)
    have "\<not> list_all (\<lambda>ev. \<not> is_reconnect ev) evs" using nr [of evs s] assms(6) t(2) by auto
    then have "length evs = 1" using 2(2) by (auto simp: advances_def)
    then obtain ev where ev: "evs = [ev]" by (cases evs) auto
    then have a: "follows s ev" "route_justified H (call_routes c) s ev" "is_reconnect ev"
      using 2(2) t(1) \<open>\<not> list_all (\<lambda>ev. \<not> is_reconnect ev) evs\<close> by (auto simp: advances_def)
    have "route_of s' = recorded_route ev" using a(3) by (simp add: t(2) ev apply_event_def)
    then show ?thesis using a by (auto simp: route_justified_def is_reconnect_def follows_def t(2) ev)
  next
    case 3
    have "st' = recorded st t [ev]" "dget (st_sessions st) (ss_session_id t) = None"
      using opensD(1,3) [OF 3] assms(3) by simp_all
    then show ?thesis using g g' ne by (auto simp: recorded_lookup split: if_splits)
  qed
qed

text \<open>
  C10: The store always answers and is atomic: on a store that calls have reached, a call
  with constructed objects returns a result with one of the frozen codes, and if the
  result is not ok the store is unchanged.  The only exceptions that leave a call are the
  \<open>PolicyError\<close> of a policy decision and the \<open>RoutingError\<close> of a routing decision of the
  call that has no canonical form.  (Texts are of code points below 256.)
\<close>

theorem store_answers_atomically:
  assumes "(session_store_step H)\<^sup>*\<^sup>* empty_session_store st" "made_call H c"
  shows "case serve H c st of
      Inl e \<Rightarrow>
        e = Escaped ''PolicyError'' \<and> (\<exists>d \<in> set (call_policies c). \<not> isOk (canonical_bytes (policy_content d))) \<or>
        e = Escaped ''RoutingError'' \<and> (\<exists>rd \<in> set (call_routes c). \<not> isOk (canonical_bytes (decision_content rd)))
    | Inr (r, st') \<Rightarrow> sr_code r \<in> set session_reason_codes \<and> (sr_ok r \<or> st' = st)"
proof -
  have ok: "sessions_ok H st" by (rule reachable_ok [OF assms(1)])
  from serve_result [OF ok assms(2)] consider "quiet (escaping (call_routes c) (call_policies c)) st (serve H c st)"
    | t evs where "advances H (call_routes c) st t evs (serve H c st)"
    | t ev where "opens H st t ev (serve H c st)" by blast
  then show ?thesis
  proof cases
    case 1
    then show ?thesis by (auto simp: quiet_def escaping_def split: sum.splits)
  next
    case 2
    then show ?thesis by (auto simp: advances_def)
  next
    case 3
    show ?thesis unfolding opensD(1) [OF 3] by (simp add: code_member)
  qed
qed

text \<open>
  C9: Every session can be ended: for a session that has not ended, at any instant, one
  call ends it, \<open>terminate\<close> or, before it was established, a transition to FAILED.
\<close>

theorem every_session_can_end:
  assumes "(session_store_step H)\<^sup>*\<^sup>* empty_session_store st" "get_session st sid = Some s"
    and "ss_state s \<notin> {''TERMINATED'', ''FAILED''}" "parse_instant instant = Some now"
  shows "\<exists>r st' s'. serve H (if ss_state s \<in> {''REQUESTED'', ''AUTHORIZED''} then Transition sid ''FAILED'' instant plain
      else Terminate sid instant plain) st = Inr (r, st') \<and> sr_ok r \<and>
    get_session st' sid = Some s' \<and> ss_state s' \<in> {''TERMINATED'', ''FAILED''}"
proof -
  have ok: "sessions_ok H st" by (rule reachable_ok [OF assms(1)])
  note g = assms(2) [unfolded get_session_def]
  note i = sessions_okD(1) [OF ok g]
  have out: "\<exists>r st' s'. out = Inr (r, st') \<and> sr_ok r \<and> get_session st' sid = Some s' \<and> ss_state s' = n"
    if "advances H rds st s evs out" "ev_new_state (last evs) = n" for evs out n rds
    using advances_outcome [OF that(1) g i] that(2) by (metis get_session_def)
  show ?thesis
  proof (cases "ss_state s \<in> {''REQUESTED'', ''AUTHORIZED''}")
    case True
    then have leg: "''FAILED'' \<in> set session_states" "transition_is_legal (ss_state s) ''FAILED''"
      by (auto simp: session_states_def transition_is_legal_def TRANSITIONS_def)
    obtain ev where "advances H [] st s [ev] (transition_session H st sid ''FAILED'' instant plain)" "ev_new_state ev = ''FAILED''"
      using transition_plain [OF ok g leg(1) _ leg(2) assms(4)] by auto
    then show ?thesis using out [of "[]" "[ev]"] True by fastforce
  next
    case False
    have "ss_state s \<in> set session_states" using sessions_okD(4) [OF ok g] by (simp add: session_facts_def)
    then have "ss_state s \<in> set TERMINATABLE_STATES"
      using False assms(3) by (auto simp: session_states_def TERMINATABLE_STATES_def)
    from terminate_plain [OF ok g this assms(4)] obtain evs where
      "advances H [] st s evs (terminate_session H st sid instant plain)" "ev_new_state (last evs) = ''TERMINATED''" by blast
    then show ?thesis using out [of "[]" evs] False by fastforce
  qed
qed

theorem every_session_can_end_witness:
  "\<exists>st sid r st' s'. serve sample_hash (Terminate sid day1 plain) st = Inr (r, st') \<and> sr_ok r \<and>
     get_session st' sid = Some s' \<and> ss_state s' \<in> {''TERMINATED'', ''FAILED''}"
proof -
  from sample_reconnecting [of sample_hash] obtain st sid s where s: "(session_store_step sample_hash)\<^sup>*\<^sup>* empty_session_store st"
    "get_session st sid = Some s" "ss_state s = ''RECONNECTING''"
    unfolding has_sample_def by blast
  have "ss_state s \<notin> {''TERMINATED'', ''FAILED''}" and n: "ss_state s \<notin> {''REQUESTED'', ''AUTHORIZED''}" by (simp_all add: s(3))
  from every_session_can_end [OF s(1,2) this(1) sample_times(1)] show ?thesis unfolding if_not_P [OF n] by blast
qed

theorem store_answers_atomically_witness:
  "\<exists>r st'. serve sample_hash (Suspend ''x'' day1 plain) empty_session_store = Inr (r, st') \<and> \<not> sr_ok r \<and> st' = empty_session_store"
proof -
  let ?c = "Suspend ''x'' day1 plain"
  have c: "serve sample_hash ?c empty_session_store = Inr (\<lparr>sr_ok = False, sr_code = ''unknown-session'', sr_session = None,
      sr_event = None\<rparr>, empty_session_store)"
    by (simp add: suspend_session_def require_session_def empty_session_store_def unknown_session_def failed_def)
  have "made_call sample_hash ?c" by (simp add: made_call_def)
  from store_answers_atomically [OF rtranclp.rtrancl_refl this] c show ?thesis by simp
qed

lemma short_texts:
  "validate_free_text ''sha256:a'' = Inr ()" "validate_free_text march = Inr ()" "validate_free_text day1 = Inr ()"
  by (simp_all add: validate_free_text_def has_session_token_def session_forbidden_tokens_def session_looks_secret_def
      session_secret_hints_def ascii_lower_def lower_alnum_def less_eq_char_def)

lemma metadata_keys:
  "validate_free_text ''old_route_decision_id'' = Inr ()" "validate_free_text ''new_route_decision_id'' = Inr ()"
  "validate_free_text ''old_path_id'' = Inr ()" "validate_free_text ''new_path_id'' = Inr ()"
  "validate_free_text ''new_path_expires_at'' = Inr ()"
  by (simp_all add: validate_free_text_def has_session_token_def session_forbidden_tokens_def session_looks_secret_def
      session_secret_hints_def ascii_lower_def lower_alnum_def less_eq_char_def)

theorem route_changes_are_verified_witness:
  "\<exists>st st' sid s s' rd p r. serve (\<lambda>_. ''a'') (Reconnect sid rd day1 None plain) st = Inr (r, st') \<and>
     get_session st sid = Some s \<and> get_session st' sid = Some s' \<and> route_of s' \<noteq> route_of s \<and>
     ss_state s = ''RECONNECTING'' \<and> reconnect_facts (\<lambda>_. ''a'') (ss_binding s) rd (ss_last_instant s') p"
proof -
  let ?H = "\<lambda>_ :: bytes. ''a''" and ?rd = "session_route (\<lambda>_. ''a'') day1" and ?p = "session_path (\<lambda>_. ''a'') day1"
  from sample_reconnecting [of ?H] obtain st sid s where s: "(session_store_step ?H)\<^sup>*\<^sup>* empty_session_store st"
    "get_session st sid = Some s" "ss_state s = ''RECONNECTING''"
    "ss_binding s = bound_to (session_route ?H march) (session_policy ?H) (sample_node CHR ''a'') (sample_node CHR ''b'') ''''
       (session_path ?H march)"
    "route_of s = (rd_decision_id (session_route ?H march), pa_path_id (session_path ?H march), march)"
    unfolding has_sample_def by blast
  note ok = reachable_ok [OF s(1)] and g = s(2) [unfolded get_session_def]
  note d = sessions_okD [OF ok g]
  have obj: "made_route ?rd" "creation_facts ?H ?rd (session_policy ?H) (sample_node CHR ''a'') (sample_node CHR ''b'') '''' day1 ?p"
    by (rule session_objects [OF sample_times(1)]; simp)+
  have ids: "rd_decision_id (session_route ?H e) = ''sha256:a''" for e by (simp add: session_route_def Let_def)
  have "canon_ok 0 (map_jval lit (path_document (sample_node CHR ''a'') (sample_node CHR ''b'') [sample_link]
        [sample_node CHR ''a'', sample_node CHR ''b'']))"
    by (simp add: path_document_def texts_doc_def MAX_CANONICAL_DEPTH_def)
  then have pids: "pa_path_id (session_path ?H e) = ''sha256:a''" for e
    by (elim canonical_ok) (simp add: session_path_def derive_path_id_def)
  let ?r = "(''sha256:a'', ''sha256:a'', day1)"
  have x: "me_expires_at (pa_metrics ?p) = day1" by (simp add: session_path_def)
  have "reconnect_facts ?H (ss_binding s) ?rd day1 ?p"
    using obj(2) x unfolding reconnect_facts_def s(4)
    by (simp add: creation_facts_def bound_to_def intent_slot_def or_default_def)
  then have v: "verify_route_for_reconnect ?H (ss_binding s) ?rd day1 None = Inr ?r"
    using ids pids x by (auto simp: verify_reconnect_iff)
  have sid: "sid \<noteq> ''''" "ss_session_id s \<noteq> ''''" using d(1,4) by (auto simp: session_facts_def derive_session_id_def split: sum.splits)
  have q: "0 \<le> ss_last_sequence s" using d(4) by (simp add: session_facts_def)
  let ?an = "plain\<lparr>an_metadata := route_metadata s ?r\<rparr>"
  let ?e = "next_event s (ss_last_sequence s + 1) (ss_state s) ''ESTABLISHED'' ''reconnected'' day1 ?an"
  have rt: "ss_route_decision_id s = ''sha256:a''" "ss_path_id s = ''sha256:a''" "ss_path_expires_at s = march"
    using s(5) ids pids by (simp_all add: route_of_def)
  have meta: "check_metadata [] (route_metadata s ?r) = Inr ()"
    by (simp add: route_metadata_def rt short_texts metadata_keys)
  obtain b where b: "canonical_bytes (event_content ?e) = Inr b"
    by (rule event_content_canonical [of ?e]) (simp add: next_event_def plain_def)
  have "make_event ?H ?e = Inr (?e\<lparr>ev_event_id := ''sha256:a''\<rparr>)"
    using sid q b s(3) meta
    by (auto simp: make_event_def derive_event_id_def)
      (simp_all add: next_event_def plain_def plain_text session_states_def sample_times)
  then obtain ev where ev: "make_event ?H ?e = Inr ev" by blast
  note f = make_event_fields [OF ev, unfolded next_event_def, simplified]
  have rr: "recorded_route ev = ?r" by (rule recorded_route_metadata [where s = s]) (simp add: f)
  have ir: "is_reconnect ev" by (simp add: is_reconnect_def f s(3))
  have j: "route_justified ?H [?rd] s ev"
    by (rule verified_route_justified [OF _ obj(1) rr, where pd = None]) (simp_all add: f v)
  have "make_session ?H (advanced s ''ESTABLISHED'' (ss_last_sequence s + 1) (ev_instant ev) (Some ?r)) = Inr (apply_event s ev)"
    using session_ok_apply(2) [OF d(2) make_event_facts [OF ev] j] ir rr by (simp add: f)
  then have "serve ?H (Reconnect sid ?rd day1 None plain) st = commit_events st (apply_event s ev) [ev] ''reconnected''"
    using sid g s(3) v ev by (simp add: reconnect_session_def require_session_def apply_transition_def)
  then obtain r where out: "serve ?H (Reconnect sid ?rd day1 None plain) st = Inr (r, recorded st (apply_event s ev) [ev])"
    by (simp add: commit_events_def recorded_def)
  have c: "made_call ?H (Reconnect sid ?rd day1 None plain)" using obj(1) by (simp add: made_call_def)
  have g': "get_session (recorded st (apply_event s ev) [ev]) sid = Some (apply_event s ev)"
    using d(1) by (simp add: get_session_def recorded_lookup)
  have ch: "route_of (apply_event s ev) \<noteq> route_of s" using ir rr s(5) by (simp add: apply_event_def)
  from route_changes_are_verified [OF s(1) c out s(2) g' ch]
  obtain p where "reconnect_facts ?H (ss_binding s) ?rd (ss_last_instant (apply_event s ev)) p" by auto
  then show ?thesis using out s(2,3) g' ch by blast
qed

lemma failed_not_ok: "failed st c x = Inr (r, st') \<Longrightarrow> \<not> sr_ok r" "unknown_session st = Inr (r, st') \<Longrightarrow> \<not> sr_ok r"
    "envelope_error st e = Inr (r, st') \<Longrightarrow> \<not> sr_ok r"
  by (auto simp: failed_def unknown_session_def envelope_error_def split: session_error.splits)

lemma append_accepts:
  assumes "append_event H st sid ev rd pd = Inr (r, st1)" "sr_ok r"
  obtains (known) s where "require_session st sid = Some s" "ev_session_id ev = sid"
      "ev_event_id ev \<in> set (map ev_event_id (history st sid))" "st1 = st"
  | (new) s route updated where "require_session st sid = Some s" "ev_session_id ev = sid"
      "make_session H (advanced s (ev_new_state ev) (ev_sequence ev) (ev_instant ev) route) = Inr updated"
      "commit_events st updated [ev] ''transitioned'' = Inr (r, st1)"
proof (cases "require_session st sid")
  case None
  then show thesis using assms by (auto simp: append_event_def unknown_session_def failed_def)
next
  case (Some s)
  have nf: "failed st c x \<noteq> Inr (r, st1)" "envelope_error st e \<noteq> Inr (r, st1)" for c x e
    using failed_not_ok assms(2) by blast+
  have out: "append_event H st sid ev rd pd = Inr (r, st1)" by (rule assms(1))
  have id: "ev_session_id ev = sid" using out nf unfolding append_event_def Some option.case by (cases "ev_session_id ev = sid") simp_all
  show thesis
  proof (cases "ev_event_id ev \<in> set (map ev_event_id (history st sid))")
    case True
    then have "st1 = st" using out id unfolding append_event_def Some option.case by simp
    then show thesis using known [OF Some id True] by simp
  next
    case False
    have "\<exists>route. bindE (make_session H (advanced s (ev_new_state ev) (ev_sequence ev) (ev_instant ev) route)) (\<lambda>updated.
        commit_events st updated [ev] ''transitioned'') = Inr (r, st1)"
      using out id False nf unfolding append_event_def Some option.case Let_def
      by (auto split: option.splits sum.splits if_splits)
    then show thesis using new [OF Some id] by (auto simp: bindE_eq_Inr_iff)
  qed
qed

text \<open>
  C11: Appending is idempotent: once an event has been accepted, appending it again, with
  whatever decisions, answers \<open>replayed\<close> and changes nothing, also after further calls.
\<close>

theorem accepted_events_replay:
  assumes "(session_store_step H)\<^sup>*\<^sup>* empty_session_store st" "made_call H (Append sid ev rd pd)"
    and "serve H (Append sid ev rd pd) st = Inr (r, st1)" "sr_ok r" "(session_store_step H)\<^sup>*\<^sup>* st1 st2"
  shows "\<exists>s. get_session st2 sid = Some s \<and> serve H (Append sid ev rd' pd') st2 =
     Inr (\<lparr>sr_ok = True, sr_code = ''replayed'', sr_session = Some s, sr_event = Some ev\<rparr>, st2)"
proof -
  have ok: "sessions_ok H st" by (rule reachable_ok [OF assms(1)])
  have out: "append_event H st sid ev rd pd = Inr (r, st1)" using assms(3) by simp
  have "\<exists>s1. ev_session_id ev = sid \<and> sid \<noteq> '''' \<and> ev_event_id ev \<in> set (map ev_event_id (history st1 sid)) \<and>
      dget (st_sessions st1) sid = Some s1"
    using out assms(4)
  proof (cases rule: append_accepts)
    case (known s)
    then show ?thesis by (auto simp: require_session_Some)
  next
    case (new s route updated)
    then have "ss_session_id s = sid" using sessions_okD(1) [OF ok] by (auto simp: require_session_Some)
    then have "ss_session_id updated = sid" using new(1,3) by (auto simp: make_session_iff require_session_Some)
    then show ?thesis using new by (auto simp: commit_events_def require_session_Some history_def)
  qed
  then obtain s1 where es: "ev_session_id ev = sid" and sid: "sid \<noteq> ''''"
    and s1: "ev_event_id ev \<in> set (map ev_event_id (history st1 sid))" "dget (st_sessions st1) sid = Some s1"
    by blast
  have "session_store_step H st st1" by (rule step_call [OF assms(2,3)])
  then have "sessions_ok H st1" using reachable_ok assms(1) by (blast intro: rtranclp.rtrancl_into_rtrancl)
  from run_extends [OF assms(5) this] s1(2) obtain s2 es' where s2: "dget (st_sessions st2) sid = Some s2"
    "history st2 sid = history st1 sid @ es'" unfolding store_extends_def by blast
  have "ev_event_id ev \<in> set (map ev_event_id (history st2 sid))" using s1(1) s2(2) by auto
  then have "append_event H st2 sid ev rd' pd' =
      Inr (\<lparr>sr_ok = True, sr_code = ''replayed'', sr_session = Some s2, sr_event = Some ev\<rparr>, st2)"
    using s2(1) sid es by (simp add: append_event_def require_session_def)
  then show ?thesis using s2(1) by (auto simp: get_session_def)
qed

text \<open>
  C7: The engines and the store fit together: if routing selects a path under a policy
  decision, then on any store that calls have reached, creating a session from exactly
  these two decisions, at the routing instant and for the intent that was routed, opens a
  session on that path, unless the store already has a session with the derived id.
\<close>

theorem routed_session_opens:
  assumes "make_context c0 = Inr c" "evaluate H c = Inr r" "rr_decision r = Some d" "rd_selected d = Some p"
    and "rc_policy c = Some pd" "make_policy_decision pd = Inr pd"
    and "rc_intent c = None \<or> is_valid_content_digest (intent_digest_of c)"
    and "(session_store_step H)\<^sup>*\<^sup>* empty_session_store st"
  shows "\<exists>sid. derive_session_id H (bound_to d pd (rc_source c) (rc_destination c) (intent_digest_of c) p) (rc_instant c) = Inr sid \<and>
    (get_session st sid \<noteq> None \<or>
     (\<exists>q st' s. serve H (Create d pd (rc_source c) (rc_destination c) (rc_instant c) (intent_digest_of c) plain) st = Inr (q, st') \<and>
        sr_ok q \<and> get_session st' sid = Some s \<and> ss_state s = ''REQUESTED'' \<and>
        route_of s = (rd_decision_id d, pa_path_id p, me_expires_at (pa_metrics p))))"
proof -
  note cf = selected_route_creates(1) [OF assms(1-7)]
  obtain sid where sid: "derive_session_id H (bound_to d pd (rc_source c) (rc_destination c) (intent_digest_of c) p) (rc_instant c) = Inr sid"
    by (rule session_id_derived)
  show ?thesis
  proof (cases "get_session st sid")
    case None
    from create_plain [OF reachable_ok [OF assms(8)] cf sid None [unfolded get_session_def]] obtain s ev where
      s: "opens H st s ev (create_session H st d pd (rc_source c) (rc_destination c) (rc_instant c) (intent_digest_of c) plain)"
        "ss_session_id s = sid" "ss_state s = ''REQUESTED''" "route_of s = (rd_decision_id d, pa_path_id p, me_expires_at (pa_metrics p))"
      by blast
    have "get_session (recorded st s [ev]) sid = Some s" using s(2) by (simp add: get_session_def recorded_lookup)
    then show ?thesis using sid s opensD(1) [OF s(1)]
      by (intro exI [of _ sid] conjI disjI2 exI [of _ "recorded st s [ev]"] exI [of _ s] exI) (assumption | simp)+
  qed (use sid in auto)
qed

theorem routed_session_opens_witness:
  "\<exists>d p st' q sid s. evaluate sample_hash (sample_context sample_link [sample_constraint 9]) = Inr (decided d) \<and>
     rd_selected d = Some p \<and> serve sample_hash (Create d sample_policy (sample_node CHR ''a'') (sample_node CHR ''b'') day1
       (replicate 64 CHR ''b'') plain) empty_session_store = Inr (q, st') \<and> sr_ok q \<and>
     get_session st' sid = Some s \<and> ss_state s = ''REQUESTED'' \<and>
     route_of s = (rd_decision_id d, pa_path_id p, me_expires_at (pa_metrics p))"
proof -
  let ?c = "sample_context sample_link [sample_constraint 9]"
  obtain d p where d: "evaluate sample_hash ?c = Inr (decided d)" "rd_selected d = Some p" using sample_evaluates by blast
  have rr: "rr_decision (decided d) = Some d" by (simp add: decided_def)
  have pol: "make_policy_decision sample_policy = Inr sample_policy"
    by (simp add: make_policy_decision_def sample_policy_def decision_codes_def)
  have dig: "intent_digest_of ?c = replicate 64 CHR ''b''" by (simp add: intent_digest_of_def sample_intent_def)
  have v: "rc_intent ?c = None \<or> is_valid_content_digest (intent_digest_of ?c)"
    unfolding dig by (simp add: is_valid_content_digest_def digest_ok_def list_all_iff lower_hex_def less_eq_char_def)
  have none: "get_session empty_session_store sid = None" for sid by (simp add: get_session_def empty_session_store_def)
  from routed_session_opens [OF sample_context_made d(1) rr d(2) _ pol v rtranclp.rtrancl_refl]
  show ?thesis using d none unfolding dig by (simp del: serve.simps) blast
qed

text \<open>
  C12: The expiry of a path is not covered by any digest: a routing decision whose path has
  expired, and that creation refuses for that reason alone, is accepted once the expiry in
  the path's metrics is replaced by a later one; neither the decision's id nor the path's
  id changes, and the session is bound to the replaced expiry.
\<close>

theorem path_expiry_is_not_bound:
  assumes "verify_route_for_creation H rd pd src dst dig inst = Inl (SessionError ''route-expired'')"
    and "rd_selected rd = Some p" "make_decision rd = Inr rd" "make_policy_decision pd = Inr pd" "live_at inst later"
  shows "\<exists>b. verify_route_for_creation H (rd\<lparr>rd_selected := Some (p\<lparr>pa_metrics := (pa_metrics p)\<lparr>me_expires_at := later\<rparr>\<rparr>)\<rparr>)
      pd src dst dig inst = Inr b \<and>
    sb_route_decision_id b = rd_decision_id rd \<and> sb_path_id b = pa_path_id p \<and> sb_path_expires_at b = later"
proof -
  let ?p = "p\<lparr>pa_metrics := (pa_metrics p)\<lparr>me_expires_at := later\<rparr>\<rparr>"
  let ?rd = "rd\<lparr>rd_selected := Some ?p\<rparr>"
  have no: "check_selected H rd src dst \<noteq> Inl (SessionError ''route-expired'')"
    "check_node x \<noteq> Inl (SessionError ''route-expired'')" "make_binding x' \<noteq> Inl (SessionError ''route-expired'')"
    "decision_id_matches H pd \<noteq> Inl (SessionError ''route-expired'')" for x x'
    by (auto simp: check_selected_def check_node_def make_binding_def decision_id_matches_def route_decision_id_matches_def
        bindE_eq_Inl_iff split: sum.splits option.splits if_splits)
  from assms(1) no obtain q where q: "check_node src = Inr ()" "check_node dst = Inr ()" "parse_instant inst \<noteq> None"
    "check_selected H rd src dst = Inr q" "decision_id_matches H pd = Inr True" "pd_effect pd = ''allow''"
    "rd_policy_decision_id rd \<noteq> ''''" "pd_decision_id pd = rd_policy_decision_id rd"
    "dig = '''' \<or> is_valid_content_digest dig" "route_intent_slot rd = or_default dig ABSENT_INTENT_MARKER"
    unfolding verify_route_for_creation_def bindE_eq_Inl_iff
    by (auto split: if_splits simp: bindE_eq_Inl_iff)
  have ir: "intact_route H rd src dst p"
    using q(4) assms(2) by (auto simp: check_selected_iff intact_route_def)
  have c: "decision_content ?rd = decision_content rd" by (simp add: decision_content_def assms(2))
  have "intact_route H ?rd src dst ?p" using ir by (simp add: intact_route_def c)
  moreover have "pa_path_id p \<noteq> ''''" using ir by (auto simp: intact_route_def derive_path_id_def split: sum.splits)
  moreover have "rd_decision_id rd \<noteq> ''''" using assms(3) by (auto simp: make_decision_def bindE_eq_Inr_iff)
  moreover have "0 \<le> pd_policy_set_version pd" using assms(4) by (auto simp: make_policy_decision_def bindE_eq_Inr_iff not_less)
  moreover have "route_intent_slot ?rd = route_intent_slot rd" by (simp add: route_intent_slot_def)
  ultimately have "creation_facts H ?rd pd src dst dig inst ?p"
    using q assms(5) by (simp add: creation_facts_def check_node_iff decision_id_matches_iff intact_permit_def)
  then have "verify_route_for_creation H ?rd pd src dst dig inst = Inr (bound_to ?rd pd src dst dig ?p)"
    by (auto simp: verify_creation_iff)
  then show ?thesis by (simp add: bound_to_def)
qed

theorem path_expiry_is_not_bound_witness:
  "\<exists>rd pd p b src dst. verify_route_for_creation sample_hash rd pd src dst '''' march = Inl (SessionError ''route-expired'') \<and>
     verify_route_for_creation sample_hash (rd\<lparr>rd_selected := Some (p\<lparr>pa_metrics := (pa_metrics p)\<lparr>me_expires_at := march\<rparr>\<rparr>)\<rparr>)
       pd src dst '''' march = Inr b \<and> sb_path_expires_at b = march"
proof -
  let ?H = sample_hash
  let ?rd = "session_route ?H day1" and ?pd = "session_policy ?H" and ?p = "session_path ?H day1"
  let ?a = "sample_node CHR ''a''" and ?b = "sample_node CHR ''b''"
  have obj: "made_route ?rd" "creation_facts ?H ?rd ?pd ?a ?b '''' day1 ?p"
    by (rule session_objects [OF sample_times(1)]; simp)+
  have sel: "rd_selected ?rd = Some ?p" using obj(2) by (simp add: creation_facts_def intact_route_def)
  have x: "me_expires_at (pa_metrics ?p) = day1" by (simp add: session_path_def)
  have "check_selected ?H ?rd ?a ?b = Inr ?p" "decision_id_matches ?H ?pd = Inr True"
    "not_expired march day1 = Inr False"
    using obj(2) by (simp_all add: check_selected_iff decision_id_matches_iff creation_facts_def intact_permit_def
        not_expired_def sample_times)
  then have e: "verify_route_for_creation ?H ?rd ?pd ?a ?b '''' march = Inl (SessionError ''route-expired'')"
    using obj(2) x by (auto simp: verify_route_for_creation_def creation_facts_def check_node_def intact_permit_def sample_times)
  have pol: "make_policy_decision ?pd = Inr ?pd"
    by (simp add: make_policy_decision_def session_policy_def sample_policy_def decision_codes_def)
  have "live_at march march" by (simp add: live_at_def sample_times)
  from path_expiry_is_not_bound [OF e sel _ pol this] obj(1) e show ?thesis unfolding made_route_def by blast
qed

lemma append_establishes:
  assumes "(session_store_step H)\<^sup>*\<^sup>* empty_session_store st" "get_session st sid = Some s" "ss_state s = ''AUTHORIZED''"
    and "event_facts H ev" "ev_session_id ev = sid" "ev_sequence ev = ss_last_sequence s + 1"
    and "ev_previous_state ev = ''AUTHORIZED''" "ev_new_state ev = ''ESTABLISHED''" "ev_event_type ev \<noteq> ''reconnected''"
    and "ev_event_id ev \<notin> set (map ev_event_id (history st sid))"
  shows "\<exists>r st' s'. serve H (Append sid ev None None) st = Inr (r, st') \<and> sr_ok r \<and> get_session st' sid = Some s' \<and>
    ss_state s' = ''ESTABLISHED''"
proof -
  have ok: "sessions_ok H st" by (rule reachable_ok [OF assms(1)])
  note g = assms(2) [unfolded get_session_def]
  note d = sessions_okD [OF ok g]
  have sid: "sid \<noteq> ''''" using d(1,4) by (auto simp: session_facts_def derive_session_id_def split: sum.splits)
  have req: "require_session st sid = Some s" using sid g by (simp add: require_session_def)
  have n: "\<not> is_reconnect ev" using assms(9) by (simp add: is_reconnect_def)
  have leg: "transition_is_legal ''AUTHORIZED'' ''ESTABLISHED''" by (simp add: transition_is_legal_def TRANSITIONS_def)
  have "history st sid \<noteq> []" "ev_sequence (last (history st sid)) = ss_last_sequence s"
    using d(3) log_of_head(1,4) [OF d(3)] by (simp_all add: log_of_def)
  then have seq: "check_sequence (history st sid) ev = None" using assms(6) by (simp add: check_sequence_def)
  have "advances H [] st s [ev] (bindE (make_session H (advanced s (ev_new_state ev) (ev_sequence ev) (ev_instant ev) None))
      (\<lambda>updated. commit_events st updated [ev] ''transitioned''))"
    by (rule apply_event_result [OF ok g assms(4,5) seq _ _ unjustified_route [OF n]])
      (use n assms(3,7,8) leg in \<open>simp_all add: edge_ok_def code_member\<close>)
  moreover have "append_event H st sid ev None None =
      bindE (make_session H (advanced s (ev_new_state ev) (ev_sequence ev) (ev_instant ev) None))
        (\<lambda>updated. commit_events st updated [ev] ''transitioned'')"
    unfolding append_event_def req option.case using assms(3,5,7-10) seq leg by simp
  ultimately have "advances H [] st s [ev] (append_event H st sid ev None None)" by simp
  from advances_outcome [OF this g d(1)] have
    "\<exists>r st' s'. append_event H st sid ev None None = Inr (r, st') \<and> sr_ok r \<and> get_session st' sid = Some s' \<and> ss_state s' = ''ESTABLISHED''"
    using assms(8) by (metis get_session_def last.simps)
  then show ?thesis by simp
qed

text \<open>
  C13: Appending an event establishes a session on an expired route: for an AUTHORIZED session
  whose route has expired at an instant, the transition to ESTABLISHED is refused with
  \<open>route-expired\<close>, but the next event that records the same step at that instant is
  accepted and the session is ESTABLISHED.
\<close>

theorem append_ignores_route_expiry:
  assumes "(session_store_step H)\<^sup>*\<^sup>* empty_session_store st" "get_session st sid = Some s" "ss_state s = ''AUTHORIZED''"
    and "parse_instant (ev_instant ev) = Some now" "\<not> live_at (ev_instant ev) (ss_path_expires_at s)"
    and "event_facts H ev" "ev_session_id ev = sid" "ev_sequence ev = ss_last_sequence s + 1"
    and "ev_previous_state ev = ''AUTHORIZED''" "ev_new_state ev = ''ESTABLISHED''" "ev_event_type ev \<noteq> ''reconnected''"
    and "ev_event_id ev \<notin> set (map ev_event_id (history st sid))"
  shows "(\<exists>r. serve H (Transition sid ''ESTABLISHED'' (ev_instant ev) plain) st = Inr (r, st) \<and> \<not> sr_ok r \<and> sr_code r = ''route-expired'') \<and>
    (\<exists>r st' s'. serve H (Append sid ev None None) st = Inr (r, st') \<and> sr_ok r \<and> get_session st' sid = Some s' \<and>
       ss_state s' = ''ESTABLISHED'')"
proof -
  have ok: "sessions_ok H st" by (rule reachable_ok [OF assms(1)])
  note g = assms(2) [unfolded get_session_def]
  note d = sessions_okD [OF ok g]
  have sid: "sid \<noteq> ''''" using d(1,4) by (auto simp: session_facts_def derive_session_id_def split: sum.splits)
  have req: "require_session st sid = Some s" using sid g by (simp add: require_session_def)
  obtain t where t: "parse_instant (ss_path_expires_at s) = Some t" using d(2) by (auto simp: session_ok_def)
  then have "t < now" using assms(4,5) by (auto simp: live_at_def)
  then have "transition_session H st sid ''ESTABLISHED'' (ev_instant ev) plain = failed st ''route-expired'' (Some s)"
    using assms(3,4) t req
    by (simp add: transition_session_def session_states_def terminal_states_def transition_is_legal_def TRANSITIONS_def Let_def)
  then have 1: "\<exists>r. serve H (Transition sid ''ESTABLISHED'' (ev_instant ev) plain) st = Inr (r, st) \<and> \<not> sr_ok r \<and> sr_code r = ''route-expired''"
    by (simp add: failed_def)
  show ?thesis using 1 append_establishes [OF assms(1-3,6-12)] by blast
qed

definition plain_hash :: "bytes \<Rightarrow> string" where
  \<comment> \<open>an injective stand-in for the digest: every byte as a character\<close>
  "plain_hash bs = map (\<lambda>b. char_of (unat b)) bs"

lemma plain_hash_inj: "plain_hash a = plain_hash b \<longleftrightarrow> a = b"
proof -
  have "inj (\<lambda>b :: byte. char_of (unat b))"
  proof (rule injI)
    fix x y :: byte
    assume e: "char_of (unat x) = (char_of (unat y) :: char)"
    have "unat x < 256" "unat y < 256"
      using unsigned_less [of x] unsigned_less [of y] by simp_all
    moreover have "unat x mod 256 = unat y mod 256"
      using arg_cong [OF e, of "of_char :: char \<Rightarrow> nat"] by (simp only: of_char_of)
    ultimately have "unat x = unat y" by (simp only: mod_less)
    then show "x = y" by (simp only: unsigned_word_eqI)
  qed
  then show ?thesis by (simp add: plain_hash_def inj_map_eq_map)
qed

lemma event_ids_differ:
  assumes "event_facts plain_hash e" "event_facts plain_hash f" "ev_event_id e = ev_event_id f"
  shows "ev_sequence e = ev_sequence f"
proof -
  obtain b b' where b: "canonical_bytes (event_content e) = Inr b" "canonical_bytes (event_content f) = Inr b'"
    and i: "ev_event_id e = ''sha256:'' @ plain_hash b" "ev_event_id f = ''sha256:'' @ plain_hash b'"
    using event_factsD(5) [OF assms(1)] event_factsD(5) [OF assms(2)]
    by (cases "canonical_bytes (event_content e)"; cases "canonical_bytes (event_content f)")
      (simp_all add: derive_event_id_def)
  have "b' = b" using assms(3) unfolding i same_append_eq plain_hash_inj by simp
  note b = b [unfolded this]
  define members where "members x =
     [(''session_id'', JStr (ev_session_id x)), (''sequence'', JInt (ev_sequence x)),
       (''previous_state'', JStr (ev_previous_state x)), (''new_state'', JStr (ev_new_state x)),
       (''event_type'', JStr (ev_event_type x)), (''event_instant'', JStr (ev_instant x))]
      @ text_member ''actor_reference'' (ev_actor x)
      @ text_member ''reason_code'' (ev_reason x)
      @ (if ev_metadata x = [] then [] else [(''metadata'', pairs_doc (sort_key fst (ev_metadata x)))])
      @ (if ev_extensions x = [] then [] else [(''extensions'', JArr (ev_extensions x))])" for x :: session_event
  have c: "event_content x = JObj (members x)" for x by (simp add: members_def event_content_def)
  have wf: "dict_wf (members x)" for x by (simp add: members_def text_member_def)
  have "same_doc (event_content e) (event_content f)" by (rule canonical_bytes_same_doc [OF b])
  then have "rel_option same_doc (dget (members e) ''sequence'') (dget (members f) ''sequence'')"
    by (intro same_doc_members) (use wf in \<open>simp_all only: c\<close>)
  then show ?thesis by (simp add: members_def)
qed

lemma april_time: "parse_instant ''2024-04-01T00:00:00Z'' = Some 63847526400000000"
  by (simp add: parse_instant_def matches_template_def instant_template_def is_digit_iff fraction_digits_def
      make_datetime_def days_in_month_def is_leap_def days_before_year_def digits_value_def)

lemma sample_event:
  obtains st sid s ev where "(session_store_step plain_hash)\<^sup>*\<^sup>* empty_session_store st" "get_session st sid = Some s"
    "ss_state s = ''AUTHORIZED''" "ss_path_expires_at s = march" "event_facts plain_hash ev" "ev_session_id ev = sid"
    "ev_sequence ev = ss_last_sequence s + 1" "ev_previous_state ev = ''AUTHORIZED''" "ev_new_state ev = ''ESTABLISHED''"
    "ev_event_type ev \<noteq> ''reconnected''" "ev_event_id ev \<notin> set (map ev_event_id (history st sid))"
    "ev_instant ev = ''2024-04-01T00:00:00Z''"
proof -
  let ?i = "''2024-04-01T00:00:00Z''"
  from sample_authorized [of plain_hash] obtain st sid s where s: "(session_store_step plain_hash)\<^sup>*\<^sup>* empty_session_store st"
    "get_session st sid = Some s" "ss_state s = ''AUTHORIZED''" "snd (snd (route_of s)) = march"
    unfolding has_sample_def by auto
  note ok = reachable_ok [OF s(1)] and g = s(2) [unfolded get_session_def]
  note d = sessions_okD [OF ok g]
  have x: "ss_path_expires_at s = march" using s(4) by (simp add: route_of_def)
  have sid: "ss_session_id s \<noteq> ''''" using d(4) by (auto simp: session_facts_def derive_session_id_def split: sum.splits)
  have q: "1 \<le> ss_last_sequence s + 1" using d(4) by (simp add: session_facts_def)
  have st: "''AUTHORIZED'' \<in> set session_states" by (simp add: session_states_def)
  obtain ev where ev: "make_event plain_hash (next_event s (ss_last_sequence s + 1) ''AUTHORIZED'' ''ESTABLISHED'' ''established'' ?i plain) = Inr ev"
    using next_event_made [OF sid q insertI2 [OF st] session_states_codes(2) _ april_time, of "''established''"] by auto
  note f = make_event_fields [OF ev, unfolded next_event_def, simplified]
  have e: "event_facts plain_hash ev" by (rule make_event_facts [OF ev])
  have fresh: "ev_event_id ev \<notin> set (map ev_event_id (history st sid))"
  proof
    assume "ev_event_id ev \<in> set (map ev_event_id (history st sid))"
    then obtain h where h: "h \<in> set (history st sid)" "ev_event_id ev = ev_event_id h" by auto
    have "event_facts plain_hash h" using d(3) h(1) by (simp add: log_of_def list_all_iff)
    then have "ev_sequence h = ss_last_sequence s + 1" using event_ids_differ [OF e _ h(2)] f by simp
    moreover have "ev_sequence h \<in> int ` {1..<Suc (length (history st sid))}"
    proof -
      have "ev_sequence h \<in> set (map ev_sequence (history st sid))" using h(1) by simp
      also have "map ev_sequence (history st sid) = map int [1..<Suc (length (history st sid))]"
        using d(3) by (simp only: log_of_def)
      also have "set (map int [1..<Suc (length (history st sid))]) = int ` {1..<Suc (length (history st sid))}"
        by (simp only: set_map set_upt)
      finally show ?thesis .
    qed
    ultimately show False using log_of_head(1) [OF d(3)] by auto
  qed
  show thesis by (rule that [OF s(1-3) x e _ _ _ _ _ fresh]) (simp_all add: f d(1))
qed

theorem append_ignores_route_expiry_witness:
  "\<exists>st sid s ev r st' s'. get_session st sid = Some s \<and> ss_path_expires_at s = march \<and> ev_instant ev = ''2024-04-01T00:00:00Z'' \<and>
     serve plain_hash (Append sid ev None None) st = Inr (r, st') \<and> sr_ok r \<and> get_session st' sid = Some s' \<and>
     ss_state s' = ''ESTABLISHED''"
proof -
  obtain st sid s ev where s: "(session_store_step plain_hash)\<^sup>*\<^sup>* empty_session_store st" "get_session st sid = Some s"
    "ss_state s = ''AUTHORIZED''" "ss_path_expires_at s = march" "event_facts plain_hash ev" "ev_session_id ev = sid"
    "ev_sequence ev = ss_last_sequence s + 1" "ev_previous_state ev = ''AUTHORIZED''" "ev_new_state ev = ''ESTABLISHED''"
    "ev_event_type ev \<noteq> ''reconnected''" "ev_event_id ev \<notin> set (map ev_event_id (history st sid))"
    "ev_instant ev = ''2024-04-01T00:00:00Z''" by (rule sample_event)
  have live: "\<not> live_at (ev_instant ev) (ss_path_expires_at s)" by (simp add: s(4,12) live_at_def april_time march_time)
  have "parse_instant (ev_instant ev) = Some 63847526400000000" by (simp add: s(12) april_time)
  from append_ignores_route_expiry [OF s(1-3) this live s(5-11)] show ?thesis using s(2,4,12) by blast
qed

theorem accepted_events_replay_witness:
  "\<exists>sid s ev st'. ev_event_type ev \<noteq> ''reconnected'' \<and> serve plain_hash (Append sid ev None None) st' =
     Inr (\<lparr>sr_ok = True, sr_code = ''replayed'', sr_session = Some s, sr_event = Some ev\<rparr>, st')"
proof -
  obtain st sid s ev where s: "(session_store_step plain_hash)\<^sup>*\<^sup>* empty_session_store st" "get_session st sid = Some s"
    "ss_state s = ''AUTHORIZED''" "ss_path_expires_at s = march" "event_facts plain_hash ev" "ev_session_id ev = sid"
    "ev_sequence ev = ss_last_sequence s + 1" "ev_previous_state ev = ''AUTHORIZED''" "ev_new_state ev = ''ESTABLISHED''"
    "ev_event_type ev \<noteq> ''reconnected''" "ev_event_id ev \<notin> set (map ev_event_id (history st sid))"
    "ev_instant ev = ''2024-04-01T00:00:00Z''" by (rule sample_event)
  from append_establishes [OF s(1-3,5-11)] obtain r st' where
    r: "serve plain_hash (Append sid ev None None) st = Inr (r, st')" "sr_ok r" by blast
  have "made_call plain_hash (Append sid ev None None)" using s(5) by (simp add: made_call_def)
  from accepted_events_replay [OF s(1) this r rtranclp.rtrancl_refl] s(10) show ?thesis by blast
qed

end
