(* ===== verification/Spec2Isabelle.thy ===== *)
theory Spec2Isabelle
  imports Cbor Topology Resource_Lifecycle Routing_Properties Policy_Properties Policy_Store
    Session_Properties
begin

text \<open>
  Verification development for ADCOS: the core that decides how traffic may be routed and
  under which authority, and the records it decides over.  Paths are relative to
  \<open>src/\<close>.

  \<^bold>\<open>The program and how its parts interact.\<close>  Nodes have content-derived identities
  (\<open>identity/node_id.py\<close>).  They report attributable, sequenced claims, which
  \<open>topology/model.py\<close> merges into an evidence-aware graph, and offers and measurements of
  resources, which \<open>resources/model.py\<close> merges into a store with integer accounts.
  \<open>policy/*.py\<close> publishes versioned rule sets and evaluates them to decisions.
  \<open>routing/*.py\<close> reads a topology graph, a resource store, link facts, a policy decision
  and a normalised intent (\<open>intent/model.py\<close>) and selects a route.  \<open>sessions/*.py\<close> opens
  sessions on routing decisions and keeps their event histories.  Every document is hashed
  in the canonical JSON form of \<open>protocol/canonicalization.py\<close>; \<open>protocol/codec_cbor.py\<close>
  is the compact wire form, \<open>protocol/temporal.py\<close> reads instants.

  \<^bold>\<open>Foundations.\<close>  \<open>Adcos_Prelude\<close>: results as \<open>'e + 'a\<close> with \<open>bindE\<close>, \<open>guardE\<close> and
  \<open>mapE\<close>, dictionaries as association lists in insertion order (\<open>dget\<close>, \<open>dset\<close>), sorting
  and multiset lemmas, the collections \<open>result_simps\<close> and \<open>dict_simps\<close>.  \<open>Utf8\<close>: code
  points and bytes.  \<open>Canonical_Json\<close>: the writer \<open>canonical_write\<close> with every error
  branch; its output determines the value up to member order
  (\<open>canonical_bytes_determine_value\<close>).  \<open>Python_Text\<close>: \<open>str\<close> and \<open>repr\<close>, canonical bytes of
  documents and \<open>same_doc\<close>.  \<open>Text_Guards\<close>: words and mappings.  \<open>Cbor\<close>: encoder and decoder,
  round trips both ways (\<open>cbor_decodes\<close>, \<open>cbor_reencodes\<close>).  \<open>Temporal\<close>: \<open>parse_instant\<close>
  and \<open>check_temporal\<close>, instants as microseconds.  \<open>Node_Id\<close>: parser, constructor and
  derivation (\<open>node_id_roundtrip\<close>).

  \<^bold>\<open>Merged records.\<close>  The locale \<open>convergent_store\<close> of \<open>Convergence\<close> states what one merge
  does to the current record, watermark, conflict bucket and history of a key, and proves
  that the live part is a function of the set of records merged (the frontier of highest
  sequence).  \<open>dictionary_store\<close> extends it to stores kept in dictionaries and gives the
  order independence of every filtered query.  It is interpreted three times: on
  \<open>graph_merge\<close> (\<open>topo\<close>, in \<open>Topology\<close>), on \<open>merge_offer\<close> and on \<open>merge_measurement\<close>
  (\<open>offers\<close>, \<open>measurements\<close>, in \<open>Resource_Convergence\<close>).  \<open>Topology\<close> models claims, their
  derived ids and documents, the merge and every query (\<open>graph_implements_frontier\<close>,
  \<open>graph_converges\<close>, \<open>claim_document_roundtrip\<close>).  \<open>Resource_Units\<close>, \<open>Resource_Records\<close>
  and \<open>Resource_Store\<close> model quantities, offers, measurements and the store;
  \<open>Resource_Documents\<close> the round trips; \<open>Accounts\<close> the ledger of one resource
  (\<open>account_run\<close> is any sequence of its calls with their results:
  \<open>operations_exactly_once\<close>, \<open>reachable_account_bounded\<close>); \<open>Resource_Lifecycle\<close> every
  operation of the store as a step, with the invariant of reachable stores
  (\<open>store_converges\<close>, \<open>live_account_never_reset\<close>).

  \<^bold>\<open>Policies.\<close>  \<open>Policy_Model\<close>, \<open>Policy_Predicates\<close>, \<open>Policy_Validation\<close>,
  \<open>Policy_Bindings\<close>, \<open>Policy_Conflict\<close> and \<open>Policy_Engine\<close> follow the files of
  \<open>policy/\<close>: vocabularies and records, the fourteen matchers, validation, descriptors of
  bound operations, conflict resolution, and \<open>evaluate\<close>.  \<open>Policy_Outcome\<close> gives the
  outcomes of an evaluation in terms of a verdict, \<open>Policy_Properties\<close> what they promise
  (one rule behind an allowance, resolution by level against the specification
  \<open>top_level\<close>, totality, tamper evidence, bound decisions).  \<open>Policy_Store\<close> refines
  publication and withdrawal to a register of versions (locale \<open>version_register\<close>,
  interpretation \<open>versions\<close>).

  \<^bold>\<open>Routing.\<close>  \<open>Routing_Model\<close> holds link facts, paths, contexts and decisions;
  \<open>Routing_Candidates\<close> the evidence rules and the breadth-first search, which is proved to
  enumerate the simple routes of an independent specification by length
  (\<open>search_is_exact\<close>, \<open>construct_complete\<close>, \<open>search_terminates\<close>); \<open>Routing_Judgement\<close>
  feasibility, scoring and ranking; \<open>Routing_Engine\<close> the checks of a context and the engine
  with its cache; \<open>Routing_Outcome\<close> and \<open>Routing_Properties\<close> what a decision promises.

  \<^bold>\<open>Sessions.\<close>  \<open>Session_Model\<close>, \<open>Session_Validation\<close> and \<open>Session_Store\<close> follow
  \<open>sessions/model.py\<close>, \<open>validation.py\<close> and \<open>store.py\<close>.  \<open>Session_Log\<close> is the abstract
  machine (open a session with one event, or append one event along an edge of the table)
  and the locale \<open>machine_refinement\<close>; \<open>Session_Steps\<close> shows what each operation does,
  \<open>Session_Lifecycle\<close> interprets the locale on the steps of the store (\<open>sessions\<close>), and
  \<open>Session_Properties\<close> has the properties, among them the link from a routing decision to
  the session it opens (\<open>routed_session_opens\<close>).

  \<^bold>\<open>Parameters.\<close>  SHA-256 is the parameter \<open>sha256_hex\<close> (or \<open>H\<close>), of which the properties
  assume at most that it returns 64 lower-case hexadecimal digits (\<open>digest_fun\<close>); what
  rests on collision freedom names the two inputs that would collide.  The words of a
  \<open>ValueError\<close> of \<open>datetime\<close> are the parameter \<open>calendar_text\<close>.  Where a policy evaluation
  depends on whether texts have a canonical form, the code points of a text are given by a
  parameter \<open>reading\<close>.

  \<^bold>\<open>Bounds and fuel.\<close>  The search of \<open>Routing_Candidates\<close> is a loop with fuel
  \<open>(D + 2) ^ h\<close> for out-degree \<open>D\<close> and hop bound \<open>h\<close>; \<open>search_terminates\<close> proves that it
  reaches the end of the queue within it.  All other recursions are structural or have a
  \<open>measure\<close>.  Canonical JSON is limited to 64 levels and CBOR to its depth and size limits,
  as in the code.  Integers are unbounded, as Python's; the CBOR heads are 8-bit words.

  \<^bold>\<open>Outside the model.\<close>  Characters of texts are code points below 256 except in canonical
  JSON, UTF-8 and CBOR, which are over all code points, and under a \<open>reading\<close>.  Python's
  limits on recursion depth and on the digits of an integer converted to text are not
  reached.  Locks are left out, as calls are sequential.  Free-text details of errors and
  refusals are left out where nothing hashes them.  Values of dynamic types are JSON-like
  values (\<open>jval\<close>), with \<open>JFloat\<close>, \<open>JMixed\<close> and \<open>JOther\<close> for what canonical JSON refuses.
  Not modelled are the parsers of policy, routing and session documents, the envelope class
  of the codec, and the packages around this core (adapters, platform, simulator, web,
  conformance drivers and the services built on it).
\<close>

end
